(* ===== verification/Prelude.thy ===== *)
theory Prelude
  imports Complex_Main "HOL-Library.Word" "HOL-Library.Sublist" "HOL-Library.Multiset"
begin

text \<open>
  What every component shares: the lemma collections, the parts of the Rust standard library
  the registry uses (string operations, number parsing and printing, \<open>checked_add\<close>,
  \<open>clamp\<close>, saturating casts), and generic facts on lists that stand for SQL tables.

  A Rust \<open>String\<close> is its UTF-8 bytes, so it is a HOL \<open>string\<close>: one \<open>char\<close> is one byte,
  and \<open>length\<close> is Rust's \<open>len()\<close>. A \<open>u64\<close> is a \<open>nat\<close> whose bound \<open>2 ^ 64\<close> is
  written out wherever the code checks, saturates or casts; an \<open>i64\<close> is an \<open>int\<close>.
\<close>

named_theorems keeps_intro "rules that decompose the frame condition of a computation"
named_theorems api_defs "definitions a handler is unfolded to"

section \<open>Machine integers\<close>

abbreviation U64_MAX :: nat where "U64_MAX \<equiv> 2 ^ 64 - 1"

definition checked_add_u64 :: "nat \<Rightarrow> nat \<Rightarrow> nat option" where
  "checked_add_u64 a b = (if a + b \<le> U64_MAX then Some (a + b) else None)"

definition saturating_add_u64 :: "nat \<Rightarrow> nat \<Rightarrow> nat" where
  "saturating_add_u64 a b = min (a + b) U64_MAX"

definition saturating_mul_u64 :: "nat \<Rightarrow> nat \<Rightarrow> nat" where
  "saturating_mul_u64 a b = min (a * b) U64_MAX"

text \<open>The cast \<open>x as u64\<close> of an \<open>i64\<close>: two's complement, so a negative value wraps.\<close>

definition as_u64 :: "int \<Rightarrow> nat" where
  "as_u64 i = nat (i mod 2 ^ 64)"

definition clamp :: "'a::linorder \<Rightarrow> 'a \<Rightarrow> 'a \<Rightarrow> 'a" where
  "clamp lo hi x = (if x < lo then lo else if hi < x then hi else x)"

lemma clamp_bounds: "lo \<le> hi \<Longrightarrow> lo \<le> clamp lo hi x \<and> clamp lo hi x \<le> hi"
  by (auto simp: clamp_def)

lemma checked_add_u64_Some:
  "checked_add_u64 a b = Some c \<longleftrightarrow> c = a + b \<and> a + b \<le> U64_MAX"
  by (auto simp: checked_add_u64_def)

lemma as_u64_nonneg: "0 \<le> i \<Longrightarrow> i < 2 ^ 64 \<Longrightarrow> as_u64 i = nat i"
  by (simp add: as_u64_def)

lemma as_u64_inj:
  assumes "0 \<le> i" "i < 2 ^ 64" "0 \<le> j" "j < 2 ^ 64" "as_u64 i = as_u64 j"
  shows "i = j"
  using assms by (simp add: as_u64_nonneg)

section \<open>Strings\<close>

fun strip_prefix :: "string \<Rightarrow> string \<Rightarrow> string option" where
  "strip_prefix [] s = Some s"
| "strip_prefix (p # ps) [] = None"
| "strip_prefix (p # ps) (c # cs) = (if p = c then strip_prefix ps cs else None)"

lemma strip_prefix_Some_iff: "strip_prefix p s = Some r \<longleftrightarrow> s = p @ r"
  by (induction p s rule: strip_prefix.induct) auto

lemma strip_prefix_append [simp]: "strip_prefix p (p @ r) = Some r"
  by (simp add: strip_prefix_Some_iff)

text \<open>\<open>str::split\<close> on one character: always at least one piece.\<close>

fun split_on :: "char \<Rightarrow> string \<Rightarrow> string list" where
  "split_on c [] = [[]]"
| "split_on c (x # xs) =
     (if x = c then [] # split_on c xs
      else (case split_on c xs of [] \<Rightarrow> [[x]] | p # ps \<Rightarrow> (x # p) # ps))"

fun join_with :: "string \<Rightarrow> string list \<Rightarrow> string" where
  "join_with sep [] = []"
| "join_with sep [p] = p"
| "join_with sep (p # q # ps) = p @ sep @ join_with sep (q # ps)"

lemma split_on_not_Nil [simp]: "split_on c s \<noteq> []"
  by (induction s) (auto split: list.splits)

lemma join_with_Cons:
  "ps \<noteq> [] \<Longrightarrow> join_with sep (p # ps) = p @ sep @ join_with sep ps"
  by (cases ps) auto

lemma join_split: "join_with [c] (split_on c s) = s"
proof (induction s)
  case (Cons x xs)
  then show ?case
    by (cases "split_on c xs"; cases "tl (split_on c xs)")
      (auto simp: join_with_Cons split: list.splits)
qed simp

lemma split_on_pieces: "p \<in> set (split_on c s) \<Longrightarrow> c \<notin> set p"
  by (induction s arbitrary: p) (auto split: list.splits if_splits)

text \<open>\<open>str::replace\<close> of a character pattern.\<close>

definition replace_char :: "char \<Rightarrow> string \<Rightarrow> string \<Rightarrow> string" where
  "replace_char c r s = concat (map (\<lambda>x. if x = c then r else [x]) s)"

lemma replace_char_simps [simp]:
  "replace_char c r [] = []"
  "replace_char c r (x # xs) = (if x = c then r else [x]) @ replace_char c r xs"
  by (auto simp: replace_char_def)

lemma replace_char_append [simp]:
  "replace_char c r (s @ t) = replace_char c r s @ replace_char c r t"
  by (simp add: replace_char_def)

text \<open>Does the string contain the pattern (\<open>str::contains\<close>)?\<close>

fun str_contains :: "string \<Rightarrow> string \<Rightarrow> bool" where
  "str_contains p [] = (p = [])"
| "str_contains p (c # cs) = (strip_prefix p (c # cs) \<noteq> None \<or> str_contains p cs)"

lemma str_contains_iff: "str_contains p s \<longleftrightarrow> (\<exists>a b. s = a @ p @ b)"
proof (induction s)
  case (Cons c cs)
  have "(\<exists>a b. c # cs = a @ p @ b) \<longleftrightarrow>
        (\<exists>b. c # cs = p @ b) \<or> (\<exists>a b. cs = a @ p @ b)" (is "?l \<longleftrightarrow> ?r")
  proof
    assume ?l
    then obtain a b where ab: "c # cs = a @ p @ b" by blast
    then show ?r by (cases a) auto
  next
    assume ?r
    then show ?l by (metis append_Cons append_Nil)
  qed
  moreover have "(\<exists>b. c # cs = p @ b) \<longleftrightarrow> strip_prefix p (c # cs) \<noteq> None"
    by (auto simp: strip_prefix_Some_iff)
  ultimately show ?case using Cons by simp
qed simp

subsection \<open>Trimming\<close>

text \<open>
  \<open>trim_start_with ps s\<close> removes leading occurrences of the patterns \<open>ps\<close> as long as there is
  one. \<open>str::trim\<close> removes Unicode white space, given here by the UTF-8 encodings of the
  characters with the White\_Space property.
\<close>

fun strip_any :: "string list \<Rightarrow> string \<Rightarrow> string option" where
  "strip_any [] s = None"
| "strip_any (p # ps) s =
     (case strip_prefix p s of Some r \<Rightarrow> Some r | None \<Rightarrow> strip_any ps s)"

function trim_start_with :: "string list \<Rightarrow> string \<Rightarrow> string" where
  "trim_start_with ps s =
     (case strip_any ps s of
        None \<Rightarrow> s
      | Some r \<Rightarrow> if length r < length s then trim_start_with ps r else s)"
  by pat_completeness auto
termination
  by (relation "measure (\<lambda>(ps, s). length s)") auto

declare trim_start_with.simps [simp del]

definition trim_end_with :: "string list \<Rightarrow> string \<Rightarrow> string" where
  "trim_end_with ps s = rev (trim_start_with (map rev ps) (rev s))"

definition white_space :: "string list" where
  "white_space =
     map (\<lambda>c. [c]) [CHR 0x09, CHR 0x0A, CHR 0x0B, CHR 0x0C, CHR 0x0D, CHR 0x20]
     @ [[CHR 0xC2, CHR 0x85], [CHR 0xC2, CHR 0xA0], [CHR 0xE1, CHR 0x9A, CHR 0x80]]
     @ map (\<lambda>c. [CHR 0xE2, CHR 0x80, c])
         [CHR 0x80, CHR 0x81, CHR 0x82, CHR 0x83, CHR 0x84, CHR 0x85, CHR 0x86, CHR 0x87,
          CHR 0x88, CHR 0x89, CHR 0x8A, CHR 0xA8, CHR 0xA9, CHR 0xAF]
     @ [[CHR 0xE2, CHR 0x81, CHR 0x9F], [CHR 0xE3, CHR 0x80, CHR 0x80]]"

definition str_trim :: "string \<Rightarrow> string" where
  "str_trim s = trim_end_with white_space (trim_start_with white_space s)"

lemma strip_any_Some: "strip_any ps s = Some r \<Longrightarrow> \<exists>p\<in>set ps. s = p @ r"
  by (induction ps) (auto simp: strip_prefix_Some_iff split: option.splits)

lemma trim_start_with_suffix: "\<exists>a. s = a @ trim_start_with ps s"
proof (induction ps s rule: trim_start_with.induct)
  case (1 ps s)
  show ?case
  proof (cases "strip_any ps s")
    case None
    then show ?thesis by (simp add: trim_start_with.simps [of ps s])
  next
    case (Some r)
    then obtain p where p: "s = p @ r" by (auto dest: strip_any_Some)
    show ?thesis
    proof (cases "length r < length s")
      case True
      with 1 Some obtain a where "r = a @ trim_start_with ps r" by blast
      moreover from True Some have "trim_start_with ps s = trim_start_with ps r"
        by (simp add: trim_start_with.simps [of ps s])
      ultimately have "s = (p @ a) @ trim_start_with ps s" using p by simp
      then show ?thesis by blast
    next
      case False
      with Some show ?thesis by (simp add: trim_start_with.simps [of ps s])
    qed
  qed
qed

lemma trim_start_with_fixed:
  assumes "\<And>p. p \<in> set ps \<Longrightarrow> p \<noteq> []"
  shows "strip_any ps (trim_start_with ps s) = None"
  using assms
proof (induction ps s rule: trim_start_with.induct)
  case (1 ps s)
  show ?case
  proof (cases "strip_any ps s")
    case (Some r)
    then obtain p where "p \<in> set ps" "s = p @ r" by (auto dest: strip_any_Some)
    with "1.prems" have "length r < length s" by (cases p) auto
    with 1 Some show ?thesis by (simp add: trim_start_with.simps [of ps s])
  qed (simp add: trim_start_with.simps [of ps s])
qed

lemma trim_end_with_prefix: "\<exists>a. s = trim_end_with ps s @ a"
proof -
  obtain a where "rev s = a @ trim_start_with (map rev ps) (rev s)"
    using trim_start_with_suffix by blast
  then have "s = rev (trim_start_with (map rev ps) (rev s)) @ rev a"
    by (metis rev_append rev_rev_ident)
  then show ?thesis by (auto simp: trim_end_with_def)
qed

lemma trim_start_with_id: "strip_any ps s = None \<Longrightarrow> trim_start_with ps s = s"
  by (simp add: trim_start_with.simps [of ps s])

lemma set_trim_subset: "set (str_trim s) \<subseteq> set s"
proof -
  obtain a where a: "s = a @ trim_start_with white_space s"
    using trim_start_with_suffix by blast
  obtain b where b: "trim_start_with white_space s = str_trim s @ b"
    unfolding str_trim_def using trim_end_with_prefix by blast
  have "set (str_trim s) \<subseteq> set (a @ str_trim s @ b)" by auto
  also have "a @ str_trim s @ b = s" using a b by simp
  finally show ?thesis .
qed

section \<open>Numbers as text\<close>

definition is_digit :: "char \<Rightarrow> bool" where
  "is_digit c \<longleftrightarrow> 48 \<le> (of_char c :: nat) \<and> (of_char c :: nat) \<le> 57"

definition digit_val :: "char \<Rightarrow> nat" where
  "digit_val c = of_char c - 48"

fun digits_val :: "string \<Rightarrow> nat \<Rightarrow> nat option" where
  "digits_val [] acc = Some acc"
| "digits_val (c # cs) acc =
     (if is_digit c then digits_val cs (10 * acc + digit_val c) else None)"

text \<open>\<open>str::parse\<close> of an unsigned type of maximum \<open>m\<close>: one optional \<open>+\<close>, then digits only.\<close>

definition parse_unsigned :: "nat \<Rightarrow> string \<Rightarrow> nat option" where
  "parse_unsigned m s =
     (let ds = (case s of [] \<Rightarrow> [] | c # cs \<Rightarrow> if c = CHR ''+'' \<and> cs \<noteq> [] then cs else s)
      in if ds = [] then None
         else (case digits_val ds 0 of
                 None \<Rightarrow> None
               | Some n \<Rightarrow> if n \<le> m then Some n else None))"

definition parse_u64 :: "string \<Rightarrow> nat option" where
  "parse_u64 = parse_unsigned U64_MAX"

definition parse_u32 :: "string \<Rightarrow> nat option" where
  "parse_u32 = parse_unsigned (2 ^ 32 - 1)"

definition parse_i64 :: "string \<Rightarrow> int option" where
  "parse_i64 s =
     (case s of
        [] \<Rightarrow> None
      | c # cs \<Rightarrow>
          if c = CHR ''-'' then
            (if cs = [] then None
             else (case digits_val cs 0 of
                     None \<Rightarrow> None
                   | Some n \<Rightarrow> if n \<le> 2 ^ 63 then Some (- int n) else None))
          else map_option int (parse_unsigned (2 ^ 63 - 1) s))"

definition digit_char :: "nat \<Rightarrow> char" where
  "digit_char d = char_of (48 + d)"

text \<open>\<open>to_string\<close> of an unsigned integer.\<close>

fun nat_str :: "nat \<Rightarrow> string" where
  "nat_str n = (if n < 10 then [digit_char n] else nat_str (n div 10) @ [digit_char (n mod 10)])"

declare nat_str.simps [simp del]

definition int_str :: "int \<Rightarrow> string" where
  "int_str i = (if i < 0 then CHR ''-'' # nat_str (nat (- i)) else nat_str (nat i))"

lemma digit_char_digit: "d < 10 \<Longrightarrow> is_digit (digit_char d) \<and> digit_val (digit_char d) = d"
  by (simp add: is_digit_def digit_val_def digit_char_def)

lemma digits_val_append:
  "digits_val (s @ t) acc = Option.bind (digits_val s acc) (digits_val t)"
  by (induction s arbitrary: acc) auto

lemma digits_val_nat_str: "digits_val (nat_str n) 0 = Some n"
proof (induction n rule: nat_str.induct)
  case (1 n)
  show ?case
    by (cases "n < 10") (use 1 in \<open>auto simp: nat_str.simps [of n] digits_val_append digit_char_digit\<close>)
qed

lemma nat_str_nonempty [simp]: "nat_str n \<noteq> []"
  by (subst nat_str.simps) simp

lemma nat_str_head_digit: "is_digit (hd (nat_str n))"
proof (induction n rule: nat_str.induct)
  case (1 n)
  show ?case
    by (cases "n < 10") (use 1 in \<open>auto simp: nat_str.simps [of n] digit_char_digit hd_append\<close>)
qed

lemma parse_nat_str: "n \<le> m \<Longrightarrow> parse_unsigned m (nat_str n) = Some n"
proof -
  assume n: "n \<le> m"
  have "hd (nat_str n) \<noteq> CHR ''+''"
    using nat_str_head_digit [of n] by (auto simp: is_digit_def)
  then have "(case nat_str n of [] \<Rightarrow> [] | c # cs \<Rightarrow> if c = CHR ''+'' \<and> cs \<noteq> [] then cs else nat_str n)
             = nat_str n"
    by (cases "nat_str n") auto
  with n show ?thesis by (simp add: parse_unsigned_def digits_val_nat_str Let_def)
qed

lemma nat_str_inj: "nat_str a = nat_str b \<Longrightarrow> a = b"
  by (metis digits_val_nat_str option.inject)

section \<open>Lists as tables\<close>

text \<open>
  A table is the list of its rows; \<open>SELECT\<close> with a filter is \<open>filter\<close>, and \<open>.one()\<close> the first
  row of it. A unique index on \<open>key\<close> is \<open>distinct (map key rows)\<close>.
\<close>

lemma find_SomeD: "find P xs = Some x \<Longrightarrow> x \<in> set xs \<and> P x"
  by (auto simp: find_Some_iff)

lemma find_None: "find P xs = None \<longleftrightarrow> (\<forall>x\<in>set xs. \<not> P x)"
  by (auto simp: find_None_iff)

lemma find_append: "find P (xs @ ys) = (case find P xs of None \<Rightarrow> find P ys | Some x \<Rightarrow> Some x)"
  by (induction xs) auto

lemma find_unique:
  "distinct (map key xs) \<Longrightarrow> x \<in> set xs \<Longrightarrow> find (\<lambda>r. key r = key x) xs = Some x"
  by (induction xs) auto

lemma find_unique_iff:
  assumes "distinct (map key xs)"
  shows "find (\<lambda>r. key r = k) xs = Some x \<longleftrightarrow> x \<in> set xs \<and> key x = k"
  using assms by (induction xs) auto

lemma distinct_map_unique: "distinct (map key xs) \<Longrightarrow> x \<in> set xs \<Longrightarrow> y \<in> set xs \<Longrightarrow>
    key x = key y \<Longrightarrow> x = y"
  by (metis find_unique option.inject)

text \<open>\<open>UPDATE \<dots> WHERE P\<close>: every row satisfying \<open>P\<close> is rewritten in place.\<close>

definition map_where :: "('r \<Rightarrow> bool) \<Rightarrow> ('r \<Rightarrow> 'r) \<Rightarrow> 'r list \<Rightarrow> 'r list" where
  "map_where P f rows = map (\<lambda>r. if P r then f r else r) rows"

lemma map_map_where: "(\<And>r. g (f r) = g r) \<Longrightarrow> map g (map_where P f rows) = map g rows"
  by (simp add: map_where_def)

lemma image_map_where:
  "(\<And>r. g (f r) = g r) \<Longrightarrow> g ` set (map_where P f rows) = g ` set rows"
  by (metis list.set_map map_map_where)

lemma set_map_where:
  "x \<in> set (map_where P f rows) \<longleftrightarrow> (x \<in> set rows \<and> \<not> P x) \<or> (\<exists>r\<in>set rows. P r \<and> x = f r)"
  by (auto simp: map_where_def)

lemma length_map_where [simp]: "length (map_where P f rows) = length rows"
  by (simp add: map_where_def)

lemma map_where_none: "(\<And>r. r \<in> set rows \<Longrightarrow> P r \<Longrightarrow> f r = r) \<Longrightarrow> map_where P f rows = rows"
  by (induction rows) (auto simp: map_where_def)

lemma find_map_where:
  "(\<And>r. Q (f r) = Q r) \<Longrightarrow>
     find Q (map_where P f rows) = map_option (\<lambda>r. if P r then f r else r) (find Q rows)"
  by (induction rows) (auto simp: map_where_def)

text \<open>Ordering: \<open>sort_key\<close> is stable, so the secondary key of \<open>ORDER BY\<close> is sorted first.\<close>

lemma sorted_key_unique:
  assumes "sorted (map f xs)" "sorted (map f ys)" "distinct (map f xs)" "mset xs = mset ys"
  shows "xs = ys"
proof -
  have "mset (map f xs) = mset (map f ys)" using assms(4) by (metis mset_map)
  then have fxy: "map f xs = map f ys"
    by (metis assms(1,2) properties_for_sort sorted_sort_id)
  have "inj_on f (set xs \<union> set ys)"
    using assms(3,4) by (metis Un_absorb distinct_map mset_eq_setD)
  then show ?thesis using fxy by (auto dest: map_inj_on)
qed

lemma length_filter_mono:
  "(\<And>x. x \<in> set xs \<Longrightarrow> P x \<Longrightarrow> Q x) \<Longrightarrow> length (filter P xs) \<le> length (filter Q xs)"
  by (induction xs) auto

end
