(* ===== verification/Errors.thy ===== *)
theory Errors
  imports Prelude
begin

text \<open>
  \<open>src/error.rs\<close>: the error type of every handler and the conversions \<open>?\<close> inserts. A status
  code is its number; the message is the text the code formats.
\<close>

record api_err =
  err_status :: nat
  err_code :: string
  err_message :: string

abbreviation BAD_REQUEST :: nat where "BAD_REQUEST \<equiv> 400"
abbreviation UNAUTHORIZED :: nat where "UNAUTHORIZED \<equiv> 401"
abbreviation FORBIDDEN :: nat where "FORBIDDEN \<equiv> 403"
abbreviation NOT_FOUND :: nat where "NOT_FOUND \<equiv> 404"
abbreviation CONFLICT :: nat where "CONFLICT \<equiv> 409"
abbreviation PAYLOAD_TOO_LARGE :: nat where "PAYLOAD_TOO_LARGE \<equiv> 413"
abbreviation TOO_MANY_REQUESTS :: nat where "TOO_MANY_REQUESTS \<equiv> 429"
abbreviation INTERNAL_SERVER_ERROR :: nat where "INTERNAL_SERVER_ERROR \<equiv> 500"

definition err_not_found :: "string \<Rightarrow> api_err" where
  "err_not_found what =
     \<lparr>err_status = NOT_FOUND, err_code = ''not_found'', err_message = what @ '' not found''\<rparr>"

definition err_bad_request :: "string \<Rightarrow> string \<Rightarrow> api_err" where
  "err_bad_request code message =
     \<lparr>err_status = BAD_REQUEST, err_code = code, err_message = message\<rparr>"

definition err_unauthorized :: api_err where
  "err_unauthorized =
     \<lparr>err_status = UNAUTHORIZED, err_code = ''unauthorized'',
      err_message = ''missing or invalid bearer token''\<rparr>"

definition err_forbidden :: "string \<Rightarrow> string \<Rightarrow> api_err" where
  "err_forbidden code message =
     \<lparr>err_status = FORBIDDEN, err_code = code, err_message = message\<rparr>"

definition err_conflict :: "string \<Rightarrow> string \<Rightarrow> api_err" where
  "err_conflict code message =
     \<lparr>err_status = CONFLICT, err_code = code, err_message = message\<rparr>"

lemmas err_defs = err_not_found_def err_bad_request_def err_unauthorized_def
  err_forbidden_def err_conflict_def

text \<open>
  A \<open>sea_orm::DbErr\<close>, classified the way the handlers do with \<open>sql_err()\<close>: a violated unique
  index, a violated foreign key, or anything else (a lost connection, an aborted transaction).
\<close>

datatype db_err = UniqueViolation | ForeignKeyViolation | OtherDbErr string

text \<open>\<open>From<DbErr>\<close> and \<open>From<anyhow::Error>\<close>: nothing of the cause reaches the client.\<close>

definition from_db_err :: "db_err \<Rightarrow> api_err" where
  "from_db_err err =
     \<lparr>err_status = INTERNAL_SERVER_ERROR, err_code = ''internal'',
      err_message = ''internal database error''\<rparr>"

definition from_anyhow :: "string \<Rightarrow> api_err" where
  "from_anyhow err =
     \<lparr>err_status = INTERNAL_SERVER_ERROR, err_code = ''internal'',
      err_message = ''internal error''\<rparr>"

text \<open>\<open>IntoResponse\<close>: the status and the JSON body's two fields.\<close>

definition into_response :: "api_err \<Rightarrow> nat \<times> (string \<times> string) list" where
  "into_response e =
     (err_status e, [(''code'', err_code e), (''message'', err_message e)])"

lemma err_status_simps [simp]:
  "err_status (err_not_found w) = NOT_FOUND" "err_code (err_not_found w) = ''not_found''"
  "err_status (err_bad_request c m) = BAD_REQUEST" "err_code (err_bad_request c m) = c"
  "err_status err_unauthorized = UNAUTHORIZED" "err_code err_unauthorized = ''unauthorized''"
  "err_status (err_forbidden c m) = FORBIDDEN" "err_code (err_forbidden c m) = c"
  "err_status (err_conflict c m) = CONFLICT" "err_code (err_conflict c m) = c"
  "err_status (from_db_err d) = INTERNAL_SERVER_ERROR" "err_code (from_db_err d) = ''internal''"
  "err_status (from_anyhow a) = INTERNAL_SERVER_ERROR" "err_code (from_anyhow a) = ''internal''"
  by (simp_all add: err_defs from_db_err_def from_anyhow_def)

end
