(* ===== verification/Rbac.thy ===== *)
theory Rbac
  imports Errors
begin

text \<open>
  \<open>src/rbac.rs\<close>: roles of org-scoped tokens and the two authorizers every mutating handler and
  the audit reads go through.
\<close>

type_synonym uuid = "128 word"

datatype role = Owner | Publisher | Reader

definition role_parse :: "string \<Rightarrow> role" where
  "role_parse s =
     (if s = ''owner'' then Owner
      else if s = ''publisher'' then Publisher
      else if s = ''reader'' then Reader
      else Reader)"

fun role_as_str :: "role \<Rightarrow> string" where
  "role_as_str Owner = ''owner''"
| "role_as_str Publisher = ''publisher''"
| "role_as_str Reader = ''reader''"

definition role_is_valid :: "string \<Rightarrow> bool" where
  "role_is_valid s \<longleftrightarrow> s = ''owner'' \<or> s = ''publisher'' \<or> s = ''reader''"

fun can_publish :: "role \<Rightarrow> bool" where
  "can_publish Owner = True"
| "can_publish Publisher = True"
| "can_publish Reader = False"

fun can_manage :: "role \<Rightarrow> bool" where
  "can_manage Owner = True"
| "can_manage Publisher = False"
| "can_manage Reader = False"

definition authorize_publish :: "uuid option \<Rightarrow> role \<Rightarrow> uuid \<Rightarrow> api_err + unit" where
  "authorize_publish token_org role target_org =
     (case token_org of
        None \<Rightarrow> Inr ()
      | Some scope \<Rightarrow>
          if scope \<noteq> target_org then Inl err_unauthorized
          else if can_publish role then Inr ()
          else Inl (err_forbidden ''insufficient_role''
                 (''this token's role (`'' @ role_as_str role
                  @ ''`) cannot publish; a `publisher` or `owner` token is required'')))"

definition authorize_manage :: "uuid option \<Rightarrow> role \<Rightarrow> uuid \<Rightarrow> api_err + unit" where
  "authorize_manage token_org role target_org =
     (case token_org of
        None \<Rightarrow> Inr ()
      | Some scope \<Rightarrow>
          if scope \<noteq> target_org then Inl err_unauthorized
          else if can_manage role then Inr ()
          else Inl (err_forbidden ''insufficient_role''
                 (''this token's role (`'' @ role_as_str role
                  @ ''`) cannot manage the org; an `owner` token is required'')))"

section \<open>Roles ordered by what they may do\<close>

instantiation role :: linorder
begin

fun role_rank :: "role \<Rightarrow> nat" where
  "role_rank Reader = 0"
| "role_rank Publisher = 1"
| "role_rank Owner = 2"

definition less_eq_role :: "role \<Rightarrow> role \<Rightarrow> bool" where
  "r \<le> s \<longleftrightarrow> role_rank r \<le> role_rank s"

definition less_role :: "role \<Rightarrow> role \<Rightarrow> bool" where
  "r < s \<longleftrightarrow> role_rank r < role_rank s"

instance
proof
  fix r s t :: role
  show "(r < s) = (r \<le> s \<and> \<not> s \<le> r)" by (auto simp: less_eq_role_def less_role_def)
  show "r \<le> r" by (simp add: less_eq_role_def)
  show "r \<le> s \<Longrightarrow> s \<le> t \<Longrightarrow> r \<le> t" by (simp add: less_eq_role_def)
  show "r \<le> s \<Longrightarrow> s \<le> r \<Longrightarrow> r = s"
    by (cases r; cases s) (auto simp: less_eq_role_def)
  show "r \<le> s \<or> s \<le> r" by (auto simp: less_eq_role_def)
qed

end

lemma can_publish_iff: "can_publish r \<longleftrightarrow> Publisher \<le> r"
  by (cases r) (auto simp: less_eq_role_def)

lemma can_manage_iff: "can_manage r \<longleftrightarrow> Owner \<le> r"
  by (cases r) (auto simp: less_eq_role_def)

lemma role_roundtrip [simp]: "role_parse (role_as_str r) = r"
  by (cases r) (auto simp: role_parse_def)

lemma role_is_valid_iff: "role_is_valid s \<longleftrightarrow> (\<exists>r. s = role_as_str r)"
  by (auto simp: role_is_valid_def intro: exI [of _ Owner] exI [of _ Publisher] exI [of _ Reader])
    (metis role_as_str.simps role.exhaust)

lemma authorize_publish_ok:
  "authorize_publish scope r target = Inr u \<longleftrightarrow>
     scope = None \<or> (scope = Some target \<and> can_publish r)"
  by (auto simp: authorize_publish_def split: option.splits)

lemma authorize_manage_ok:
  "authorize_manage scope r target = Inr u \<longleftrightarrow>
     scope = None \<or> (scope = Some target \<and> can_manage r)"
  by (auto simp: authorize_manage_def split: option.splits)

lemma authorize_publish_cross_org:
  "scope \<noteq> target \<Longrightarrow> authorize_publish (Some scope) r target = Inl err_unauthorized"
  by (simp add: authorize_publish_def)

lemma authorize_codes:
  "authorize_publish scope r target = Inl e \<Longrightarrow>
     err_code e \<in> {''unauthorized'', ''insufficient_role''} \<and> err_status e \<in> {UNAUTHORIZED, FORBIDDEN}"
  by (auto simp: authorize_publish_def split: option.splits if_splits)

end
