(* ===== verification/Schema.thy ===== *)
theory Schema
  imports Rbac
begin

text \<open>
  The database of \<open>src/entities/\<close> and \<open>migration/src/\<close>: one record per table, the unique
  indexes and foreign keys the migrations declare, and the statements the handlers run. A
  table is the list of its rows in insertion order. \<open>INSERT\<close> fails as the indexes and foreign
  keys make it fail; \<open>UPDATE\<close> rewrites the matching rows in place.

  Timestamps are nanoseconds since the Unix epoch.
\<close>

type_synonym timestamp = int

text \<open>The shapes of \<open>serde_json::Value\<close> that \<open>tags_of\<close> tells apart.\<close>

datatype json = JString string | JArray "json list" | JOther

section \<open>Rows\<close>

record org_row =
  o_id :: uuid
  o_slug :: string
  o_created_at :: timestamp
  o_created_by :: "uuid option"

record token_row =
  t_id :: uuid
  t_name :: string
  t_hash :: string
  t_org :: "uuid option"
  t_role :: string
  t_created_at :: timestamp
  t_expires_at :: "timestamp option"
  t_revoked_at :: "timestamp option"

record package_row =
  p_id :: uuid
  p_org :: uuid
  p_name :: string
  p_description :: "string option"
  p_vcs :: string
  p_repo_url :: string
  p_scheme :: string
  p_tags :: json
  p_created_at :: timestamp

record version_row =
  v_id :: uuid
  v_package :: uuid
  v_version :: string
  v_sha256 :: string
  v_size :: int
  v_format :: string
  v_vcs_tag :: string
  v_vcs_commit :: "string option"
  v_artifact_key :: string
  v_yanked :: bool
  v_published_at :: timestamp

record audit_row =
  a_id :: uuid
  a_org :: uuid
  a_at :: timestamp
  a_action :: string
  a_subject :: string
  a_token_id :: "uuid option"
  a_token_name :: string
  a_role :: string
  a_detail :: "string option"
  a_seq :: int
  a_hash :: string
  a_prev :: "string option"

record embedding_row =
  e_id :: uuid
  e_package :: uuid
  e_model :: string
  e_native_dim :: int
  e_vector :: string
  e_content :: string
  e_content_sha :: string
  e_created_at :: timestamp

record database =
  orgs :: "org_row list"
  tokens :: "token_row list"
  packages :: "package_row list"
  versions :: "version_row list"
  audits :: "audit_row list"
  embeddings :: "embedding_row list"

definition empty_db :: database where
  "empty_db = \<lparr>orgs = [], tokens = [], packages = [], versions = [], audits = [], embeddings = []\<rparr>"

section \<open>Insertion into a uniquely indexed table\<close>

text \<open>
  What every \<open>INSERT\<close> of the registry is: the primary key \<open>ident\<close> and the unique index \<open>key\<close>
  must be fresh, the foreign keys must resolve, and the row goes to the end of the table.
\<close>

definition insert_unique ::
    "('r \<Rightarrow> uuid) \<Rightarrow> ('r \<Rightarrow> 'k) \<Rightarrow> bool \<Rightarrow> 'r \<Rightarrow> 'r list \<Rightarrow> db_err + 'r list" where
  "insert_unique ident key fk r rows =
     (if ident r \<in> set (map ident rows) \<or> key r \<in> set (map key rows) then Inl UniqueViolation
      else if \<not> fk then Inl ForeignKeyViolation
      else Inr (rows @ [r]))"

lemma insert_unique_Inr:
  "insert_unique ident key fk r rows = Inr rows' \<longleftrightarrow>
     rows' = rows @ [r] \<and> fk \<and> ident r \<notin> ident ` set rows \<and> key r \<notin> key ` set rows"
  by (auto simp: insert_unique_def)

abbreviation has_org :: "database \<Rightarrow> uuid \<Rightarrow> bool" where
  "has_org d i \<equiv> i \<in> o_id ` set (orgs d)"

abbreviation has_token :: "database \<Rightarrow> uuid \<Rightarrow> bool" where
  "has_token d i \<equiv> i \<in> t_id ` set (tokens d)"

abbreviation has_package :: "database \<Rightarrow> uuid \<Rightarrow> bool" where
  "has_package d i \<equiv> i \<in> p_id ` set (packages d)"

definition opt_holds :: "('a \<Rightarrow> bool) \<Rightarrow> 'a option \<Rightarrow> bool" where
  "opt_holds P x = (case x of None \<Rightarrow> True | Some y \<Rightarrow> P y)"

lemma opt_holds_simps [simp]: "opt_holds P None" "opt_holds P (Some y) = P y"
  by (simp_all add: opt_holds_def)

lemma opt_holds_mono: "opt_holds P x \<Longrightarrow> (\<And>y. P y \<Longrightarrow> Q y) \<Longrightarrow> opt_holds Q x"
  by (cases x) auto

abbreviation org_key :: "org_row \<Rightarrow> string" where "org_key \<equiv> o_slug"
abbreviation token_key :: "token_row \<Rightarrow> string" where "token_key \<equiv> t_hash"

definition package_key :: "package_row \<Rightarrow> uuid \<times> string" where
  "package_key p = (p_org p, p_name p)"

definition version_key :: "version_row \<Rightarrow> uuid \<times> string" where
  "version_key v = (v_package v, v_version v)"

definition audit_key :: "audit_row \<Rightarrow> uuid \<times> int" where
  "audit_key a = (a_org a, a_seq a)"

definition embedding_key :: "embedding_row \<Rightarrow> uuid \<times> string" where
  "embedding_key e = (e_package e, e_model e)"

definition insert_org :: "org_row \<Rightarrow> database \<Rightarrow> db_err + database" where
  "insert_org r d =
     map_sum id (\<lambda>rs. d\<lparr>orgs := rs\<rparr>)
       (insert_unique o_id org_key (opt_holds (has_token d) (o_created_by r)) r (orgs d))"

definition insert_token :: "token_row \<Rightarrow> database \<Rightarrow> db_err + database" where
  "insert_token r d =
     map_sum id (\<lambda>rs. d\<lparr>tokens := rs\<rparr>)
       (insert_unique t_id token_key (opt_holds (has_org d) (t_org r)) r (tokens d))"

definition insert_package :: "package_row \<Rightarrow> database \<Rightarrow> db_err + database" where
  "insert_package r d =
     map_sum id (\<lambda>rs. d\<lparr>packages := rs\<rparr>)
       (insert_unique p_id package_key (has_org d (p_org r)) r (packages d))"

definition insert_version :: "version_row \<Rightarrow> database \<Rightarrow> db_err + database" where
  "insert_version r d =
     map_sum id (\<lambda>rs. d\<lparr>versions := rs\<rparr>)
       (insert_unique v_id version_key (has_package d (v_package r)) r (versions d))"

definition insert_audit :: "audit_row \<Rightarrow> database \<Rightarrow> db_err + database" where
  "insert_audit r d =
     map_sum id (\<lambda>rs. d\<lparr>audits := rs\<rparr>)
       (insert_unique a_id audit_key (has_org d (a_org r)) r (audits d))"

lemma map_sum_Inr_iff: "map_sum f g x = Inr y \<longleftrightarrow> (\<exists>z. x = Inr z \<and> y = g z)"
  by (cases x) auto

lemma insert_org_Inr:
  "insert_org r d = Inr d' \<longleftrightarrow>
     d' = d\<lparr>orgs := orgs d @ [r]\<rparr> \<and> opt_holds (has_token d) (o_created_by r) \<and>
     o_id r \<notin> o_id ` set (orgs d) \<and> o_slug r \<notin> o_slug ` set (orgs d)"
  by (auto simp: insert_org_def map_sum_Inr_iff insert_unique_Inr)

lemma insert_token_Inr:
  "insert_token r d = Inr d' \<longleftrightarrow>
     d' = d\<lparr>tokens := tokens d @ [r]\<rparr> \<and> opt_holds (has_org d) (t_org r) \<and>
     t_id r \<notin> t_id ` set (tokens d) \<and> t_hash r \<notin> t_hash ` set (tokens d)"
  by (auto simp: insert_token_def map_sum_Inr_iff insert_unique_Inr)

lemma insert_package_Inr:
  "insert_package r d = Inr d' \<longleftrightarrow>
     d' = d\<lparr>packages := packages d @ [r]\<rparr> \<and> has_org d (p_org r) \<and>
     p_id r \<notin> p_id ` set (packages d) \<and> package_key r \<notin> package_key ` set (packages d)"
  by (auto simp: insert_package_def map_sum_Inr_iff insert_unique_Inr)

lemma insert_version_Inr:
  "insert_version r d = Inr d' \<longleftrightarrow>
     d' = d\<lparr>versions := versions d @ [r]\<rparr> \<and> has_package d (v_package r) \<and>
     v_id r \<notin> v_id ` set (versions d) \<and> version_key r \<notin> version_key ` set (versions d)"
  by (auto simp: insert_version_def map_sum_Inr_iff insert_unique_Inr)

lemma insert_audit_Inr:
  "insert_audit r d = Inr d' \<longleftrightarrow>
     d' = d\<lparr>audits := audits d @ [r]\<rparr> \<and> has_org d (a_org r) \<and>
     a_id r \<notin> a_id ` set (audits d) \<and> audit_key r \<notin> audit_key ` set (audits d)"
  by (auto simp: insert_audit_def map_sum_Inr_iff insert_unique_Inr)

section \<open>The contract of a uniquely indexed table\<close>

text \<open>
  The handlers rely on four laws of each table: a successful insert appends the row, and it is
  refused exactly when it would break an index or a foreign key. The lookups they perform
  follow from them.
\<close>

locale unique_table =
  fixes rows :: "'d \<Rightarrow> 'r list"
    and ident :: "'r \<Rightarrow> uuid"
    and key :: "'r \<Rightarrow> 'k"
    and ins :: "'r \<Rightarrow> 'd \<Rightarrow> db_err + 'd"
  assumes ins_rows: "ins r d = Inr d' \<Longrightarrow> rows d' = rows d @ [r]"
    and ins_fresh_id: "ins r d = Inr d' \<Longrightarrow> ident r \<notin> ident ` set (rows d)"
    and ins_fresh_key: "ins r d = Inr d' \<Longrightarrow> key r \<notin> key ` set (rows d)"
    and ins_dup: "key r \<in> key ` set (rows d) \<Longrightarrow> ins r d = Inl UniqueViolation"
begin

definition indexed :: "'d \<Rightarrow> bool" where
  "indexed d \<longleftrightarrow> distinct (map ident (rows d)) \<and> distinct (map key (rows d))"

lemma ins_indexed: "indexed d \<Longrightarrow> ins r d = Inr d' \<Longrightarrow> indexed d'"
  using ins_rows [of r d d'] ins_fresh_id [of r d d'] ins_fresh_key [of r d d']
  by (auto simp: indexed_def)

lemma lookup_inserted: "ins r d = Inr d' \<Longrightarrow> find (\<lambda>x. key x = key r) (rows d') = Some r"
proof -
  assume ins: "ins r d = Inr d'"
  have "find (\<lambda>x. key x = key r) (rows d) = None"
    using ins_fresh_key [OF ins] by (auto simp: find_None image_iff)
  with ins_rows [OF ins] show ?thesis by (simp add: find_append)
qed

lemma lookup_other:
  "ins r d = Inr d' \<Longrightarrow> k \<noteq> key r \<Longrightarrow>
     find (\<lambda>x. key x = k) (rows d') = find (\<lambda>x. key x = k) (rows d)"
  by (auto simp: ins_rows find_append split: option.splits)

lemma second_insert_refused: "ins r d = Inr d' \<Longrightarrow> key s = key r \<Longrightarrow> ins s d' = Inl UniqueViolation"
  by (rule ins_dup) (auto simp: ins_rows)

lemma rows_kept: "ins r d = Inr d' \<Longrightarrow> x \<in> set (rows d) \<Longrightarrow> x \<in> set (rows d')"
  by (simp add: ins_rows)

end

interpretation org_table: unique_table orgs o_id org_key insert_org
  by unfold_locales (auto simp: insert_org_Inr, auto simp: insert_org_def insert_unique_def)

interpretation token_table: unique_table tokens t_id token_key insert_token
  by unfold_locales (auto simp: insert_token_Inr, auto simp: insert_token_def insert_unique_def)

interpretation package_table: unique_table packages p_id package_key insert_package
  by unfold_locales (auto simp: insert_package_Inr, auto simp: insert_package_def insert_unique_def)

interpretation version_table: unique_table versions v_id version_key insert_version
  by unfold_locales (auto simp: insert_version_Inr, auto simp: insert_version_def insert_unique_def)

interpretation audit_table: unique_table audits a_id audit_key insert_audit
  by unfold_locales (auto simp: insert_audit_Inr, auto simp: insert_audit_def insert_unique_def)

section \<open>Integrity\<close>

text \<open>
  All unique indexes and foreign keys of the schema at once. Every statement the server runs
  keeps this, so it holds of every database the server has written.
\<close>

definition unique_ok :: "database \<Rightarrow> bool" where
  "unique_ok d \<longleftrightarrow>
     org_table.indexed d \<and> token_table.indexed d \<and> package_table.indexed d \<and>
     version_table.indexed d \<and> audit_table.indexed d"

definition fk_ok :: "database \<Rightarrow> bool" where
  "fk_ok d \<longleftrightarrow>
     (\<forall>r\<in>set (orgs d). opt_holds (has_token d) (o_created_by r)) \<and>
     (\<forall>r\<in>set (tokens d). opt_holds (has_org d) (t_org r)) \<and>
     (\<forall>r\<in>set (packages d). has_org d (p_org r)) \<and>
     (\<forall>r\<in>set (versions d). has_package d (v_package r)) \<and>
     (\<forall>r\<in>set (audits d). has_org d (a_org r))"

definition db_ok :: "database \<Rightarrow> bool" where
  "db_ok d \<longleftrightarrow> unique_ok d \<and> fk_ok d"

lemma db_okD:
  assumes "db_ok d"
  shows "distinct (map o_slug (orgs d))" "distinct (map t_hash (tokens d))"
    "distinct (map package_key (packages d))" "distinct (map version_key (versions d))"
    "distinct (map audit_key (audits d))" "distinct (map p_id (packages d))"
    "distinct (map o_id (orgs d))" "distinct (map t_id (tokens d))"
    "distinct (map v_id (versions d))" "distinct (map a_id (audits d))"
  using assms
  by (auto simp: db_ok_def unique_ok_def org_table.indexed_def token_table.indexed_def
      package_table.indexed_def version_table.indexed_def audit_table.indexed_def)

lemmas indexed_defs = org_table.indexed_def token_table.indexed_def package_table.indexed_def
  version_table.indexed_def audit_table.indexed_def

lemma opt_holds_Un [simp]: "opt_holds (\<lambda>y. y \<in> A) x \<Longrightarrow> opt_holds (\<lambda>y. y \<in> insert a A) x"
  by (cases x) auto

lemma insert_org_ok: "db_ok d \<Longrightarrow> insert_org r d = Inr d' \<Longrightarrow> db_ok d'"
  by (auto simp: db_ok_def unique_ok_def fk_ok_def insert_org_Inr indexed_defs
      intro: opt_holds_mono)

lemma insert_token_ok: "db_ok d \<Longrightarrow> insert_token r d = Inr d' \<Longrightarrow> db_ok d'"
  by (auto simp: db_ok_def unique_ok_def fk_ok_def insert_token_Inr indexed_defs
      intro: opt_holds_mono)

lemma insert_package_ok: "db_ok d \<Longrightarrow> insert_package r d = Inr d' \<Longrightarrow> db_ok d'"
  by (auto simp: db_ok_def unique_ok_def fk_ok_def insert_package_Inr indexed_defs)

lemma insert_version_ok: "db_ok d \<Longrightarrow> insert_version r d = Inr d' \<Longrightarrow> db_ok d'"
  by (auto simp: db_ok_def unique_ok_def fk_ok_def insert_version_Inr indexed_defs)

lemma insert_audit_ok: "db_ok d \<Longrightarrow> insert_audit r d = Inr d' \<Longrightarrow> db_ok d'"
  by (auto simp: db_ok_def unique_ok_def fk_ok_def insert_audit_Inr indexed_defs)

lemma empty_db_ok: "db_ok empty_db"
  by (simp add: db_ok_def unique_ok_def fk_ok_def indexed_defs empty_db_def)

section \<open>Updates\<close>

text \<open>
  \<open>UPDATE \<dots> WHERE id = \<dots>\<close>: rewrites the row with that primary key. None of the server's
  updates touches a primary key, an indexed column or a foreign key.
\<close>

definition update_version :: "uuid \<Rightarrow> (version_row \<Rightarrow> version_row) \<Rightarrow> database \<Rightarrow> database" where
  "update_version i f d = d\<lparr>versions := map_where (\<lambda>r. v_id r = i) f (versions d)\<rparr>"

definition update_token :: "uuid \<Rightarrow> (token_row \<Rightarrow> token_row) \<Rightarrow> database \<Rightarrow> database" where
  "update_token i f d = d\<lparr>tokens := map_where (\<lambda>r. t_id r = i) f (tokens d)\<rparr>"

definition update_packages ::
    "(package_row \<Rightarrow> bool) \<Rightarrow> (package_row \<Rightarrow> package_row) \<Rightarrow> database \<Rightarrow> database" where
  "update_packages P f d = d\<lparr>packages := map_where P f (packages d)\<rparr>"

lemma update_version_ok:
  assumes "db_ok d"
    and keep: "\<And>r. v_id (f r) = v_id r" "\<And>r. version_key (f r) = version_key r"
  shows "db_ok (update_version i f d)"
proof -
  have pkg: "v_package (f r) = v_package r" for r
    using keep(2) [of r] by (simp add: version_key_def)
  show ?thesis
    using assms(1)
    by (auto simp: db_ok_def unique_ok_def fk_ok_def indexed_defs update_version_def
        map_map_where keep pkg set_map_where)
qed

lemma update_token_ok:
  assumes "db_ok d"
    and keep: "\<And>r. t_id (f r) = t_id r" "\<And>r. t_hash (f r) = t_hash r" "\<And>r. t_org (f r) = t_org r"
  shows "db_ok (update_token i f d)"
proof -
  have ids: "t_id ` set (map_where P f rows) = t_id ` set rows" for P rows
    by (rule image_map_where) (rule keep)
  show ?thesis
    using assms(1)
    by (auto simp: db_ok_def unique_ok_def fk_ok_def indexed_defs update_token_def
        map_map_where keep ids set_map_where)
qed

lemma update_packages_ok:
  assumes "db_ok d"
    and keep: "\<And>r. p_id (f r) = p_id r" "\<And>r. package_key (f r) = package_key r"
  shows "db_ok (update_packages P f d)"
proof -
  have ids: "p_id ` set (map_where Q f rows) = p_id ` set rows" for Q rows
    by (rule image_map_where) (rule keep)
  have org: "p_org (f r) = p_org r" for r
    using keep(2) [of r] by (simp add: package_key_def)
  show ?thesis
    using assms(1)
    by (auto simp: db_ok_def unique_ok_def fk_ok_def indexed_defs update_packages_def
        map_map_where keep ids org set_map_where)
qed

end
