(* ===== verification/Storage.thy ===== *)
theory Storage
  imports Prelude "HOL-Library.AList"
begin

text \<open>
  \<open>src/storage.rs\<close>: the content-addressed artifact store with its three backends. The memory
  backend is the code's own map with its byte accounting. The file system and the S3 client
  are not part of the repository: what they hold is a map from paths (keys) to bytes, and the
  outcome of each call to them is a parameter, \<open>IoErr\<close> with a message and, for a write that
  failed half way, the bytes it left behind.
\<close>

type_synonym bytes = string

datatype artifact_store =
    Memory (objects: "(string \<times> bytes) list") (max_bytes: nat)
  | Local (dir: string) (files: "(string \<times> bytes) list")
  | S3 (bucket: string) (bucket_objects: "(string \<times> bytes) list")

datatype io_outcome = IoOk | IoErr string "bytes option"

datatype download = Redirect string | Bytes bytes | File bytes nat

definition MAX_BUFFERED_ARTIFACT_BYTES :: nat where
  "MAX_BUFFERED_ARTIFACT_BYTES = 100 * 1024 * 1024"

text \<open>\<open>Path::join\<close> of a relative key.\<close>

definition local_path :: "string \<Rightarrow> string \<Rightarrow> string" where
  "local_path d key =
     (if key \<noteq> [] \<and> hd key = CHR ''/'' then key
      else if d = [] \<or> last d = CHR ''/'' then d @ key
      else d @ ''/'' @ key)"

definition artifact_key :: "string \<Rightarrow> string \<Rightarrow> string" where
  "artifact_key sha256 extension = ''artifacts/'' @ sha256 @ ''.'' @ extension"

section \<open>Writing\<close>

text \<open>\<open>try_fold\<close> with \<open>checked_add\<close> over the retained objects.\<close>

fun try_sum :: "nat \<Rightarrow> nat list \<Rightarrow> nat option" where
  "try_sum acc [] = Some acc"
| "try_sum acc (n # ns) =
     (case checked_add_u64 acc n of None \<Rightarrow> None | Some t \<Rightarrow> try_sum t ns)"

definition overflow_msg :: string where
  "overflow_msg = ''in-memory artifact byte accounting overflowed''"

definition capacity_msg :: "nat \<Rightarrow> nat \<Rightarrow> string" where
  "capacity_msg next_bytes limit =
     ''in-memory artifact store capacity exceeded: write would use '' @ nat_str next_bytes
     @ '' bytes, limit is '' @ nat_str limit @ '' bytes''"

fun store_put ::
    "io_outcome \<Rightarrow> string \<Rightarrow> bytes \<Rightarrow> artifact_store \<Rightarrow> (string + unit) \<times> artifact_store" where
  "store_put io key bs (Memory objs limit) =
     (case try_sum 0 (map (\<lambda>(_, v). length v) (filter (\<lambda>(k, _). k \<noteq> key) objs)) of
        None \<Rightarrow> (Inl overflow_msg, Memory objs limit)
      | Some retained \<Rightarrow>
          (case checked_add_u64 retained (length bs) of
             None \<Rightarrow> (Inl overflow_msg, Memory objs limit)
           | Some nxt \<Rightarrow>
               if nxt > limit then (Inl (capacity_msg nxt limit), Memory objs limit)
               else (Inr (), Memory (AList.update key bs objs) limit)))"
| "store_put io key bs (Local d fs) =
     (case io of
        IoOk \<Rightarrow> (Inr (), Local d (AList.update (local_path d key) bs fs))
      | IoErr e None \<Rightarrow> (Inl e, Local d fs)
      | IoErr e (Some part) \<Rightarrow> (Inl e, Local d (AList.update (local_path d key) part fs)))"
| "store_put io key bs (S3 b objs) =
     (case io of
        IoOk \<Rightarrow> (Inr (), S3 b (AList.update key bs objs))
      | IoErr e _ \<Rightarrow> (Inl (''s3 put_object failed: '' @ e), S3 b objs))"

section \<open>Reading\<close>

text \<open>What is stored under a key, whatever the backend.\<close>

fun stored :: "artifact_store \<Rightarrow> string \<Rightarrow> bytes option" where
  "stored (Memory objs _) key = map_of objs key"
| "stored (Local d fs) key = map_of fs (local_path d key)"
| "stored (S3 _ objs) key = map_of objs key"

definition missing_msg :: "string \<Rightarrow> string" where
  "missing_msg key = ''in-memory artifact '' @ key @ '' not found''"

definition guard_msg :: "string \<Rightarrow> nat \<Rightarrow> string" where
  "guard_msg key len =
     ''artifact '' @ key @ '' is '' @ nat_str len @ '' bytes, over the ''
     @ nat_str MAX_BUFFERED_ARTIFACT_BYTES
     @ ''-byte in-memory ceiling; refusing to buffer it''"

definition guard_buffered :: "string \<Rightarrow> nat \<Rightarrow> string + unit" where
  "guard_buffered key len =
     (if len > MAX_BUFFERED_ARTIFACT_BYTES then Inl (guard_msg key len) else Inr ())"

text \<open>
  \<open>presign\<close> is the S3 client's URL signing, which does not look at the bucket's contents.
\<close>

fun store_download ::
    "(string \<Rightarrow> string \<Rightarrow> string + string) \<Rightarrow> io_outcome \<Rightarrow> string \<Rightarrow> artifact_store \<Rightarrow> string + download"
  where
  "store_download presign io key (Memory objs _) =
     (case map_of objs key of None \<Rightarrow> Inl (missing_msg key) | Some v \<Rightarrow> Inr (Bytes v))"
| "store_download presign io key (Local d fs) =
     (case io of
        IoErr e _ \<Rightarrow> Inl e
      | IoOk \<Rightarrow>
          (case map_of fs (local_path d key) of
             None \<Rightarrow> Inl ''No such file or directory''
           | Some v \<Rightarrow> Inr (File v (length v))))"
| "store_download presign io key (S3 b objs) =
     (case presign b key of Inl e \<Rightarrow> Inl (''s3 presign failed: '' @ e) | Inr url \<Rightarrow> Inr (Redirect url))"

text \<open>
  \<open>declared\<close> is the length S3 announces for the object, if it does: it is only trusted to
  refuse early, and the collected body is checked again.
\<close>

fun store_get_bytes ::
    "io_outcome \<Rightarrow> int option \<Rightarrow> string \<Rightarrow> artifact_store \<Rightarrow> string + bytes" where
  "store_get_bytes io declared key (Memory objs _) =
     (case map_of objs key of
        None \<Rightarrow> Inl (missing_msg key)
      | Some v \<Rightarrow>
          (case guard_buffered key (length v) of Inl e \<Rightarrow> Inl e | Inr _ \<Rightarrow> Inr v))"
| "store_get_bytes io declared key (Local d fs) =
     (case io of
        IoErr e _ \<Rightarrow> Inl e
      | IoOk \<Rightarrow>
          (case map_of fs (local_path d key) of
             None \<Rightarrow> Inl ''No such file or directory''
           | Some v \<Rightarrow>
               (case guard_buffered key (length v) of Inl e \<Rightarrow> Inl e | Inr _ \<Rightarrow> Inr v)))"
| "store_get_bytes io declared key (S3 b objs) =
     (case io of
        IoErr e _ \<Rightarrow> Inl (''s3 get_object failed: '' @ e)
      | IoOk \<Rightarrow>
          (case map_of objs key of
             None \<Rightarrow> Inl ''s3 get_object failed: NoSuchKey''
           | Some v \<Rightarrow>
               (case (case declared of
                        None \<Rightarrow> Inr ()
                      | Some len \<Rightarrow> guard_buffered key (nat (max len 0))) of
                  Inl e \<Rightarrow> Inl e
                | Inr _ \<Rightarrow>
                    (case guard_buffered key (length v) of Inl e \<Rightarrow> Inl e | Inr _ \<Rightarrow> Inr v))))"

section \<open>The contract of a blob store\<close>

text \<open>
  What publishing relies on: a successful put makes exactly these bytes readable under the
  key, other keys are untouched, and no put ever removes a key. A store is atomic when a
  failed put leaves the key as it was.
\<close>

locale blob_store =
  fixes put :: "string \<Rightarrow> bytes \<Rightarrow> 's \<Rightarrow> (string + unit) \<times> 's"
    and look :: "'s \<Rightarrow> string \<Rightarrow> bytes option"
    and valid :: "string \<Rightarrow> bool"
  assumes put_ok: "put k b s = (Inr (), s') \<Longrightarrow> look s' k = Some b"
    and put_other: "put k b s = (res, s') \<Longrightarrow> valid k \<Longrightarrow> valid k' \<Longrightarrow> k' \<noteq> k \<Longrightarrow> look s' k' = look s k'"
    and put_keeps: "put k b s = (res, s') \<Longrightarrow> look s k \<noteq> None \<Longrightarrow> look s' k \<noteq> None"
begin

fun puts :: "(string \<times> bytes) list \<Rightarrow> 's \<Rightarrow> 's" where
  "puts [] s = s"
| "puts ((k, b) # kbs) s = puts kbs (snd (put k b s))"

lemma put_available: "valid k \<Longrightarrow> valid k' \<Longrightarrow> look s k' \<noteq> None \<Longrightarrow> look (snd (put k b s)) k' \<noteq> None"
  using put_other [of k b s "fst (put k b s)" "snd (put k b s)" k']
    put_keeps [of k b s "fst (put k b s)" "snd (put k b s)"]
  by (cases "k' = k") auto

lemma puts_available:
  "\<forall>(k, b)\<in>set kbs. valid k \<Longrightarrow> valid k' \<Longrightarrow> look s k' \<noteq> None \<Longrightarrow> look (puts kbs s) k' \<noteq> None"
proof (induction kbs s rule: puts.induct)
  case (2 k b kbs s)
  then have "look (snd (put k b s)) k' \<noteq> None" by (intro put_available) auto
  with 2 show ?case by simp
qed simp

end

locale atomic_blob_store = blob_store put look valid
  for put :: "string \<Rightarrow> bytes \<Rightarrow> 's \<Rightarrow> (string + unit) \<times> 's"
    and look :: "'s \<Rightarrow> string \<Rightarrow> bytes option"
    and valid :: "string \<Rightarrow> bool" +
  assumes put_err: "put k b s = (Inl e, s') \<Longrightarrow> look s' k = look s k"
begin

text \<open>
  Content addressing: if the key determines the bytes, the bytes under a key never change.
\<close>

definition addressed :: "(string \<Rightarrow> bytes \<Rightarrow> bool) \<Rightarrow> 's \<Rightarrow> bool" where
  "addressed addr s \<longleftrightarrow> (\<forall>k b. valid k \<longrightarrow> look s k = Some b \<longrightarrow> addr k b)"

lemma put_result: "put k b s = (res, s') \<Longrightarrow> look s' k \<in> {look s k, Some b}"
  using put_ok [of k b s s'] put_err [of k b s _ s'] by (cases res) auto

lemma put_addressed:
  assumes "put k b s = (res, s')" "valid k" "addr k b" "addressed addr s"
  shows "addressed addr s'"
proof (unfold addressed_def, intro allI impI)
  fix k' b' assume k': "valid k'" "look s' k' = Some b'"
  show "addr k' b'"
  proof (cases "k' = k")
    case True
    with put_result [OF assms(1)] k' assms show ?thesis by (auto simp: addressed_def)
  next
    case False
    with put_other [OF assms(1,2) k'(1)] k' assms(4) show ?thesis
      by (auto simp: addressed_def)
  qed
qed

lemma put_content_stable:
  assumes "put k b s = (res, s')" "valid k" "valid k'" "addr k b" "addressed addr s"
    and det: "\<And>k x y. addr k x \<Longrightarrow> addr k y \<Longrightarrow> x = y"
    and "look s k' = Some c"
  shows "look s' k' = Some c"
proof (cases "k' = k")
  case True
  then have "addr k c" using assms by (auto simp: addressed_def)
  with det assms(4) have "c = b" by blast
  with put_result [OF assms(1)] True assms(7) show ?thesis by auto
next
  case False
  with put_other [OF assms(1,2,3)] assms(7) show ?thesis by simp
qed

end

text \<open>Keys the server generates: \<open>artifacts/\<dots>\<close>, relative.\<close>

definition server_key :: "string \<Rightarrow> bool" where
  "server_key k \<longleftrightarrow> k \<noteq> [] \<and> hd k \<noteq> CHR ''/''"

lemma artifact_key_server [simp]: "server_key (artifact_key sha ext)"
  by (simp add: server_key_def artifact_key_def)

lemma local_path_inj: "server_key k \<Longrightarrow> server_key k' \<Longrightarrow> local_path d k = local_path d k' \<Longrightarrow> k = k'"
  by (auto simp: local_path_def server_key_def split: if_splits)

lemma try_sum_eq:
  "acc \<le> m \<Longrightarrow> m = U64_MAX \<Longrightarrow>
     try_sum acc ns = (if acc + sum_list ns \<le> m then Some (acc + sum_list ns) else None)"
proof (induction ns arbitrary: acc)
  case (Cons n ns)
  show ?case
  proof (cases "acc + n \<le> m")
    case True
    then have "checked_add_u64 acc n = Some (acc + n)" using Cons.prems(2) by (simp only: checked_add_u64_Some simp_thms)
    then show ?thesis using Cons.IH [OF True Cons.prems(2)] by (simp add: add.assoc)
  next
    case False
    then have "checked_add_u64 acc n = None"
      using Cons.prems(2) by (simp only: checked_add_u64_def if_False)
    then show ?thesis using False by simp
  qed
qed simp

lemma store_put_Inr_stored: "store_put io k b s = (Inr (), s') \<Longrightarrow> stored s' k = Some b"
  by (cases s) (auto simp: update_conv' split: option.splits io_outcome.splits if_splits)

lemma store_put_other:
  assumes "store_put io k b s = (res, s')" "server_key k" "server_key k'" "k' \<noteq> k"
  shows "stored s' k' = stored s k'"
proof -
  have "local_path d k' \<noteq> local_path d k" for d
    using local_path_inj assms by blast
  with assms show ?thesis
    by (cases s) (auto simp: update_conv' split: option.splits io_outcome.splits if_splits)
qed

lemma store_put_keeps: "store_put io k b s = (res, s') \<Longrightarrow> stored s k \<noteq> None \<Longrightarrow> stored s' k \<noteq> None"
  by (cases s) (auto simp: update_conv' split: option.splits io_outcome.splits if_splits)

text \<open>Every backend is a blob store; it is atomic unless a write to disk is left half done.\<close>

definition clean_io :: "io_outcome \<Rightarrow> bool" where
  "clean_io io \<longleftrightarrow> (case io of IoErr _ (Some _) \<Rightarrow> False | _ \<Rightarrow> True)"

definition store_put_clean ::
    "io_outcome \<Rightarrow> string \<Rightarrow> bytes \<Rightarrow> artifact_store \<Rightarrow> (string + unit) \<times> artifact_store" where
  "store_put_clean io = store_put (case io of IoErr e _ \<Rightarrow> IoErr e None | IoOk \<Rightarrow> IoOk)"

lemma store_put_clean_eq: "clean_io io \<Longrightarrow> store_put_clean io = store_put io"
  by (cases io) (auto simp: clean_io_def store_put_clean_def split: option.splits)

interpretation any_store: blob_store "store_put io" stored server_key for io
  by unfold_locales (auto dest: store_put_Inr_stored store_put_other store_put_keeps)

interpretation clean_store: atomic_blob_store "store_put_clean io" stored server_key for io
proof unfold_locales
  fix k b s s' and res :: "string + unit" and e k'
  show "store_put_clean io k b s = (Inr (), s') \<Longrightarrow> stored s' k = Some b"
    by (auto simp: store_put_clean_def dest: store_put_Inr_stored)
  show "store_put_clean io k b s = (res, s') \<Longrightarrow> server_key k \<Longrightarrow> server_key k' \<Longrightarrow> k' \<noteq> k \<Longrightarrow>
      stored s' k' = stored s k'"
    by (auto simp: store_put_clean_def dest: store_put_other)
  show "store_put_clean io k b s = (res, s') \<Longrightarrow> stored s k \<noteq> None \<Longrightarrow> stored s' k \<noteq> None"
    by (auto simp: store_put_clean_def dest: store_put_keeps)
  show "store_put_clean io k b s = (Inl e, s') \<Longrightarrow> stored s' k = stored s k"
    by (cases s; cases io) (auto simp: store_put_clean_def split: option.splits if_splits)
qed

section \<open>The memory backend's accounting\<close>

definition held_bytes :: "(string \<times> bytes) list \<Rightarrow> nat" where
  "held_bytes objs = sum_list (map (\<lambda>(_, v). length v) objs)"

fun store_ok :: "artifact_store \<Rightarrow> bool" where
  "store_ok (Memory objs limit) = (distinct (map fst objs) \<and> held_bytes objs \<le> limit)"
| "store_ok _ = True"

lemma held_bytes_update:
  "distinct (map fst objs) \<Longrightarrow>
     held_bytes (AList.update k b objs) =
     sum_list (map (\<lambda>(_, v). length v) (filter (\<lambda>(k', _). k' \<noteq> k) objs)) + length b"
proof (induction objs)
  case (Cons kv objs)
  have "k \<notin> fst ` set objs \<Longrightarrow> filter (\<lambda>(k', _). k' \<noteq> k) objs = objs"
    by (rule filter_True) (auto simp: image_iff)
  with Cons show ?case by (cases kv) (auto simp: held_bytes_def)
qed (simp add: held_bytes_def)

definition retained_bytes :: "string \<Rightarrow> (string \<times> bytes) list \<Rightarrow> nat" where
  "retained_bytes key objs =
     sum_list (map (\<lambda>(_, v). length v) (filter (\<lambda>(k, _). k \<noteq> key) objs))"

text \<open>The capacity check in closed form: the two checked additions never disagree with it.\<close>

lemma store_put_memory:
  assumes "m = U64_MAX"
  shows "store_put io k b (Memory objs limit) =
     (if retained_bytes k objs + length b > m then (Inl overflow_msg, Memory objs limit)
      else if retained_bytes k objs + length b > limit
      then (Inl (capacity_msg (retained_bytes k objs + length b) limit), Memory objs limit)
      else (Inr (), Memory (AList.update k b objs) limit))"
proof -
  have t: "try_sum 0 (map (\<lambda>(_, v). length v) (filter (\<lambda>(k', _). k' \<noteq> k) objs)) =
        (if retained_bytes k objs \<le> m then Some (retained_bytes k objs) else None)"
    using try_sum_eq [of 0 m] assms by (simp only: retained_bytes_def le0 add_0)
  show ?thesis
    unfolding store_put.simps t checked_add_u64_def assms [symmetric] by auto
qed

lemma store_put_ok: "store_ok s \<Longrightarrow> store_put io k b s = (res, s') \<Longrightarrow> store_ok s'"
proof (cases s)
  case (Memory objs limit)
  assume "store_ok s" and "store_put io k b s = (res, s')"
  with Memory show ?thesis
    unfolding Memory store_put_memory [OF refl]
    by (auto simp: held_bytes_update retained_bytes_def distinct_update split: if_splits)
qed (auto split: io_outcome.splits option.splits)

lemma store_put_memory_err:
  "store_put io k b (Memory objs limit) = (Inl e, s') \<Longrightarrow> s' = Memory objs limit"
  by (auto split: option.splits if_splits)

lemma guard_buffered_Inr: "guard_buffered k n = Inr u \<longleftrightarrow> n \<le> MAX_BUFFERED_ARTIFACT_BYTES"
  by (auto simp: guard_buffered_def)

lemma get_bytes_sound:
  "store_get_bytes io declared k s = Inr v \<Longrightarrow>
     stored s k = Some v \<and> length v \<le> MAX_BUFFERED_ARTIFACT_BYTES"
  by (cases s) (auto simp: guard_buffered_Inr split: option.splits io_outcome.splits sum.splits)

end
