(* ===== verification/World.thy ===== *)
theory World
  imports Schema Storage
begin

text \<open>
  The world a handler runs in, and how it runs. A handler is a function from the world to a
  result and the next world; \<open>andThen\<close> is the code's \<open>?\<close>: the first error ends the handler.

  The world holds the database, the artifact store and the schedules of what the environment
  answers: \<open>clock\<close> (the results of \<open>Utc::now()\<close>), \<open>uuids\<close> (of \<open>Uuid::new_v4()\<close>), \<open>faults\<close>
  (the statements the database refuses; a \<open>UniqueViolation\<close> there is a row that another
  replica committed in the meantime) and \<open>io_events\<close> (the outcomes of file system and S3
  calls). Theorems quantify over all schedules.
\<close>

section \<open>Externals\<close>

text \<open>
  Code that is not in the repository (the \<open>zed-interfaces\<close> crate, \<open>sha2\<close>, \<open>hex\<close>, \<open>chrono\<close>
  and \<open>uuid\<close> rendering) is the record \<open>externals\<close>, an argument of the definitions that use
  it. The constructors named here are the ones the repository's code matches on.
\<close>

datatype audit_action = Publish | Yank | Unyank | OrgClaim

datatype artifact_format = TarGz | Zip

text \<open>\<open>AuditChainInput\<close>, field by field as \<open>src/audit.rs\<close> fills it.\<close>

record chain_input =
  ci_org :: string
  ci_seq :: nat
  ci_at :: string
  ci_action :: string
  ci_subject :: string
  ci_token_id :: "string option"
  ci_token_name :: string
  ci_role :: string
  ci_detail :: "string option"
  ci_prev :: string

text \<open>The parts of the publish manifest the server reads.\<close>

record manifest =
  m_org :: string
  m_name :: string
  m_version :: string
  m_description :: "string option"
  m_vcs :: string
  m_url :: string
  m_scheme :: string
  m_keywords :: "string list"

record publish_meta =
  meta_manifest :: manifest
  meta_vcs_tag :: string
  meta_vcs_commit :: "string option"
  meta_sha256 :: string
  meta_format :: artifact_format

text \<open>
  What \<open>flate2\<close>, \<open>tar\<close> and \<open>zip\<close> make of an archive: an \<open>io::Error\<close> is its text and its chain
  of causes (each marked whether it is itself an \<open>io::Error\<close>); an entry is its path, its
  declared size and its contents, which may end in an error.
\<close>

datatype io_error = IoError (io_text: string) (io_causes: "(bool \<times> string) list")

type_synonym entry_data = "bytes \<times> io_error option"

datatype tar_item = TarFail io_error | TarEntry "io_error + string" nat entry_data

datatype zip_lookup = ZipFail string | ZipMissing | ZipEntry nat entry_data

text \<open>The answer of one HTTP GET: the status, and the body's \<open>object.type\<close> and \<open>object.sha\<close>.\<close>

datatype http_reply = SendErr string | Reply nat "string + (string option \<times> string option)"

record externals =
  sha256_hex :: "string \<Rightarrow> string"
  chain_preimage :: "chain_input \<Rightarrow> string"
  action_as_str :: "audit_action \<Rightarrow> string"
  action_parse :: "string \<Rightarrow> audit_action option"
  add_days :: "timestamp \<Rightarrow> int \<Rightarrow> timestamp option"
  rfc3339 :: "timestamp \<Rightarrow> string"
  uuid_str :: "uuid \<Rightarrow> string"
  uuid_parse :: "string \<Rightarrow> uuid option"
  uuid_simple :: "uuid \<Rightarrow> string"
  is_slug :: "string \<Rightarrow> bool"
  sort_desc :: "string list \<Rightarrow> string list"
  format_extension :: "artifact_format \<Rightarrow> string"
  format_content_type :: "artifact_format \<Rightarrow> string"
  format_parse :: "string \<Rightarrow> artifact_format option"
  publish_meta_field :: string
  publish_artifact_field :: string
  format_default :: artifact_format
  artifact_path :: "string \<Rightarrow> string"
  archive_root :: string
  manifest_validate :: "manifest \<Rightarrow> string option"
  decode_text :: "bytes \<Rightarrow> string"
  meta_parse :: "string \<Rightarrow> string + publish_meta"
  vcs_uses_git_tags :: "string \<Rightarrow> bool"
  vcs_parse :: "string \<Rightarrow> string option"
  vcs_default :: string
  scheme_lenient :: "string \<Rightarrow> string"
  presign :: "string \<Rightarrow> string \<Rightarrow> string + string"
  db_err_text :: "db_err \<Rightarrow> string"
  nearest :: "string \<Rightarrow> nat \<Rightarrow> embedding_row list \<Rightarrow> (uuid \<times> real) list"
  tar_entries :: "nat \<Rightarrow> bytes \<Rightarrow> io_error + tar_item list"
  http_get :: "string \<Rightarrow> string option \<Rightarrow> http_reply"
  zip_by_name :: "bytes \<Rightarrow> string \<Rightarrow> zip_lookup"
  scan_packages :: "package_row list \<Rightarrow> package_row list"
  scan_versions :: "version_row list \<Rightarrow> version_row list"

text \<open>
  \<open>scan_packages\<close> and \<open>scan_versions\<close> are the order in which the database returns rows that no
  \<open>ORDER BY\<close> orders: all that is known of it is that it is a permutation.
\<close>

definition scans_ok :: "externals \<Rightarrow> bool" where
  "scans_ok E \<longleftrightarrow> (\<forall>rows. mset (scan_packages E rows) = mset rows) \<and>
                 (\<forall>rows. mset (scan_versions E rows) = mset rows)"

lemma scans_ok_sets:
  assumes "scans_ok E"
  shows "set (scan_packages E ps) = set ps" "set (scan_versions E vs) = set vs"
    "length (scan_packages E ps) = length ps" "length (scan_versions E vs) = length vs"
  using assms by (auto simp: scans_ok_def dest: mset_eq_setD mset_eq_length)

section \<open>The server's fixed state\<close>

datatype db_backend = Postgres | Sqlite

datatype tag_policy = TagOff | TagGithub

text \<open>
  \<open>AppState\<close> (\<open>src/state.rs\<close>) without the two stateful parts, the database and the store, which
  are in the world. \<open>environ\<close> is the process environment.
\<close>

record app_state =
  backend :: db_backend
  verify_tags :: tag_policy
  github_token :: "string option"
  public_base_url :: string
  max_orgs_per_token :: nat
  environ :: "string \<Rightarrow> string option"

section \<open>The world\<close>

record io_event =
  io_result :: io_outcome
  io_declared :: "int option"

record world =
  db :: database
  store :: artifact_store
  clock :: "nat \<Rightarrow> timestamp"
  ticks :: nat
  uuids :: "nat \<Rightarrow> uuid"
  drawn :: nat
  faults :: "nat \<Rightarrow> db_err option"
  calls :: nat
  io_events :: "nat \<Rightarrow> io_event"
  io_calls :: nat

type_synonym ('e, 'a) io = "world \<Rightarrow> ('e + 'a) \<times> world"

definition ret :: "'a \<Rightarrow> ('e, 'a) io" where
  "ret x w = (Inr x, w)"

definition fail :: "'e \<Rightarrow> ('e, 'a) io" where
  "fail e w = (Inl e, w)"

definition andThen :: "('e, 'a) io \<Rightarrow> ('a \<Rightarrow> ('e, 'b) io) \<Rightarrow> ('e, 'b) io" where
  "andThen m k w = (case m w of (Inl e, w') \<Rightarrow> (Inl e, w') | (Inr x, w') \<Rightarrow> k x w')"

definition map_err :: "('e \<Rightarrow> 'f) \<Rightarrow> ('e, 'a) io \<Rightarrow> ('f, 'a) io" where
  "map_err f m w = (case m w of (r, w') \<Rightarrow> (map_sum f id r, w'))"

text \<open>Run \<open>m\<close> and hand its result, error included, to \<open>k\<close>: the code's \<open>match \<dots>.await\<close>.\<close>

definition inspect :: "('e, 'a) io \<Rightarrow> ('e + 'a \<Rightarrow> ('f, 'b) io) \<Rightarrow> ('f, 'b) io" where
  "inspect m k w = (case m w of (r, w') \<Rightarrow> k r w')"

definition lift :: "('e + 'a) \<Rightarrow> ('e, 'a) io" where
  "lift r w = (r, w)"

definition utc_now :: "('e, timestamp) io" where
  "utc_now w = (Inr (clock w (ticks w)), w\<lparr>ticks := Suc (ticks w)\<rparr>)"

definition new_uuid :: "('e, uuid) io" where
  "new_uuid w = (Inr (uuids w (drawn w)), w\<lparr>drawn := Suc (drawn w)\<rparr>)"

text \<open>One statement: it may be refused by the schedule, else it reads or changes the database.\<close>

definition statement :: "(database \<Rightarrow> db_err + ('a \<times> database)) \<Rightarrow> (db_err, 'a) io" where
  "statement f w =
     (let w' = w\<lparr>calls := Suc (calls w)\<rparr>
      in case faults w (calls w) of
           Some e \<Rightarrow> (Inl e, w')
         | None \<Rightarrow> (case f (db w) of Inl e \<Rightarrow> (Inl e, w') | Inr (x, d) \<Rightarrow> (Inr x, w'\<lparr>db := d\<rparr>)))"

definition select :: "(database \<Rightarrow> 'a) \<Rightarrow> (db_err, 'a) io" where
  "select q = statement (\<lambda>d. Inr (q d, d))"

definition insert_stmt :: "('r \<Rightarrow> database \<Rightarrow> db_err + database) \<Rightarrow> 'r \<Rightarrow> (db_err, 'r) io" where
  "insert_stmt ins r = statement (\<lambda>d. map_sum id (\<lambda>d'. (r, d')) (ins r d))"

definition update_stmt :: "(database \<Rightarrow> database) \<Rightarrow> (db_err, unit) io" where
  "update_stmt f = statement (\<lambda>d. Inr ((), f d))"

text \<open>
  A transaction: \<open>BEGIN\<close>, the body, \<open>COMMIT\<close>. An error of the body (the explicit rollback or
  the dropped transaction) and a refused commit leave the database as it was at \<open>BEGIN\<close>.
\<close>

definition in_txn :: "(db_err \<Rightarrow> 'e) \<Rightarrow> ('e, 'a) io \<Rightarrow> ('e, 'a) io" where
  "in_txn conv body w =
     (case select (\<lambda>_. ()) w of
        (Inl e, w1) \<Rightarrow> (Inl (conv e), w1)
      | (Inr _, w1) \<Rightarrow>
          (case body w1 of
             (Inl e, w2) \<Rightarrow> (Inl e, w2\<lparr>db := db w1\<rparr>)
           | (Inr x, w2) \<Rightarrow>
               (case select (\<lambda>_. ()) w2 of
                  (Inl e, w3) \<Rightarrow> (Inl (conv e), w3\<lparr>db := db w1\<rparr>)
                | (Inr _, w3) \<Rightarrow> (Inr x, w3))))"

text \<open>The store's operations, with the outcome the schedule gives; errors are \<open>anyhow\<close> texts.\<close>

definition put_artifact :: "string \<Rightarrow> bytes \<Rightarrow> (string, unit) io" where
  "put_artifact key bs w =
     (case store_put (io_result (io_events w (io_calls w))) key bs (store w) of
        (r, s) \<Rightarrow> (r, w\<lparr>store := s, io_calls := Suc (io_calls w)\<rparr>))"

definition get_artifact_bytes :: "string \<Rightarrow> (string, bytes) io" where
  "get_artifact_bytes key w =
     (let ev = io_events w (io_calls w)
      in (store_get_bytes (io_result ev) (io_declared ev) key (store w),
          w\<lparr>io_calls := Suc (io_calls w)\<rparr>))"

definition download_artifact :: "externals \<Rightarrow> string \<Rightarrow> (string, download) io" where
  "download_artifact E key w =
     (store_download (presign E) (io_result (io_events w (io_calls w))) key (store w),
      w\<lparr>io_calls := Suc (io_calls w)\<rparr>)"

text \<open>The code's \<open>?\<close> on a database call inside a handler.\<close>

abbreviation dbq :: "(db_err, 'a) io \<Rightarrow> (api_err, 'a) io" where
  "dbq \<equiv> map_err from_db_err"

definition or_else :: "'a option \<Rightarrow> 'e \<Rightarrow> ('e, 'a) io" where
  "or_else v e = (case v of None \<Rightarrow> fail e | Some x \<Rightarrow> ret x)"

section \<open>Computation rules\<close>

lemma ret_simp [simp]: "ret x w = (Inr x, w)" by (simp add: ret_def)
lemma fail_simp [simp]: "fail e w = (Inl e, w)" by (simp add: fail_def)
lemma lift_simp [simp]: "lift r w = (r, w)" by (simp add: lift_def)

lemma andThen_Inr:
  "andThen m k w = (Inr y, w') \<longleftrightarrow> (\<exists>x w1. m w = (Inr x, w1) \<and> k x w1 = (Inr y, w'))"
  by (auto simp: andThen_def split: prod.splits sum.splits)

lemma andThen_Inl:
  "andThen m k w = (Inl e, w') \<longleftrightarrow>
     m w = (Inl e, w') \<or> (\<exists>x w1. m w = (Inr x, w1) \<and> k x w1 = (Inl e, w'))"
  by (auto simp: andThen_def split: prod.splits sum.splits)

lemma andThen_assoc: "andThen (andThen m k) l = andThen m (\<lambda>x. andThen (k x) l)"
  by (rule ext) (simp add: andThen_def split: prod.split sum.split)

lemma andThen_ret: "andThen (ret x) k = k x"
  by (rule ext) (simp add: andThen_def)

lemma map_err_Inr [simp]: "map_err f m w = (Inr x, w') \<longleftrightarrow> m w = (Inr x, w')"
  by (auto simp: map_err_def map_sum_Inr_iff split: prod.splits)

lemma map_err_Inl: "map_err f m w = (Inl e, w') \<longleftrightarrow> (\<exists>e'. m w = (Inl e', w') \<and> e = f e')"
  by (cases "m w"; cases "fst (m w)") (auto simp: map_err_def)

lemma or_else_Inr [simp]: "or_else v e w = (Inr x, w') \<longleftrightarrow> v = Some x \<and> w' = w"
  by (auto simp: or_else_def split: option.splits)

lemma or_else_Inl [simp]: "or_else v e w = (Inl e', w') \<longleftrightarrow> v = None \<and> e' = e \<and> w' = w"
  by (auto simp: or_else_def split: option.splits)

lemma inspect_iff:
  "inspect m k w = (r, w') \<longleftrightarrow>
     (\<exists>x w1. m w = (Inr x, w1) \<and> k (Inr x) w1 = (r, w')) \<or>
     (\<exists>e w1. m w = (Inl e, w1) \<and> k (Inl e) w1 = (r, w'))"
  by (cases "m w"; cases "fst (m w)") (auto simp: inspect_def)

definition next_call :: "world \<Rightarrow> world" where
  "next_call w = w\<lparr>calls := Suc (calls w)\<rparr>"

lemma next_call_simps [simp]:
  "db (next_call w) = db w" "store (next_call w) = store w" "clock (next_call w) = clock w"
  "ticks (next_call w) = ticks w" "uuids (next_call w) = uuids w" "drawn (next_call w) = drawn w"
  "faults (next_call w) = faults w" "calls (next_call w) = Suc (calls w)"
  "io_events (next_call w) = io_events w" "io_calls (next_call w) = io_calls w"
  by (simp_all add: next_call_def)

lemma statement_eq:
  "statement f w =
     (case faults w (calls w) of
        Some e \<Rightarrow> (Inl e, next_call w)
      | None \<Rightarrow> (case f (db w) of
                   Inl e \<Rightarrow> (Inl e, next_call w)
                 | Inr (x, d) \<Rightarrow> (Inr x, (next_call w)\<lparr>db := d\<rparr>)))"
  by (simp add: statement_def next_call_def Let_def split: option.splits sum.splits prod.splits)

lemma select_eq:
  "select q w =
     (case faults w (calls w) of
        Some e \<Rightarrow> (Inl e, next_call w)
      | None \<Rightarrow> (Inr (q (db w)), next_call w))"
  by (simp add: select_def statement_eq split: option.splits)

lemma select_Inr:
  "select q w = (Inr x, w') \<longleftrightarrow> faults w (calls w) = None \<and> x = q (db w) \<and> w' = next_call w"
  by (auto simp: select_eq split: option.splits)

lemma select_Inl:
  "select q w = (Inl e, w') \<longleftrightarrow> faults w (calls w) = Some e \<and> w' = next_call w"
  by (auto simp: select_eq split: option.splits)

lemma insert_stmt_Inr:
  "insert_stmt ins r w = (Inr x, w') \<longleftrightarrow>
     faults w (calls w) = None \<and> x = r \<and>
     (\<exists>d. ins r (db w) = Inr d \<and> w' = (next_call w)\<lparr>db := d\<rparr>)"
  by (cases "ins r (db w)") (auto simp: insert_stmt_def statement_eq split: option.splits)

lemma insert_stmt_Inl:
  "insert_stmt ins r w = (Inl e, w') \<longleftrightarrow>
     w' = next_call w \<and>
     (faults w (calls w) = Some e \<or> (faults w (calls w) = None \<and> ins r (db w) = Inl e))"
  by (cases "ins r (db w)") (auto simp: insert_stmt_def statement_eq split: option.splits)

lemma update_stmt_Inr:
  "update_stmt f w = (Inr x, w') \<longleftrightarrow>
     faults w (calls w) = None \<and> w' = (next_call w)\<lparr>db := f (db w)\<rparr>"
  by (auto simp: update_stmt_def statement_eq split: option.splits)

lemma update_stmt_Inl:
  "update_stmt f w = (Inl e, w') \<longleftrightarrow> faults w (calls w) = Some e \<and> w' = next_call w"
  by (auto simp: update_stmt_def statement_eq split: option.splits)

lemma in_txn_Inr:
  "in_txn conv body w = (Inr x, w') \<longleftrightarrow>
     (\<exists>w1 w2. select (\<lambda>_. ()) w = (Inr (), w1) \<and> body w1 = (Inr x, w2) \<and>
              select (\<lambda>_. ()) w2 = (Inr (), w'))"
  by (auto simp: in_txn_def split: prod.splits sum.splits)

lemma in_txn_Inl_db:
  assumes "in_txn conv body w = (Inl e, w')"
  shows "db w' = db w"
  using assms by (auto simp: in_txn_def select_Inr select_Inl split: prod.splits sum.splits)

text \<open>Unfolding a handler into the cases it runs through.\<close>

lemma or_else_simps [simp]: "or_else None e w = (Inl e, w)" "or_else (Some x) e w = (Inr x, w)"
  by (simp_all add: or_else_def)

lemma select_run [simp]:
  "faults w (calls w) = None \<Longrightarrow> select q w = (Inr (q (db w)), next_call w)"
  "faults w (calls w) = Some e \<Longrightarrow> select q w = (Inl e, next_call w)"
  by (simp_all add: select_eq)

lemma utc_now_Inr: "utc_now w = (Inr t, w') \<longleftrightarrow> t = clock w (ticks w) \<and> w' = w\<lparr>ticks := Suc (ticks w)\<rparr>"
  by (auto simp: utc_now_def)

lemma utc_now_Inl [simp]: "utc_now w \<noteq> (Inl e, w')"
  by (simp add: utc_now_def)

lemma new_uuid_Inr: "new_uuid w = (Inr i, w') \<longleftrightarrow> i = uuids w (drawn w) \<and> w' = w\<lparr>drawn := Suc (drawn w)\<rparr>"
  by (auto simp: new_uuid_def)

lemma new_uuid_Inl [simp]: "new_uuid w \<noteq> (Inl e, w')"
  by (simp add: new_uuid_def)

lemmas run_simps = andThen_def map_err_def inspect_def utc_now_def new_uuid_def

section \<open>Frame conditions\<close>

text \<open>\<open>keeps P m\<close>: running \<open>m\<close> keeps a property of the database, whatever it returns.\<close>

definition keeps :: "(database \<Rightarrow> bool) \<Rightarrow> ('e, 'a) io \<Rightarrow> bool" where
  "keeps P m \<longleftrightarrow> (\<forall>w. P (db w) \<longrightarrow> P (db (snd (m w))))"

text \<open>\<open>pure_read m\<close>: running \<open>m\<close> changes neither the database nor the store.\<close>

definition pure_read :: "('e, 'a) io \<Rightarrow> bool" where
  "pure_read m \<longleftrightarrow>
     (\<forall>w. db (snd (m w)) = db w \<and> store (snd (m w)) = store w \<and> io_events (snd (m w)) = io_events w)"

definition keeps_store :: "('e, 'a) io \<Rightarrow> bool" where
  "keeps_store m \<longleftrightarrow> (\<forall>w. store (snd (m w)) = store w \<and> io_events (snd (m w)) = io_events w)"

lemma keepsI: "(\<And>w r w'. P (db w) \<Longrightarrow> m w = (r, w') \<Longrightarrow> P (db w')) \<Longrightarrow> keeps P m"
  by (auto simp: keeps_def) (metis prod.collapse)

lemma keepsD: "keeps P m \<Longrightarrow> m w = (r, w') \<Longrightarrow> P (db w) \<Longrightarrow> P (db w')"
  by (metis keeps_def snd_conv)

lemma pure_readD: "pure_read m \<Longrightarrow> m w = (r, w') \<Longrightarrow> db w' = db w \<and> store w' = store w"
  by (metis pure_read_def snd_conv)

lemma keeps_store_events: "keeps_store m \<Longrightarrow> m w = (r, w') \<Longrightarrow> io_events w' = io_events w"
  by (metis keeps_store_def snd_conv)

lemma keeps_storeD: "keeps_store m \<Longrightarrow> m w = (r, w') \<Longrightarrow> store w' = store w"
  by (metis keeps_store_def snd_conv)

lemma keeps_ret [keeps_intro]: "keeps P (ret x)" "keeps P (fail e)" "keeps P (lift r)"
  "keeps P (or_else v e)" "keeps P utc_now" "keeps P new_uuid"
  by (auto simp: keeps_def or_else_def utc_now_def new_uuid_def split: option.splits)

lemma keeps_andThen [keeps_intro]: "keeps P m \<Longrightarrow> (\<And>x. keeps P (k x)) \<Longrightarrow> keeps P (andThen m k)"
  by (auto simp: keeps_def andThen_def split: prod.splits sum.splits)

lemma keeps_map_err [keeps_intro]: "keeps P m \<Longrightarrow> keeps P (map_err f m)"
  by (auto simp: keeps_def map_err_def split: prod.splits)

lemma keeps_inspect [keeps_intro]: "keeps P m \<Longrightarrow> (\<And>r. keeps P (k r)) \<Longrightarrow> keeps P (inspect m k)"
  by (auto simp: keeps_def inspect_def split: prod.splits)

lemma keeps_select [keeps_intro]: "keeps P (select q)"
  by (auto simp: keeps_def select_eq split: option.splits)

lemma keeps_insert [keeps_intro]:
  "(\<And>d d'. P d \<Longrightarrow> ins r d = Inr d' \<Longrightarrow> P d') \<Longrightarrow> keeps P (insert_stmt ins r)"
  by (rule keepsI)
    (auto simp: insert_stmt_def statement_eq map_sum_Inr_iff split: option.splits sum.splits prod.splits)

lemma keeps_update [keeps_intro]: "(\<And>d. P d \<Longrightarrow> P (f d)) \<Longrightarrow> keeps P (update_stmt f)"
  by (rule keepsI) (auto simp: update_stmt_def statement_eq split: option.splits)

lemma keeps_in_txn [keeps_intro]: "keeps P body \<Longrightarrow> keeps P (in_txn conv body)"
  by (rule keepsI)
    (auto simp: in_txn_def select_Inr select_Inl split: prod.splits sum.splits dest: keepsD)

lemma keeps_artifact [keeps_intro]: "keeps P (put_artifact k b)" "keeps P (get_artifact_bytes k)"
  "keeps P (download_artifact E k)"
  by (auto simp: keeps_def put_artifact_def get_artifact_bytes_def download_artifact_def Let_def
      split: prod.splits)

lemma keeps_if [keeps_intro]: "keeps P m \<Longrightarrow> keeps P n \<Longrightarrow> keeps P (if b then m else n)"
  by simp

lemma keeps_case_option [keeps_intro]:
  "keeps P m \<Longrightarrow> (\<And>x. keeps P (k x)) \<Longrightarrow> keeps P (case v of None \<Rightarrow> m | Some x \<Rightarrow> k x)"
  by (cases v) auto

lemma keeps_case_sum [keeps_intro]:
  "(\<And>x. keeps P (m x)) \<Longrightarrow> (\<And>x. keeps P (k x)) \<Longrightarrow> keeps P (case v of Inl x \<Rightarrow> m x | Inr x \<Rightarrow> k x)"
  by (cases v) auto

lemma keeps_case_prod [keeps_intro]:
  "(\<And>x y. keeps P (k x y)) \<Longrightarrow> keeps P (case v of (x, y) \<Rightarrow> k x y)"
  by (cases v) auto

lemma pure_read_intros [keeps_intro]:
  "pure_read (ret x)" "pure_read (fail e)" "pure_read (lift r)" "pure_read (or_else v e)"
  "pure_read utc_now" "pure_read new_uuid" "pure_read (select q)"
  "pure_read (get_artifact_bytes k)" "pure_read (download_artifact E k)"
  by (auto simp: pure_read_def or_else_def utc_now_def new_uuid_def select_eq
      get_artifact_bytes_def download_artifact_def Let_def split: option.splits)

lemma pure_read_andThen [keeps_intro]:
  "pure_read m \<Longrightarrow> (\<And>x. pure_read (k x)) \<Longrightarrow> pure_read (andThen m k)"
  by (auto simp: pure_read_def andThen_def split: prod.splits sum.splits) (metis snd_conv)+

lemma pure_read_map_err [keeps_intro]: "pure_read m \<Longrightarrow> pure_read (map_err f m)"
  by (auto simp: pure_read_def map_err_def split: prod.splits) (metis snd_conv)+

lemma pure_read_cases [keeps_intro]:
  "pure_read m \<Longrightarrow> pure_read n \<Longrightarrow> pure_read (if b then m else n)"
  "pure_read m \<Longrightarrow> (\<And>x. pure_read (k x)) \<Longrightarrow> pure_read (case v of None \<Rightarrow> m | Some x \<Rightarrow> k x)"
  "(\<And>x. pure_read (l x)) \<Longrightarrow> (\<And>x. pure_read (k' x)) \<Longrightarrow>
     pure_read (case u of Inl x \<Rightarrow> l x | Inr x \<Rightarrow> k' x)"
  by (auto split: option.splits sum.splits)

lemma pure_read_keeps_store: "pure_read m \<Longrightarrow> keeps_store m"
  by (auto simp: pure_read_def keeps_store_def)

lemma keeps_store_intros [keeps_intro]:
  "keeps_store (ret x)" "keeps_store (fail e)" "keeps_store (lift r)" "keeps_store (or_else v e)"
  "keeps_store utc_now" "keeps_store new_uuid" "keeps_store (select q)"
  "keeps_store (insert_stmt ins row)" "keeps_store (update_stmt f)"
  by (auto simp: keeps_store_def or_else_def utc_now_def new_uuid_def select_eq insert_stmt_def
      update_stmt_def statement_eq split: option.splits sum.splits prod.splits)

lemma keeps_store_andThen [keeps_intro]:
  "keeps_store m \<Longrightarrow> (\<And>x. keeps_store (k x)) \<Longrightarrow> keeps_store (andThen m k)"
  by (auto simp: keeps_store_def andThen_def split: prod.splits sum.splits) (metis snd_conv)+

lemma keeps_storeI:
  "(\<And>w r w'. m w = (r, w') \<Longrightarrow> store w' = store w \<and> io_events w' = io_events w) \<Longrightarrow> keeps_store m"
  by (auto simp: keeps_store_def) (metis prod.collapse)+

lemma keeps_store_map_err [keeps_intro]: "keeps_store m \<Longrightarrow> keeps_store (map_err f m)"
  by (rule keeps_storeI)
    (auto simp: map_err_def keeps_storeD keeps_store_events split: prod.splits)

lemma keeps_store_inspect [keeps_intro]:
  "keeps_store m \<Longrightarrow> (\<And>r. keeps_store (k r)) \<Longrightarrow> keeps_store (inspect m k)"
  by (rule keeps_storeI)
    (auto simp: inspect_def split: prod.splits, metis keeps_storeD, metis keeps_store_events)

lemma keeps_store_in_txn [keeps_intro]:
  assumes "keeps_store body"
  shows "keeps_store (in_txn conv body)"
proof (rule keeps_storeI)
  fix w r w' assume run: "in_txn conv body w = (r, w')"
  obtain q w2 where q: "body (next_call w) = (q, w2)" by (metis prod.collapse)
  have "store w2 = store w" "io_events w2 = io_events w"
    using keeps_storeD [OF assms q] keeps_store_events [OF assms q] by simp_all
  with run q show "store w' = store w \<and> io_events w' = io_events w"
    by (auto simp: in_txn_def select_eq split: sum.splits option.splits)
qed

lemma keeps_store_cases [keeps_intro]:
  "keeps_store m \<Longrightarrow> keeps_store n \<Longrightarrow> keeps_store (if b then m else n)"
  "keeps_store m \<Longrightarrow> (\<And>x. keeps_store (k x)) \<Longrightarrow> keeps_store (case v of None \<Rightarrow> m | Some x \<Rightarrow> k x)"
  "(\<And>x. keeps_store (l x)) \<Longrightarrow> (\<And>x. keeps_store (k' x)) \<Longrightarrow>
     keeps_store (case u of Inl x \<Rightarrow> l x | Inr x \<Rightarrow> k' x)"
  "(\<And>x y. keeps_store (j x y)) \<Longrightarrow> keeps_store (case v' of (x, y) \<Rightarrow> j x y)"
  by (auto split: option.splits sum.splits prod.splits)

end
