(* ===== verification/Auth.thy ===== *)
theory Auth
  imports World
begin

text \<open>
  \<open>src/auth.rs\<close>: bearer tokens. The request's readable \<open>Authorization\<close> value is an optional
  string (a missing header, and one with bytes outside visible ASCII, is \<open>None\<close>).
\<close>

definition hash_token :: "externals \<Rightarrow> string \<Rightarrow> string" where
  "hash_token E plaintext = sha256_hex E plaintext"

definition bearer_token :: "string option \<Rightarrow> string option" where
  "bearer_token header =
     (case header of
        None \<Rightarrow> None
      | Some v \<Rightarrow> map_option str_trim (strip_prefix ''Bearer '' v))"

definition auth_disabled :: "app_state \<Rightarrow> bool" where
  "auth_disabled st \<longleftrightarrow> environ st ''ZED_AUTH_DISABLED'' = Some ''1''"

definition operator_id :: uuid where
  "operator_id = 1"

definition operator_row :: "externals \<Rightarrow> timestamp \<Rightarrow> token_row" where
  "operator_row E now =
     \<lparr>t_id = operator_id, t_name = ''auth-disabled-operator'',
      t_hash = hash_token E ''zed-auth-disabled-operator'', t_org = None, t_role = ''admin'',
      t_created_at = now, t_expires_at = None, t_revoked_at = None\<rparr>"

definition token_by_id :: "uuid \<Rightarrow> database \<Rightarrow> token_row option" where
  "token_by_id i d = find (\<lambda>r. t_id r = i) (tokens d)"

definition token_by_hash :: "string \<Rightarrow> database \<Rightarrow> token_row option" where
  "token_by_hash h d = find (\<lambda>r. t_hash r = h) (tokens d)"

definition insecure_operator_token :: "externals \<Rightarrow> (api_err, token_row) io" where
  "insecure_operator_token E =
     andThen (dbq (select (token_by_id operator_id))) (\<lambda>found.
       case found of
         Some row \<Rightarrow> ret row
       | None \<Rightarrow>
           andThen utc_now (\<lambda>now.
           inspect (insert_stmt insert_token (operator_row E now)) (\<lambda>inserted.
             case inserted of
               Inr row \<Rightarrow> ret row
             | Inl error \<Rightarrow>
                 andThen (dbq (select (token_by_id operator_id))) (\<lambda>again.
                   or_else again (from_db_err error)))))"

definition require_token :: "externals \<Rightarrow> app_state \<Rightarrow> string option \<Rightarrow> (api_err, token_row) io" where
  "require_token E st header =
     (if auth_disabled st then insecure_operator_token E
      else
        andThen (or_else (bearer_token header) err_unauthorized) (\<lambda>plaintext.
        andThen (dbq (select (token_by_hash (hash_token E plaintext)))) (\<lambda>found.
        andThen (or_else found err_unauthorized) (\<lambda>row.
          if t_revoked_at row \<noteq> None then fail err_unauthorized
          else
            (case t_expires_at row of
               None \<Rightarrow> ret row
             | Some expires_at \<Rightarrow>
                 andThen utc_now (\<lambda>now.
                   if expires_at \<le> now then fail err_unauthorized else ret row))))))"

section \<open>What a token check decides\<close>

text \<open>The reference: a token is accepted at time \<open>now\<close> iff it is live.\<close>

definition token_live :: "timestamp \<Rightarrow> token_row \<Rightarrow> bool" where
  "token_live now r \<longleftrightarrow> t_revoked_at r = None \<and> opt_holds (\<lambda>e. now < e) (t_expires_at r)"

text \<open>With authentication on, nothing but the two clocks of the world moves.\<close>

lemma require_token_keeps_store [keeps_intro]: "keeps_store (require_token E st h)"
  unfolding require_token_def insecure_operator_token_def by (intro keeps_intro)

lemma require_token_keeps_db_ok [keeps_intro]: "keeps db_ok (require_token E st h)"
  unfolding require_token_def insecure_operator_token_def
  by (intro keeps_intro) (auto elim: insert_token_ok)

lemma require_token_pure: "\<not> auth_disabled st \<Longrightarrow> pure_read (require_token E st h)"
  unfolding require_token_def by (simp, intro keeps_intro)

lemma require_token_run:
  assumes "\<not> auth_disabled st"
  shows "require_token E st h w =
    (case bearer_token h of
       None \<Rightarrow> (Inl err_unauthorized, w)
     | Some p \<Rightarrow>
         (case faults w (calls w) of
            Some e \<Rightarrow> (Inl (from_db_err e), next_call w)
          | None \<Rightarrow>
              (case token_by_hash (hash_token E p) (db w) of
                 None \<Rightarrow> (Inl err_unauthorized, next_call w)
               | Some row \<Rightarrow>
                   if t_revoked_at row \<noteq> None then (Inl err_unauthorized, next_call w)
                   else (case t_expires_at row of
                           None \<Rightarrow> (Inr row, next_call w)
                         | Some e \<Rightarrow>
                             (if e \<le> clock w (ticks w) then Inl err_unauthorized else Inr row,
                              (next_call w)\<lparr>ticks := Suc (ticks w)\<rparr>)))))"
  using assms by (simp add: require_token_def run_simps split: option.split)

lemma require_token_InrD:
  assumes "\<not> auth_disabled st" "require_token E st h w = (Inr row, w')"
  shows "\<exists>p. bearer_token h = Some p \<and> token_by_hash (hash_token E p) (db w) = Some row"
    and "token_live (clock w (ticks w)) row"
  using assms(2) unfolding require_token_run [OF assms(1)]
  by (auto simp: token_live_def opt_holds_def split: option.splits if_splits)

lemma require_token_InrI:
  assumes "\<not> auth_disabled st" "faults w (calls w) = None"
    and "bearer_token h = Some p" "token_by_hash (hash_token E p) (db w) = Some row"
    and "token_live (clock w (ticks w)) row"
  shows "\<exists>w'. require_token E st h w = (Inr row, w')"
  unfolding require_token_run [OF assms(1)]
  using assms(2-) by (auto simp: token_live_def opt_holds_def split: option.splits)

lemma require_token_Inl:
  assumes "\<not> auth_disabled st" "require_token E st h w = (Inl e, w')"
  shows "e = err_unauthorized \<or> (\<exists>d. faults w (calls w) = Some d \<and> e = from_db_err d)"
  using assms(2) unfolding require_token_run [OF assms(1)]
  by (auto split: option.splits if_splits)

lemma require_token_sound:
  assumes "\<not> auth_disabled st" "require_token E st h w = (Inr row, w')"
  shows "row \<in> set (tokens (db w))" "token_live (clock w (ticks w)) row"
    "\<exists>p. bearer_token h = Some p \<and> t_hash row = hash_token E p"
proof -
  note * = require_token_InrD [OF assms]
  from * show "row \<in> set (tokens (db w))" "token_live (clock w (ticks w)) row"
    "\<exists>p. bearer_token h = Some p \<and> t_hash row = hash_token E p"
    by (auto simp: token_by_hash_def dest: find_SomeD)
qed

text \<open>A denial, whatever its reason, is one and the same answer.\<close>

lemma require_token_denied:
  assumes "\<not> auth_disabled st" "faults w (calls w) = None"
    and "\<And>row. row \<in> set (tokens (db w)) \<Longrightarrow> opt_holds (\<lambda>p. t_hash row = hash_token E p) (bearer_token h) \<Longrightarrow>
           \<not> token_live (clock w (ticks w)) row"
  shows "\<exists>w'. require_token E st h w = (Inl err_unauthorized, w')"
proof (cases "require_token E st h w")
  case (Pair r w')
  show ?thesis
  proof (cases r)
    case (Inl e)
    with require_token_Inl [OF assms(1), of E h w e w'] Pair assms(2) show ?thesis by auto
  next
    case (Inr row)
    with require_token_sound [OF assms(1), of E h w row w'] Pair assms(3) [of row]
    show ?thesis by auto
  qed
qed

section \<open>The synthetic operator\<close>

lemma insecure_operator_token_Inr:
  assumes "insecure_operator_token E w = (Inr row, w')" "db_ok (db w)"
  shows "t_id row = operator_id \<and> row \<in> set (tokens (db w'))"
  using assms
  by (auto simp: insecure_operator_token_def andThen_Inr select_Inr utc_now_Inr inspect_def
      token_by_id_def insert_stmt_Inr insert_stmt_Inl insert_token_Inr operator_row_def
      split: option.splits prod.splits sum.splits dest: find_SomeD)

lemma operator_bearer: "bearer_token (Some ''Bearer zed-auth-disabled-operator'') =
   Some ''zed-auth-disabled-operator''"
  by (simp add: bearer_token_def str_trim_def trim_end_with_def trim_start_with.simps white_space_def)

text \<open>
  The row the disabled mode leaves behind is an ordinary token row: once authentication is on
  again, the fixed plaintext of the source code authenticates as an unscoped token.
\<close>

text \<open>
  C15: The row the disabled mode leaves behind is an ordinary token row: once authentication is on
  again, the fixed plaintext of the source code authenticates as an unscoped token.
\<close>

theorem operator_row_outlives:
  assumes "auth_disabled st" "\<not> auth_disabled st'"
    and "insecure_operator_token E w = (Inr row, w')"
    and fresh: "token_by_id operator_id (db w) = None" and ok: "db_ok (db w)"
    and nofault: "faults w (Suc (calls w)) = None"
    and later: "db_ok (db v)" "row \<in> set (tokens (db v))" "faults v (calls v) = None"
  shows "\<exists>v'. require_token E st' (Some ''Bearer zed-auth-disabled-operator'') v = (Inr row, v') \<and>
              t_org row = None"
proof -
  have row: "row = operator_row E (clock w (ticks w))"
    using assms(3) fresh nofault
    by (auto simp: insecure_operator_token_def andThen_Inr select_Inr utc_now_Inr inspect_def
        insert_stmt_Inr insert_stmt_Inl token_by_id_def insert_token_def insert_unique_def
        split: option.splits prod.splits sum.splits if_splits dest!: find_SomeD)
  then have h: "t_hash row = hash_token E ''zed-auth-disabled-operator''"
    and live: "token_live (clock v (ticks v)) row" and org: "t_org row = None"
    by (simp_all add: operator_row_def token_live_def)
  have "token_by_hash (t_hash row) (db v) = Some row"
    unfolding token_by_hash_def using db_okD(2) [OF later(1)] later(2) by (rule find_unique)
  with h have "token_by_hash (hash_token E ''zed-auth-disabled-operator'') (db v) = Some row" by simp
  from require_token_InrI [OF assms(2) later(3) operator_bearer this live] org
  show ?thesis by auto
qed

section \<open>Acceptance\<close>

text \<open>
  C14: With authentication on and the database answering, a request is accepted as exactly the
  token row whose hash is that of the presented bearer token, and exactly when that row is
  live: not revoked and not past its expiry.
\<close>

theorem require_token_accepts_iff:
  assumes on: "\<not> auth_disabled st" and nf: "faults w (calls w) = None" and ok: "db_ok (db w)"
  shows "(\<exists>w'. require_token E st h w = (Inr row, w')) \<longleftrightarrow>
     row \<in> set (tokens (db w)) \<and> token_live (clock w (ticks w)) row \<and>
     (\<exists>p. bearer_token h = Some p \<and> t_hash row = hash_token E p)"
proof
  assume "\<exists>w'. require_token E st h w = (Inr row, w')"
  then show "row \<in> set (tokens (db w)) \<and> token_live (clock w (ticks w)) row \<and>
     (\<exists>p. bearer_token h = Some p \<and> t_hash row = hash_token E p)"
    using require_token_sound [OF on] by blast
next
  assume r: "row \<in> set (tokens (db w)) \<and> token_live (clock w (ticks w)) row \<and>
     (\<exists>p. bearer_token h = Some p \<and> t_hash row = hash_token E p)"
  then obtain p where p: "bearer_token h = Some p" "t_hash row = hash_token E p" by blast
  have "token_by_hash (hash_token E p) (db w) = Some row"
    unfolding token_by_hash_def p(2) [symmetric] using db_okD(2) [OF ok] r by (blast intro: find_unique)
  with require_token_InrI [OF on nf p(1)] r show "\<exists>w'. require_token E st h w = (Inr row, w')" by blast
qed

end
