(* ===== verification/Audit_Log.thy ===== *)
theory Audit_Log
  imports Auth
begin

text \<open>
  \<open>src/audit.rs\<close>: the per-org append-only hash chain. The append path (\<open>record\<close>,
  \<open>append_chained\<close>), the digest shared with the verifier, and the verifier's walk.
\<close>

definition ADMIN_ROLE :: string where
  "ADMIN_ROLE = ''admin''"

definition APPEND_ATTEMPTS :: nat where
  "APPEND_ATTEMPTS = 4"

definition actor_role :: "token_row \<Rightarrow> string" where
  "actor_role token = (if t_org token = None then ADMIN_ROLE else t_role token)"

definition entry_digest :: "externals \<Rightarrow> chain_input \<Rightarrow> string" where
  "entry_digest E input = sha256_hex E (chain_preimage E input)"

text \<open>The time that is hashed and stored: truncated to microseconds.\<close>

definition chain_timestamp :: "timestamp \<Rightarrow> timestamp" where
  "chain_timestamp now = now div 1000 * 1000"

section \<open>Appending\<close>

text \<open>\<open>ORDER BY seq DESC LIMIT 1\<close> on the org's rows.\<close>

definition audit_tip :: "uuid \<Rightarrow> database \<Rightarrow> audit_row option" where
  "audit_tip org d =
     (case sort_key (\<lambda>r. - a_seq r) (filter (\<lambda>r. a_org r = org) (audits d)) of
        [] \<Rightarrow> None
      | r # _ \<Rightarrow> Some r)"

definition tip_seq :: "audit_row option \<Rightarrow> int" where
  "tip_seq tip = (case tip of None \<Rightarrow> 0 | Some t \<Rightarrow> a_seq t)"

definition tip_hash :: "audit_row option \<Rightarrow> string option" where
  "tip_hash tip =
     (case tip of None \<Rightarrow> None | Some t \<Rightarrow> if a_hash t = [] then None else Some (a_hash t))"

definition or_empty :: "string option \<Rightarrow> string" where
  "or_empty x = (case x of None \<Rightarrow> [] | Some s \<Rightarrow> s)"

definition append_row ::
    "externals \<Rightarrow> uuid \<Rightarrow> token_row \<Rightarrow> audit_action \<Rightarrow> string \<Rightarrow> string option \<Rightarrow>
     audit_row option \<Rightarrow> timestamp \<Rightarrow> uuid \<Rightarrow> audit_row" where
  "append_row E org token action subject detail tip now i =
     (let seq = tip_seq tip + 1;
          prev_hash = tip_hash tip;
          at_time = chain_timestamp now;
          entry_hash = entry_digest E
            \<lparr>ci_org = uuid_str E org, ci_seq = as_u64 seq, ci_at = rfc3339 E at_time,
             ci_action = action_as_str E action, ci_subject = subject,
             ci_token_id = Some (uuid_str E (t_id token)), ci_token_name = t_name token,
             ci_role = actor_role token, ci_detail = detail, ci_prev = or_empty prev_hash\<rparr>
      in \<lparr>a_id = i, a_org = org, a_at = at_time, a_action = action_as_str E action, a_subject = subject,
          a_token_id = Some (t_id token), a_token_name = t_name token, a_role = actor_role token,
          a_detail = detail, a_seq = seq, a_hash = entry_hash, a_prev = prev_hash\<rparr>)"

definition append_chained ::
    "externals \<Rightarrow> app_state \<Rightarrow> uuid \<Rightarrow> token_row \<Rightarrow> audit_action \<Rightarrow> string \<Rightarrow> string option \<Rightarrow>
     (db_err, unit) io" where
  "append_chained E st org token action subject detail =
     in_txn id
       (andThen (if backend st = Postgres then select (\<lambda>_. ()) else ret ()) (\<lambda>_.
        andThen (select (audit_tip org)) (\<lambda>tip.
        andThen utc_now (\<lambda>now.
        andThen new_uuid (\<lambda>i.
        andThen (insert_stmt insert_audit
                   (append_row E org token action subject detail tip now i)) (\<lambda>_.
        ret ()))))))"

fun is_position_taken :: "db_err \<Rightarrow> bool" where
  "is_position_taken UniqueViolation = True"
| "is_position_taken _ = False"

text \<open>The bounded retry of \<open>record\<close>; the result is the error that is logged, if any.\<close>

fun record_loop :: "(db_err, unit) io \<Rightarrow> nat \<Rightarrow> db_err option \<Rightarrow> (api_err, db_err option) io" where
  "record_loop attempt 0 last_error = ret last_error"
| "record_loop attempt (Suc n) last_error =
     inspect attempt (\<lambda>r.
       case r of
         Inr _ \<Rightarrow> ret None
       | Inl error \<Rightarrow>
           if is_position_taken error then record_loop attempt n (Some error)
           else ret (Some error))"

definition record_audit ::
    "externals \<Rightarrow> app_state \<Rightarrow> uuid \<Rightarrow> token_row \<Rightarrow> audit_action \<Rightarrow> string \<Rightarrow> string option \<Rightarrow>
     (api_err, db_err option) io" where
  "record_audit E st org token action subject detail =
     record_loop (append_chained E st org token action subject detail) APPEND_ATTEMPTS None"

section \<open>Verifying\<close>

definition row_input :: "externals \<Rightarrow> audit_row \<Rightarrow> string \<Rightarrow> chain_input" where
  "row_input E row prev_hash =
     \<lparr>ci_org = uuid_str E (a_org row), ci_seq = as_u64 (a_seq row), ci_at = rfc3339 E (a_at row),
      ci_action = a_action row, ci_subject = a_subject row,
      ci_token_id = map_option (uuid_str E) (a_token_id row), ci_token_name = a_token_name row,
      ci_role = a_role row, ci_detail = a_detail row, ci_prev = prev_hash\<rparr>"

definition expected_hash :: "externals \<Rightarrow> audit_row \<Rightarrow> string \<Rightarrow> string" where
  "expected_hash E row prev_hash = entry_digest E (row_input E row prev_hash)"

datatype chain_problem = HashMismatch | BrokenLink | SequenceGap

fun problem_as_str :: "chain_problem \<Rightarrow> string" where
  "problem_as_str HashMismatch = ''hash_mismatch''"
| "problem_as_str BrokenLink = ''broken_link''"
| "problem_as_str SequenceGap = ''sequence_gap''"

record chain_report =
  rep_intact :: bool
  rep_checked :: nat
  rep_first_bad :: "int option"
  rep_problem :: "chain_problem option"
  rep_head :: "string option"

definition chained :: "audit_row \<Rightarrow> bool" where
  "chained r \<longleftrightarrow> 0 < a_seq r \<and> a_hash r \<noteq> []"

fun verify_loop ::
    "externals \<Rightarrow> audit_row list \<Rightarrow> string \<Rightarrow> int option \<Rightarrow> nat \<Rightarrow> string option \<Rightarrow> chain_report" where
  "verify_loop E [] prev_hash expected_seq checked head =
     \<lparr>rep_intact = True, rep_checked = checked, rep_first_bad = None, rep_problem = None,
      rep_head = head\<rparr>"
| "verify_loop E (row # rows) prev_hash expected_seq checked head =
     (if expected_seq \<noteq> None \<and> expected_seq \<noteq> Some (a_seq row) then
        \<lparr>rep_intact = False, rep_checked = checked, rep_first_bad = expected_seq,
         rep_problem = Some SequenceGap, rep_head = head\<rparr>
      else if expected_hash E row prev_hash \<noteq> a_hash row then
        \<lparr>rep_intact = False, rep_checked = checked, rep_first_bad = Some (a_seq row),
         rep_problem =
           Some (if expected_hash E row (or_empty (a_prev row)) = a_hash row then BrokenLink
                 else HashMismatch),
         rep_head = head\<rparr>
      else verify_loop E rows (a_hash row) (Some (a_seq row + 1)) (checked + 1) (Some (a_hash row)))"

definition verify_chain :: "externals \<Rightarrow> audit_row list \<Rightarrow> chain_report" where
  "verify_chain E rows = verify_loop E (filter chained rows) [] None 0 None"

section \<open>The specification of the walk\<close>

text \<open>
  A list of rows is a chain from \<open>prev\<close> at position \<open>want\<close>: contiguous positions, and every
  stored hash is the digest of the row's contents and of its predecessor's stored hash.
\<close>

fun chain_ok :: "externals \<Rightarrow> string \<Rightarrow> int option \<Rightarrow> audit_row list \<Rightarrow> bool" where
  "chain_ok E prev want [] \<longleftrightarrow> True"
| "chain_ok E prev want (r # rs) \<longleftrightarrow>
     (want = None \<or> want = Some (a_seq r)) \<and> a_hash r = expected_hash E r prev \<and>
     chain_ok E (a_hash r) (Some (a_seq r + 1)) rs"

text \<open>The hash and the position after a list of rows, and the inputs it hashes.\<close>

fun end_hash :: "string \<Rightarrow> audit_row list \<Rightarrow> string" where
  "end_hash prev [] = prev"
| "end_hash prev (r # rs) = end_hash (a_hash r) rs"

fun end_seq :: "int option \<Rightarrow> audit_row list \<Rightarrow> int option" where
  "end_seq want [] = want"
| "end_seq want (r # rs) = end_seq (Some (a_seq r + 1)) rs"

fun chain_inputs :: "externals \<Rightarrow> string \<Rightarrow> audit_row list \<Rightarrow> chain_input list" where
  "chain_inputs E prev [] = []"
| "chain_inputs E prev (r # rs) = row_input E r prev # chain_inputs E (a_hash r) rs"

lemma end_hash_snoc [simp]: "end_hash prev (rs @ [r]) = a_hash r"
  by (induction rs arbitrary: prev) auto

lemma end_seq_snoc [simp]: "end_seq want (rs @ [r]) = Some (a_seq r + 1)"
  by (induction rs arbitrary: want) auto

lemma chain_ok_append:
  "chain_ok E prev want (xs @ ys) \<longleftrightarrow>
     chain_ok E prev want xs \<and> chain_ok E (end_hash prev xs) (end_seq want xs) ys"
  by (induction xs arbitrary: prev want) auto

lemma chain_inputs_append:
  "chain_inputs E prev (xs @ ys) = chain_inputs E prev xs @ chain_inputs E (end_hash prev xs) ys"
  by (induction xs arbitrary: prev) auto

lemma verify_loop_ok:
  "chain_ok E prev want rows \<Longrightarrow>
     verify_loop E rows prev want n h =
       \<lparr>rep_intact = True, rep_checked = n + length rows, rep_first_bad = None, rep_problem = None,
        rep_head = (if rows = [] then h else Some (a_hash (last rows)))\<rparr>"
  by (induction rows arbitrary: prev want n h) auto

lemma verify_loop_intact: "rep_intact (verify_loop E rows prev want n h) \<longleftrightarrow> chain_ok E prev want rows"
  by (induction rows arbitrary: prev want n h) auto

text \<open>The walk goes through a good prefix and then reports on the rest.\<close>

lemma verify_loop_append:
  "chain_ok E prev want xs \<Longrightarrow>
     verify_loop E (xs @ ys) prev want n h =
       verify_loop E ys (end_hash prev xs) (end_seq want xs) (n + length xs)
         (if xs = [] then h else Some (a_hash (last xs)))"
  by (induction xs arbitrary: prev want n h) auto

lemma verify_chain_intact:
  "rep_intact (verify_chain E rows) \<longleftrightarrow> chain_ok E [] None (filter chained rows)"
  by (simp add: verify_chain_def verify_loop_intact)

lemma verify_chain_report:
  "chain_ok E [] None (filter chained rows) \<Longrightarrow>
     verify_chain E rows =
       \<lparr>rep_intact = True, rep_checked = length (filter chained rows), rep_first_bad = None,
        rep_problem = None,
        rep_head = (if filter chained rows = [] then None
                    else Some (a_hash (last (filter chained rows))))\<rparr>"
  by (simp add: verify_chain_def verify_loop_ok)

lemma filter_chained_id: "\<forall>r\<in>set rows. chained r \<Longrightarrow> filter chained rows = rows"
  by (induction rows) auto

end
