(* ===== verification/Audit_Props.thy ===== *)
theory Audit_Props
  imports Audit_Log
begin

text \<open>
  What the chain promises. The append path keeps an org's log verifiable and leaves every other
  org's log alone; the verifier finds a deleted, an edited and a re-linked entry; and an
  externally recorded head hash pins the whole verified history, up to an explicit collision
  of the digest.
\<close>

section \<open>Appending\<close>

definition org_rows :: "uuid \<Rightarrow> database \<Rightarrow> audit_row list" where
  "org_rows org d = filter (\<lambda>r. a_org r = org) (audits d)"

definition org_log :: "uuid \<Rightarrow> database \<Rightarrow> audit_row list" where
  "org_log org d = sort_key a_seq (org_rows org d)"

lemma set_org_log [simp]: "set (org_log org d) = set (org_rows org d)"
  by (simp add: org_log_def)

lemma distinct_org_seqs: "db_ok d \<Longrightarrow> distinct (map a_seq (org_rows org d))"
proof -
  assume "db_ok d"
  then have dist: "distinct (map audit_key (audits d))" by (rule db_okD)
  have "inj_on a_seq (set (org_rows org d))"
    using dist by (auto simp: inj_on_def org_rows_def audit_key_def dest: distinct_map_unique)
  moreover have "distinct (org_rows org d)"
    using dist by (auto simp: org_rows_def distinct_map)
  ultimately show ?thesis by (simp add: distinct_map)
qed

lemma audit_tip_None: "audit_tip org d = None \<longleftrightarrow> org_rows org d = []"
proof -
  have "sort_key (\<lambda>r. - a_seq r) (org_rows org d) = [] \<longleftrightarrow> org_rows org d = []"
    by (metis length_0_conv length_sort)
  then show ?thesis
    by (auto simp: audit_tip_def org_rows_def split: list.splits)
qed

lemma audit_tip_Some:
  assumes "audit_tip org d = Some t"
  shows "t \<in> set (org_rows org d)" "\<And>r. r \<in> set (org_rows org d) \<Longrightarrow> a_seq r \<le> a_seq t"
proof -
  obtain rs where rs: "sort_key (\<lambda>r. - a_seq r) (org_rows org d) = t # rs"
    using assms by (auto simp: audit_tip_def org_rows_def split: list.splits)
  have set: "set (org_rows org d) = set (t # rs)" by (metis rs set_sort)
  then show "t \<in> set (org_rows org d)" by simp
  fix r assume "r \<in> set (org_rows org d)"
  moreover have "sorted (map (\<lambda>r. - a_seq r) (t # rs))" by (metis rs sorted_sort_key)
  ultimately show "a_seq r \<le> a_seq t" using set by auto
qed

lemma tip_seq_max: "r \<in> set (org_rows org d) \<Longrightarrow> a_seq r \<le> tip_seq (audit_tip org d)"
  by (cases "audit_tip org d")
    (auto simp: audit_tip_None tip_seq_def dest: audit_tip_Some)

lemma org_log_snoc:
  assumes "db_ok d" "db_ok (d\<lparr>audits := audits d @ [x]\<rparr>)" "a_org x = org"
    and above: "\<And>r. r \<in> set (org_rows org d) \<Longrightarrow> a_seq r < a_seq x"
  shows "org_log org (d\<lparr>audits := audits d @ [x]\<rparr>) = org_log org d @ [x]"
proof (rule sorted_key_unique [where f = a_seq])
  let ?d = "d\<lparr>audits := audits d @ [x]\<rparr>"
  show "sorted (map a_seq (org_log org ?d))" by (simp add: org_log_def)
  show "sorted (map a_seq (org_log org d @ [x]))"
    using above by (auto simp: sorted_append org_log_def intro: less_imp_le)
  have rows: "org_rows org ?d = org_rows org d @ [x]" using assms(3) by (simp add: org_rows_def)
  show "mset (org_log org ?d) = mset (org_log org d @ [x])"
    by (simp add: org_log_def rows)
  have "mset (map a_seq (org_log org ?d)) = mset (map a_seq (org_rows org ?d))"
    by (simp add: org_log_def)
  then show "distinct (map a_seq (org_log org ?d))"
    using distinct_org_seqs [OF assms(2), of org] by (metis mset_eq_imp_distinct_iff)
qed

lemma org_log_last:
  assumes "db_ok d" "audit_tip org d = Some t"
  shows "\<exists>xs. org_log org d = xs @ [t]"
proof -
  have ne: "org_log org d \<noteq> []" using assms(2) audit_tip_Some(1) by (metis empty_iff empty_set set_org_log)
  then obtain xs l where l: "org_log org d = xs @ [l]" by (metis rev_exhaust)
  have "sorted (map a_seq (xs @ [l]))" using l by (metis org_log_def sorted_sort_key)
  then have max: "a_seq r \<le> a_seq l" if "r \<in> set (org_rows org d)" for r
    using that l by (auto simp: sorted_append simp flip: set_org_log)
  have lin: "l \<in> set (org_rows org d)" by (metis in_set_conv_decomp l set_org_log)
  have "a_seq t = a_seq l"
    using max audit_tip_Some [OF assms(2)] lin by (meson order_antisym)
  then have "t = l"
    using distinct_map_unique [OF distinct_org_seqs [OF assms(1)]] audit_tip_Some(1) [OF assms(2)] lin
    by blast
  with l show ?thesis by blast
qed

text \<open>
  The state of a log the server wrote: rows from before the chain (no hash) come first, and
  from the first hashed row on the rows are a chain.
\<close>

definition chain_part :: "audit_row list \<Rightarrow> audit_row list" where
  "chain_part rows = dropWhile (\<lambda>r. a_hash r = []) rows"

definition log_ok :: "externals \<Rightarrow> audit_row list \<Rightarrow> bool" where
  "log_ok E rows \<longleftrightarrow>
     (\<forall>r\<in>set rows. 0 \<le> a_seq r) \<and> (\<forall>r\<in>set (chain_part rows). chained r) \<and>
     chain_ok E [] None (chain_part rows)"

lemma filter_chained_log:
  assumes "\<forall>r\<in>set (chain_part rows). chained r"
  shows "filter chained rows = chain_part rows"
proof -
  have "rows = takeWhile (\<lambda>r. a_hash r = []) rows @ chain_part rows" by (simp add: chain_part_def)
  moreover have "filter chained (takeWhile (\<lambda>r. a_hash r = []) rows) = []"
    by (auto simp: filter_empty_conv chained_def dest: set_takeWhileD)
  ultimately show ?thesis
    using assms by (metis append_Nil filter_append filter_chained_id)
qed

lemma dropWhile_all_hashed:
  "\<forall>r\<in>set rows. a_hash r \<noteq> [] \<Longrightarrow> dropWhile (\<lambda>r. a_hash r = []) rows = rows"
  by (cases rows) auto

lemma log_ok_report:
  "log_ok E rows \<Longrightarrow>
     verify_chain E rows =
       \<lparr>rep_intact = True, rep_checked = length (chain_part rows), rep_first_bad = None,
        rep_problem = None,
        rep_head = (if chain_part rows = [] then None else Some (a_hash (last (chain_part rows))))\<rparr>"
  using verify_chain_report [of E rows] by (simp add: log_ok_def filter_chained_log)

lemma chain_part_snoc:
  "chain_part (rows @ [x]) =
     (if chain_part rows = [] then (if a_hash x = [] then [] else [x]) else chain_part rows @ [x])"
  by (induction rows) (auto simp: chain_part_def)

lemma append_row_simps [simp]:
  "a_org (append_row E org tok act sub det tip now i) = org"
  "a_seq (append_row E org tok act sub det tip now i) = tip_seq tip + 1"
  "a_id (append_row E org tok act sub det tip now i) = i"
  "a_action (append_row E org tok act sub det tip now i) = action_as_str E act"
  "a_subject (append_row E org tok act sub det tip now i) = sub"
  "a_detail (append_row E org tok act sub det tip now i) = det"
  "a_token_id (append_row E org tok act sub det tip now i) = Some (t_id tok)"
  "a_token_name (append_row E org tok act sub det tip now i) = t_name tok"
  "a_role (append_row E org tok act sub det tip now i) = actor_role tok"
  "a_prev (append_row E org tok act sub det tip now i) = tip_hash tip"
  by (simp_all add: append_row_def Let_def)

text \<open>The append path and the verifier hash the same input.\<close>

lemma append_row_hash:
  "a_hash (append_row E org tok act sub det tip now i) =
     expected_hash E (append_row E org tok act sub det tip now i) (or_empty (tip_hash tip))"
  by (simp add: append_row_def Let_def expected_hash_def row_input_def)

lemma append_chained_Inr:
  assumes "append_chained E st org tok act sub det w = (Inr u, w')"
  shows "\<exists>now i. let x = append_row E org tok act sub det (audit_tip org (db w)) now i
                 in insert_audit x (db w) = Inr (db w') \<and> db w' = (db w)\<lparr>audits := audits (db w) @ [x]\<rparr>"
  using assms
  by (auto simp: append_chained_def in_txn_Inr andThen_Inr select_Inr utc_now_Inr new_uuid_Inr
      insert_stmt_Inr insert_audit_Inr Let_def split: if_splits)

lemma append_log_ok:
  assumes "db_ok d" "insert_audit x d = Inr d'"
    and x: "x = append_row E org tok act sub det (audit_tip org d) now i"
    and ok: "log_ok E (org_log org d)" and ne: "\<And>s. sha256_hex E s \<noteq> []"
  shows "org_log org d' = org_log org d @ [x] \<and> log_ok E (org_log org d @ [x])"
proof
  have d': "d' = d\<lparr>audits := audits d @ [x]\<rparr>" using assms(2) by (simp add: insert_audit_Inr)
  have above: "a_seq r < a_seq x" if "r \<in> set (org_rows org d)" for r
    using tip_seq_max [OF that] x by simp
  show snoc: "org_log org d' = org_log org d @ [x]"
    unfolding d' using assms(1) insert_audit_ok [OF assms(1,2)] x above
    by (intro org_log_snoc) (auto simp: d')
  have tip0: "0 \<le> tip_seq (audit_tip org d)"
    using ok audit_tip_Some(1) by (cases "audit_tip org d") (auto simp: tip_seq_def log_ok_def)
  have hash: "a_hash x = expected_hash E x (or_empty (tip_hash (audit_tip org d)))"
    unfolding x by (rule append_row_hash)
  have xc: "chained x" "0 \<le> a_seq x" "a_hash x \<noteq> []"
    using tip0 ne hash x by (auto simp: chained_def expected_hash_def entry_digest_def)
  have "chain_ok E (end_hash [] (chain_part (org_log org d))) (end_seq None (chain_part (org_log org d))) [x]"
  proof (cases "audit_tip org d")
    case None
    then have "org_log org d = []" by (metis audit_tip_None empty_set set_empty set_org_log)
    then show ?thesis using hash None by (simp add: chain_part_def tip_hash_def or_empty_def)
  next
    case (Some t)
    then obtain xs where xs: "org_log org d = xs @ [t]" using org_log_last [OF assms(1)] by blast
    show ?thesis
    proof (cases "chain_part (org_log org d) = []")
      case True
      then have "a_hash t = []" by (auto simp: xs chain_part_def)
      then show ?thesis using hash Some True by (simp add: tip_hash_def or_empty_def)
    next
      case False
      then obtain ys where ys: "chain_part (org_log org d) = ys @ [t]"
        unfolding xs chain_part_snoc by (auto split: if_splits)
      then have "a_hash t \<noteq> []" using ok by (auto simp: log_ok_def chained_def)
      then show ?thesis using hash Some x by (simp add: ys tip_hash_def or_empty_def tip_seq_def)
    qed
  qed
  with ok xc show "log_ok E (org_log org d @ [x])"
    by (auto simp: log_ok_def chain_part_snoc chain_ok_append)
qed

lemma append_other_org:
  "a_org x \<noteq> org' \<Longrightarrow> org_log org' (d\<lparr>audits := audits d @ [x]\<rparr>) = org_log org' d"
  by (simp add: org_log_def org_rows_def)

section \<open>The best-effort contract of record\<close>

text \<open>Everything but the audit table is untouched, on every schedule.\<close>

definition same_but_audits :: "database \<Rightarrow> database \<Rightarrow> bool" where
  "same_but_audits d d' \<longleftrightarrow> (\<exists>as. d' = d\<lparr>audits := as\<rparr>)"

lemma same_but_audits_simps:
  "same_but_audits d d' \<Longrightarrow> orgs d' = orgs d \<and> tokens d' = tokens d \<and> packages d' = packages d \<and>
     versions d' = versions d \<and> embeddings d' = embeddings d"
  by (auto simp: same_but_audits_def)

lemma append_chained_keeps:
  assumes "\<And>x d d'. P d \<Longrightarrow> insert_audit x d = Inr d' \<Longrightarrow> P d'"
  shows "keeps P (append_chained E st org tok act sub det)"
  unfolding append_chained_def by (intro keeps_intro) (use assms in blast)

lemma record_loop_keeps: "keeps P app \<Longrightarrow> keeps P (record_loop app n e)"
  by (induction n arbitrary: e) (auto intro!: keeps_intro)

lemma record_loop_keeps_store: "keeps_store app \<Longrightarrow> keeps_store (record_loop app n e)"
  by (induction n arbitrary: e) (auto intro!: keeps_intro split: sum.splits)

lemma append_chained_keeps_store: "keeps_store (append_chained E st org tok act sub det)"
  unfolding append_chained_def by (intro keeps_intro)

lemma record_audit_keeps_store [keeps_intro]: "keeps_store (record_audit E st org tok act sub det)"
  unfolding record_audit_def by (intro record_loop_keeps_store append_chained_keeps_store)

lemma record_audit_keeps:
  assumes "\<And>x d d'. P d \<Longrightarrow> insert_audit x d = Inr d' \<Longrightarrow> P d'"
  shows "keeps P (record_audit E st org tok act sub det)"
  unfolding record_audit_def by (intro record_loop_keeps append_chained_keeps) (rule assms)

lemma record_audit_keeps_db_ok [keeps_intro]: "keeps db_ok (record_audit E st org tok act sub det)"
  by (rule record_audit_keeps) (rule insert_audit_ok)

lemma record_audit_frame:
  "same_but_audits (db w) (db (snd (record_audit E st org tok act sub det w)))"
proof -
  have "keeps (same_but_audits (db w)) (record_audit E st org tok act sub det)"
    by (rule record_audit_keeps) (auto simp: same_but_audits_def insert_audit_Inr)
  moreover have "same_but_audits (db w) (db w)"
    unfolding same_but_audits_def by (rule exI [of _ "audits (db w)"]) simp
  ultimately show ?thesis unfolding keeps_def by blast
qed

lemma record_audit_frameD:
  "record_audit E st org tok act sub det w = (r, w') \<Longrightarrow> same_but_audits (db w) (db w')"
  using record_audit_frame [of w E st org tok act sub det] by simp

text \<open>It never fails the request.\<close>

lemma record_loop_total: "\<exists>e w'. record_loop app n e0 w = (Inr e, w')"
  by (induction n arbitrary: e0 w) (auto simp: inspect_def split: prod.splits sum.splits)

lemma record_audit_no_error [simp]: "record_audit E st org tok act sub det w \<noteq> (Inl e, w')"
  unfolding record_audit_def using record_loop_total by (metis Inl_Inr_False prod.inject)

lemma append_chained_Inl_db:
  "append_chained E st org tok act sub det w = (Inl e, w') \<Longrightarrow> db w' = db w"
  unfolding append_chained_def by (rule in_txn_Inl_db)

text \<open>At most one row is written, and only by the attempt that succeeded.\<close>

lemma record_loop_effect:
  assumes "record_loop (append_chained E st org tok act sub det) n e0 w = (Inr e, w')"
  shows "(e = None \<longrightarrow> (db w' = db w \<and> n = 0) \<or>
            (\<exists>v v'. db v = db w \<and> append_chained E st org tok act sub det v = (Inr (), v') \<and> db w' = db v')) \<and>
         (e \<noteq> None \<longrightarrow> db w' = db w)"
  using assms
proof (induction n arbitrary: e0 w)
  case (Suc n)
  show ?case
  proof (cases "append_chained E st org tok act sub det w")
    case (Pair r v)
    show ?thesis
    proof (cases r)
      case (Inr u)
      with Suc.prems Pair show ?thesis by (auto simp: inspect_def)
    next
      case (Inl err)
      with Pair have dbv: "db v = db w" by (simp add: append_chained_Inl_db)
      show ?thesis
      proof (cases "is_position_taken err \<and> n \<noteq> 0")
        case True
        with Suc.prems Pair Inl have "record_loop (append_chained E st org tok act sub det) n (Some err) v = (Inr e, w')"
          by (simp add: inspect_def)
        from Suc.IH [OF this] True dbv show ?thesis by (cases e) auto
      next
        case False
        with Suc.prems Pair Inl dbv show ?thesis
          by (cases n) (auto simp: inspect_def split: if_splits)
      qed
    qed
  qed
qed simp

lemma record_audit_effect:
  assumes "record_audit E st org tok act sub det w = (Inr e, w')"
  shows "if e = None
         then \<exists>now i. let x = append_row E org tok act sub det (audit_tip org (db w)) now i
                      in insert_audit x (db w) = Inr (db w') \<and> db w' = (db w)\<lparr>audits := audits (db w) @ [x]\<rparr>
         else db w' = db w"
proof (cases "e = None")
  case True
  then obtain v v' where dv: "db v = db w" "db w' = db v'"
    and app: "append_chained E st org tok act sub det v = (Inr (), v')"
    using record_loop_effect [of E st org tok act sub det APPEND_ATTEMPTS None w e w'] assms
    by (auto simp: record_audit_def APPEND_ATTEMPTS_def)
  show ?thesis using append_chained_Inr [OF app] True by (simp only: dv simp_thms if_True)
next
  case False
  then have "db w' = db w"
    using record_loop_effect [of E st org tok act sub det APPEND_ATTEMPTS None w e w'] assms
    by (simp add: record_audit_def)
  with False show ?thesis by (simp only: if_False simp_thms)
qed

section \<open>Tampering\<close>

text \<open>
  A collision of the digest between two different inputs: what every statement about detection
  leaves as the only way out.
\<close>

definition collision :: "externals \<Rightarrow> chain_input \<Rightarrow> chain_input \<Rightarrow> bool" where
  "collision E i j \<longleftrightarrow> i \<noteq> j \<and> entry_digest E i = entry_digest E j"

lemma expected_hash_prev_cases:
  "p \<noteq> q \<Longrightarrow> expected_hash E r p = expected_hash E r q \<Longrightarrow> collision E (row_input E r p) (row_input E r q)"
  by (auto simp: collision_def expected_hash_def row_input_def)

lemma chain_ok_middle:
  "chain_ok E prev want (xs @ r # ys) \<longleftrightarrow>
     chain_ok E prev want xs \<and> (end_seq want xs = None \<or> end_seq want xs = Some (a_seq r)) \<and>
     a_hash r = expected_hash E r (end_hash prev xs) \<and>
     chain_ok E (a_hash r) (Some (a_seq r + 1)) ys"
  by (simp add: chain_ok_append)

lemma end_seq_nonempty: "xs \<noteq> [] \<Longrightarrow> end_seq want xs = Some (a_seq (last xs) + 1)"
  by (metis append_butlast_last_id end_seq_snoc)

lemma end_hash_nonempty: "xs \<noteq> [] \<Longrightarrow> end_hash prev xs = a_hash (last xs)"
  by (metis append_butlast_last_id end_hash_snoc)

text \<open>A verified prefix is passed; the report is then about the rest.\<close>

lemma verify_chain_split:
  assumes "\<forall>r\<in>set (xs @ ys). chained r" "chain_ok E [] None xs"
  shows "verify_chain E (xs @ ys) =
     verify_loop E ys (end_hash [] xs) (end_seq None xs) (length xs)
       (if xs = [] then None else Some (a_hash (last xs)))"
  unfolding verify_chain_def filter_chained_id [OF assms(1)]
  using verify_loop_append [OF assms(2)] by simp

text \<open>
  C24: An audit entry deleted from the middle of a chain is reported as a gap at its position,
  after the entries before it were checked.
\<close>

theorem deletion_reported:
  assumes "\<forall>r\<in>set (xs @ r # y # ys). chained r" "xs \<noteq> []"
    and "chain_ok E [] None (xs @ r # y # ys)"
  shows "verify_chain E (xs @ y # ys) =
     \<lparr>rep_intact = False, rep_checked = length xs, rep_first_bad = Some (a_seq r),
      rep_problem = Some SequenceGap, rep_head = Some (a_hash (last xs))\<rparr>"
proof -
  have xs: "chain_ok E [] None xs" and r: "end_seq None xs = Some (a_seq r)"
    and y: "a_seq y = a_seq r + 1"
    using assms(2,3) by (auto simp: chain_ok_middle end_seq_nonempty)
  have "\<forall>r\<in>set (xs @ y # ys). chained r" using assms(1) by auto
  from verify_chain_split [OF this xs] r y assms(2) show ?thesis by simp
qed

text \<open>The first entry has no predecessor in the walk, so its deletion shows as a broken link.\<close>

lemma first_deletion_reported:
  assumes "\<forall>r\<in>set (r # y # ys). chained r" "chain_ok E [] None (r # y # ys)"
    and "a_prev y = Some (a_hash r)"
  shows "verify_chain E (y # ys) =
      \<lparr>rep_intact = False, rep_checked = 0, rep_first_bad = Some (a_seq y),
       rep_problem = Some BrokenLink, rep_head = None\<rparr> \<or>
    collision E (row_input E y []) (row_input E y (a_hash r))"
proof (cases "expected_hash E y [] = a_hash y")
  case True
  then have "expected_hash E y [] = expected_hash E y (a_hash r)" using assms(2) by simp
  moreover have "[] \<noteq> a_hash r" using assms(1) by (auto simp: chained_def)
  ultimately show ?thesis using expected_hash_prev_cases by blast
next
  case False
  have "\<forall>r\<in>set (y # ys). chained r" using assms(1) by auto
  then have "verify_chain E (y # ys) = verify_loop E (y # ys) [] None 0 None"
    by (simp only: verify_chain_def filter_chained_id)
  with False assms show ?thesis by (simp add: or_empty_def)
qed

text \<open>An edited entry that keeps its position and its recorded hash.\<close>


text \<open>An edited entry whose own hash is recomputed: the next entry gives it away.\<close>

lemma rehash_reported:
  assumes "\<forall>r\<in>set (xs @ r # y # ys). chained r" "chain_ok E [] None (xs @ r # y # ys)"
    and "a_seq r' = a_seq r" "a_hash r' = expected_hash E r' (end_hash [] xs)"
    and "a_hash r' \<noteq> a_hash r" "a_hash r' \<noteq> []"
  shows "(let rep = verify_chain E (xs @ r' # y # ys)
          in \<not> rep_intact rep \<and> rep_first_bad rep = Some (a_seq y) \<and> rep_checked rep = Suc (length xs)) \<or>
         collision E (row_input E y (a_hash r')) (row_input E y (a_hash r))"
proof (cases "expected_hash E y (a_hash r') = a_hash y")
  case True
  then have "expected_hash E y (a_hash r') = expected_hash E y (a_hash r)"
    using assms(2) by (simp add: chain_ok_middle)
  with assms(5) expected_hash_prev_cases show ?thesis by blast
next
  case False
  have c: "\<forall>q\<in>set ((xs @ [r']) @ y # ys). chained q" using assms by (auto simp: chained_def)
  have "chain_ok E [] None (xs @ [r'])" and y: "a_seq y = a_seq r' + 1"
    using assms by (auto simp: chain_ok_append)
  from verify_chain_split [OF c this(1)] False y show ?thesis by (auto simp: Let_def)
qed

text \<open>The walk never reads the stored \<open>prev_hash\<close> of an entry whose hash is right.\<close>

lemma chain_ok_prev_irrelevant:
  "chain_ok E prev want (map (\<lambda>r. r\<lparr>a_prev := f r\<rparr>) rows) \<longleftrightarrow> chain_ok E prev want rows"
  by (induction rows arbitrary: prev want) (auto simp: expected_hash_def row_input_def)

text \<open>
  The stored \<open>prev_hash\<close> column is never consulted for a log that verifies: it can be rewritten
  arbitrarily and the report stays the same.
\<close>

theorem prev_column_unchecked:
  assumes "rep_intact (verify_chain E rows)"
  shows "verify_chain E (map (\<lambda>r. r\<lparr>a_prev := f r\<rparr>) rows) = verify_chain E rows"
proof -
  let ?rows = "map (\<lambda>r. r\<lparr>a_prev := f r\<rparr>) rows"
  have fil: "filter chained ?rows = map (\<lambda>r. r\<lparr>a_prev := f r\<rparr>) (filter chained rows)"
    by (induction rows) (auto simp: chained_def)
  have ok: "chain_ok E [] None (filter chained rows)" using assms by (simp add: verify_chain_intact)
  then have "chain_ok E [] None (filter chained ?rows)"
    by (simp only: fil chain_ok_prev_irrelevant)
  then show ?thesis
    using verify_chain_report [OF ok] verify_chain_report [of E ?rows]
    by (simp add: fil last_map)
qed

section \<open>The head hash as an external anchor\<close>

lemma chain_inputs_snoc:
  "chain_inputs E [] (xs @ [x]) = chain_inputs E [] xs @ [row_input E x (end_hash [] xs)]"
  by (simp add: chain_inputs_append)

lemma anchored_inputs:
  assumes "chain_ok E [] None xs" "chain_ok E [] None ys"
    and "\<forall>r\<in>set xs \<union> set ys. a_hash r \<noteq> []" "end_hash [] xs = end_hash [] ys"
  shows "chain_inputs E [] xs = chain_inputs E [] ys \<or>
     (\<exists>i\<in>set (chain_inputs E [] xs). \<exists>j\<in>set (chain_inputs E [] ys). collision E i j)"
  using assms
proof (induction xs arbitrary: ys rule: rev_induct)
  case Nil
  then have "ys = []" by (cases ys rule: rev_cases) auto
  then show ?case by simp
next
  case (snoc x xs)
  then obtain y zs where ys: "ys = zs @ [y]" by (cases ys rule: rev_cases) auto
  let ?i = "row_input E x (end_hash [] xs)" and ?j = "row_input E y (end_hash [] zs)"
  have "entry_digest E ?i = entry_digest E ?j"
    using snoc.prems by (auto simp: ys chain_ok_append expected_hash_def)
  then consider "collision E ?i ?j" | "?i = ?j" by (auto simp: collision_def)
  then show ?case
  proof cases
    case 1
    then show ?thesis by (auto simp: ys chain_inputs_snoc)
  next
    case 2
    then have "end_hash [] xs = end_hash [] zs" by (simp add: row_input_def)
    moreover have "chain_ok E [] None xs" "chain_ok E [] None zs"
      using snoc.prems by (auto simp: ys chain_ok_append)
    ultimately have "chain_inputs E [] xs = chain_inputs E [] zs \<or>
        (\<exists>i\<in>set (chain_inputs E [] xs). \<exists>j\<in>set (chain_inputs E [] zs). collision E i j)"
      using snoc.IH snoc.prems(3) ys by auto
    with 2 show ?thesis by (auto simp: ys chain_inputs_snoc)
  qed
qed

lemma report_head:
  "rep_intact (verify_chain E rows) \<Longrightarrow>
     rep_head (verify_chain E rows) =
       (if filter chained rows = [] then None else Some (end_hash [] (filter chained rows)))"
  using verify_chain_report [of E rows]
  by (simp add: verify_chain_intact end_hash_nonempty)


lemma truncation_intact:
  assumes "rep_intact (verify_chain E (xs @ ys))"
  shows "rep_intact (verify_chain E xs)"
  using assms by (simp add: verify_chain_intact chain_ok_append)

lemma legacy_skipped: "verify_chain E (filter chained rows) = verify_chain E rows"
  by (simp add: verify_chain_def)

section \<open>The append as a specification\<close>

text \<open>
  An audit append either logs its error and leaves the database untouched, or extends the
  org's chain by exactly one entry linked to the previous tip, leaving every other org's log
  and every other table alone.
\<close>

lemma audit_append:
  assumes ok: "db_ok (db w)" "log_ok E (org_log org (db w))" and ne: "\<And>s. sha256_hex E s \<noteq> []"
    and run: "record_audit E st org tok act sub det w = (Inr e, w')"
  shows "case e of
      Some _ \<Rightarrow> db w' = db w
    | None \<Rightarrow> \<exists>now i. let x = append_row E org tok act sub det (audit_tip org (db w)) now i in
        org_log org (db w') = org_log org (db w) @ [x] \<and> log_ok E (org_log org (db w')) \<and>
        (\<forall>o'. o' \<noteq> org \<longrightarrow> org_log o' (db w') = org_log o' (db w)) \<and> same_but_audits (db w) (db w')"
proof (cases e)
  case None
  with record_audit_effect [OF run] obtain now i x where
    x: "x = append_row E org tok act sub det (audit_tip org (db w)) now i"
    and ins: "insert_audit x (db w) = Inr (db w')" and d': "db w' = (db w)\<lparr>audits := audits (db w) @ [x]\<rparr>"
    by (auto simp: Let_def)
  note l = append_log_ok [OF ok(1) ins x ok(2) ne]
  have "org_log o' (db w') = org_log o' (db w)" if "o' \<noteq> org" for o'
    unfolding d' using that by (intro append_other_org) (simp add: x)
  with l x None record_audit_frameD [OF run] show ?thesis
    by (auto simp: Let_def intro!: exI [of _ now] exI [of _ i])
next
  case (Some a)
  with record_audit_effect [OF run] show ?thesis by simp
qed

end
