(* ===== verification/Files.thy ===== *)
theory Files
  imports World
begin

text \<open>
  \<open>src/files.rs\<close>: serving one file out of a stored archive. The inflation budget
  (\<open>BudgetReader\<close>), the search for the entry, the cap on what is read, and the response headers
  that keep author-published content inert; and \<open>From<ExtractError>\<close> of \<open>src/error.rs\<close>.
\<close>

definition IMMUTABLE_CACHE :: string where
  "IMMUTABLE_CACHE = ''public, max-age=31536000, immutable''"

definition MAX_SERVED_FILE_BYTES :: nat where
  "MAX_SERVED_FILE_BYTES = 25 * 1024 * 1024"

definition DEFAULT_MAX_INFLATED_BYTES :: nat where
  "DEFAULT_MAX_INFLATED_BYTES = 512 * 1024 * 1024"

definition max_inflated_bytes :: "app_state \<Rightarrow> nat" where
  "max_inflated_bytes st =
     (case Option.bind (environ st ''ZED_MAX_INFLATED_BYTES'') parse_u64 of
        None \<Rightarrow> DEFAULT_MAX_INFLATED_BYTES
      | Some v \<Rightarrow> if v > 0 then v else DEFAULT_MAX_INFLATED_BYTES)"

datatype extract_error = TooLarge | InflationBudgetExceeded | Archive string

definition INFLATION_BUDGET_MSG :: string where
  "INFLATION_BUDGET_MSG = ''zed: archive exceeded the decompression budget''"

section \<open>The budgeted reader\<close>

text \<open>
  A reader is a function from the requested buffer length and its own state to what it
  delivered. \<open>budget_read\<close> is \<open>BudgetReader::read\<close>: the state is the inner reader's and what
  remains of the budget.
\<close>

type_synonym 's reader = "nat \<Rightarrow> 's \<Rightarrow> (io_error + bytes) \<times> 's"

definition budget_read :: "'s reader \<Rightarrow> ('s \<times> nat) reader" where
  "budget_read rd n = (\<lambda>(s, remaining).
     if remaining = 0 then (Inl (IoError INFLATION_BUDGET_MSG []), (s, remaining))
     else
       (case rd (min n remaining) s of
          (Inl e, s') \<Rightarrow> (Inl e, (s', remaining))
        | (Inr bs, s') \<Rightarrow> (Inr bs, (s', remaining - length bs))))"

text \<open>The contract of \<open>Read\<close>: no more bytes than the buffer holds.\<close>

definition reader_ok :: "'s reader \<Rightarrow> bool" where
  "reader_ok rd \<longleftrightarrow> (\<forall>n s bs s'. rd n s = (Inr bs, s') \<longrightarrow> length bs \<le> n)"

text \<open>Whatever the client asks for, in whatever sizes, and however long it goes on after errors.\<close>

fun read_seq :: "'s reader \<Rightarrow> nat list \<Rightarrow> 's \<Rightarrow> bytes \<times> 's" where
  "read_seq rd [] s = ([], s)"
| "read_seq rd (n # ns) s =
     (case rd n s of
        (Inl _, s') \<Rightarrow> read_seq rd ns s'
      | (Inr bs, s') \<Rightarrow> (case read_seq rd ns s' of (rest, t) \<Rightarrow> (bs @ rest, t)))"

lemma budget_read_remaining:
  assumes "reader_ok rd" "budget_read rd n (s, k) = (r, (s', k'))"
  shows "k' + (case r of Inl _ \<Rightarrow> 0 | Inr bs \<Rightarrow> length bs) = k"
  using assms
  by (fastforce simp: budget_read_def reader_ok_def split: if_splits prod.splits sum.splits)

text \<open>
  C32: However a decompressor reads through the budget, the bytes it obtains and the budget left
  always add up to the budget: no archive inflates past it.
\<close>

theorem budget_seq:
  assumes "reader_ok rd" "read_seq (budget_read rd) ns (s, k) = (bs, (s', k'))"
  shows "length bs + k' = k"
  using assms(2)
proof (induction ns arbitrary: s k bs)
  case (Cons n ns)
  obtain r s1 k1 where r: "budget_read rd n (s, k) = (r, (s1, k1))" by (metis prod.collapse)
  obtain rest where rest: "read_seq (budget_read rd) ns (s1, k1) = (rest, (s', k'))"
    using Cons.prems r by (auto split: sum.splits prod.splits)
  have "length rest + k' = k1" using Cons.IH [OF rest] .
  with budget_read_remaining [OF assms(1) r] Cons.prems r rest show ?case
    by (auto split: sum.splits)
qed simp

lemma budget_exhausted: "budget_read rd n (s, 0) = (Inl (IoError INFLATION_BUDGET_MSG []), (s, 0))"
  by (simp add: budget_read_def)

lemma budget_transparent:
  "n \<le> k \<Longrightarrow> 0 < k \<Longrightarrow> rd n s = (r, s') \<Longrightarrow> \<exists>k'. budget_read rd n (s, k) = (r, (s', k'))"
  by (auto simp: budget_read_def split: sum.splits)

section \<open>Finding the entry\<close>

definition is_budget_error :: "io_error \<Rightarrow> bool" where
  "is_budget_error err \<longleftrightarrow>
     list_ex (\<lambda>(io, text). io \<and> str_contains INFLATION_BUDGET_MSG text)
       ((True, io_text err) # io_causes err) \<or>
     str_contains INFLATION_BUDGET_MSG (io_text err)"

definition map_tar_err :: "io_error \<Rightarrow> extract_error" where
  "map_tar_err err =
     (if str_contains INFLATION_BUDGET_MSG (io_text err) then InflationBudgetExceeded
      else if is_budget_error err then InflationBudgetExceeded
      else Archive (io_text err))"

text \<open>
  \<open>read_capped\<close>: \<open>io::copy\<close> from \<open>take(cap + 1)\<close>, so an error behind the first \<open>cap + 1\<close> bytes is
  never reached.
\<close>

definition read_capped :: "entry_data \<Rightarrow> extract_error + bytes" where
  "read_capped = (\<lambda>(contents, err).
     if MAX_SERVED_FILE_BYTES < length contents then Inl TooLarge
     else (case err of Some e \<Rightarrow> Inl (map_tar_err e) | None \<Rightarrow> Inr contents))"

fun tar_search :: "string \<Rightarrow> tar_item list \<Rightarrow> extract_error + bytes option" where
  "tar_search want [] = Inr None"
| "tar_search want (TarFail e # items) = Inl (map_tar_err e)"
| "tar_search want (TarEntry path sz contents # items) =
     (case path of
        Inl e \<Rightarrow> Inl (map_tar_err e)
      | Inr p \<Rightarrow>
          if p = want then
            (if MAX_SERVED_FILE_BYTES < sz then Inl TooLarge
             else map_sum id Some (read_capped contents))
          else tar_search want items)"

definition extract_file ::
    "externals \<Rightarrow> app_state \<Rightarrow> bytes \<Rightarrow> artifact_format \<Rightarrow> string \<Rightarrow> extract_error + bytes option" where
  "extract_file E st archive format rel_path =
     (let want = archive_root E @ ''/'' @ rel_path
      in case format of
           TarGz \<Rightarrow>
             (case tar_entries E (saturating_add_u64 (max_inflated_bytes st) 1) archive of
                Inl e \<Rightarrow> Inl (map_tar_err e)
              | Inr items \<Rightarrow> tar_search want items)
         | Zip \<Rightarrow>
             (case zip_by_name E archive want of
                ZipFail e \<Rightarrow> Inl (Archive e)
              | ZipMissing \<Rightarrow> Inr None
              | ZipEntry sz contents \<Rightarrow>
                  if MAX_SERVED_FILE_BYTES < sz then Inl TooLarge
                  else map_sum id Some (read_capped contents)))"

definition from_extract_error :: "app_state \<Rightarrow> extract_error \<Rightarrow> api_err" where
  "from_extract_error st err =
     (case err of
        TooLarge \<Rightarrow>
          \<lparr>err_status = PAYLOAD_TOO_LARGE, err_code = ''file_too_large'',
           err_message = ''files larger than '' @ nat_str MAX_SERVED_FILE_BYTES
             @ '' bytes are not served individually; download the artifact instead''\<rparr>
      | InflationBudgetExceeded \<Rightarrow>
          \<lparr>err_status = PAYLOAD_TOO_LARGE, err_code = ''archive_too_large'',
           err_message = ''this artifact inflates past the '' @ nat_str (max_inflated_bytes st)
             @ '' byte decompression budget; download the artifact instead of requesting files from it''\<rparr>
      | Archive e \<Rightarrow> from_anyhow e)"

lemma read_capped_Inr:
  "read_capped d = Inr f \<longleftrightarrow> d = (f, None) \<and> length f \<le> MAX_SERVED_FILE_BYTES"
  by (cases d) (auto simp: read_capped_def split: option.splits)

lemma tar_search_size: "tar_search want items = Inr (Some f) \<Longrightarrow> length f \<le> MAX_SERVED_FILE_BYTES"
  by (induction want items rule: tar_search.induct)
    (auto simp: map_sum_Inr_iff read_capped_Inr split: sum.splits if_splits)

lemma extract_size:
  "extract_file E st archive fmt path = Inr (Some f) \<Longrightarrow> length f \<le> MAX_SERVED_FILE_BYTES"
  by (auto simp: extract_file_def Let_def map_sum_Inr_iff read_capped_Inr dest: tar_search_size
      split: artifact_format.splits sum.splits zip_lookup.splits if_splits)

text \<open>An entry that cannot be the one looked for, and is read past without an error.\<close>

fun skipped :: "string \<Rightarrow> tar_item \<Rightarrow> bool" where
  "skipped want (TarEntry (Inr p) _ _) \<longleftrightarrow> p \<noteq> want"
| "skipped want _ \<longleftrightarrow> False"

lemma tar_search_skip:
  "\<forall>i\<in>set pre. skipped want i \<Longrightarrow> tar_search want (pre @ rest) = tar_search want rest"
proof (induction pre)
  case (Cons i pre)
  then show ?case by (cases i; cases "case i of TarEntry p _ _ \<Rightarrow> p | TarFail e \<Rightarrow> Inl e") auto
qed simp

lemma tar_search_None: "tar_search want items = Inr None \<longleftrightarrow> (\<forall>i\<in>set items. skipped want i)"
  by (induction want items rule: tar_search.induct)
    (auto simp: map_sum_Inr_iff read_capped_Inr split: sum.splits)

text \<open>
  Extracting from a tar archive yields the contents of the first entry at the wanted path, and
  yields them exactly when everything before it was skipped and both the declared and the
  actual size are within the limit.
\<close>

lemma tar_search_Some:
  "tar_search want items = Inr (Some f) \<longleftrightarrow>
     (\<exists>pre sz post. items = pre @ TarEntry (Inr want) sz (f, None) # post \<and>
        (\<forall>i\<in>set pre. skipped want i) \<and> sz \<le> MAX_SERVED_FILE_BYTES \<and>
        length f \<le> MAX_SERVED_FILE_BYTES)" (is "?l = (\<exists>pre sz post. ?P items pre sz post)")
proof
  assume ?l
  then show "\<exists>pre sz post. ?P items pre sz post"
  proof (induction want items rule: tar_search.induct)
    case (3 want path sz contents items)
    show ?case
    proof (cases "path = Inr want")
      case True
      with 3(2) have "TarEntry path sz contents # items = [] @ TarEntry (Inr want) sz (f, None) # items"
        "sz \<le> MAX_SERVED_FILE_BYTES" "length f \<le> MAX_SERVED_FILE_BYTES"
        by (auto simp: map_sum_Inr_iff read_capped_Inr split: if_splits)
      then show ?thesis by (metis emptyE list.set(1))
    next
      case False
      then obtain p where p: "path = Inr p" "p \<noteq> want" using 3(2) by (cases path) auto
      with 3 obtain pre s post where
        "items = pre @ TarEntry (Inr want) s (f, None) # post" "\<forall>i\<in>set pre. skipped want i"
        "s \<le> MAX_SERVED_FILE_BYTES" "length f \<le> MAX_SERVED_FILE_BYTES" by fastforce
      moreover have "skipped want (TarEntry path sz contents)" using p by simp
      ultimately show ?thesis
        by (intro exI [of _ "TarEntry path sz contents # pre"] exI [of _ s] exI [of _ post]) simp
    qed
  qed auto
next
  assume "\<exists>pre sz post. ?P items pre sz post"
  then show ?l by (auto simp: tar_search_skip read_capped_def)
qed

text \<open>A budget stop is told apart from a corrupt archive however deep \<open>tar\<close> wrapped it.\<close>

lemma budget_stop_classified:
  assumes "str_contains INFLATION_BUDGET_MSG t" "(True, t) \<in> set ((True, io_text e) # io_causes e)"
  shows "map_tar_err e = InflationBudgetExceeded"
  using assms by (auto simp: map_tar_err_def is_budget_error_def list_ex_iff)

lemma from_extract_status:
  "err_status (from_extract_error st e) =
     (case e of Archive _ \<Rightarrow> INTERNAL_SERVER_ERROR | _ \<Rightarrow> PAYLOAD_TOO_LARGE)"
  by (cases e) (auto simp: from_extract_error_def)

section \<open>Inert responses\<close>

definition mime_for :: "string \<Rightarrow> string" where
  "mime_for path =
     (let ext = last (split_on CHR ''.'' path)
      in if ext = ''css'' then ''text/css; charset=utf-8''
         else if ext \<in> {''js'', ''mjs'', ''cjs''} then ''text/javascript; charset=utf-8''
         else if ext \<in> {''json'', ''map''} then ''application/json''
         else if ext \<in> {''html'', ''htm''} then ''text/html; charset=utf-8''
         else if ext = ''svg'' then ''image/svg+xml''
         else if ext = ''png'' then ''image/png''
         else if ext \<in> {''jpg'', ''jpeg''} then ''image/jpeg''
         else if ext = ''gif'' then ''image/gif''
         else if ext = ''wasm'' then ''application/wasm''
         else if ext = ''toml'' then ''application/toml''
         else if ext \<in> {''md'', ''txt''} then ''text/plain; charset=utf-8''
         else if ext = ''woff2'' then ''font/woff2''
         else ''application/octet-stream'')"

definition is_active_content :: "string \<Rightarrow> bool" where
  "is_active_content mime \<longleftrightarrow>
     (let base = str_trim (hd (split_on CHR '';'' mime))
      in base \<in> {''text/html'', ''image/svg+xml'', ''application/xhtml+xml''} \<or>
         str_contains ''javascript'' base)"

definition served_mime :: "string \<Rightarrow> string" where
  "served_mime path =
     (let guessed = mime_for path
      in if is_active_content guessed then ''text/plain; charset=utf-8'' else guessed)"

definition served_file_headers :: "string \<Rightarrow> (string \<times> string) list" where
  "served_file_headers path =
     [(''content-type'', served_mime path), (''cache-control'', IMMUTABLE_CACHE),
      (''content-disposition'', ''inline''), (''content-security-policy'', ''sandbox'')]"

lemma active_examples:
  "is_active_content ''text/html; charset=utf-8''" "is_active_content ''image/svg+xml''"
  "is_active_content ''text/javascript; charset=utf-8''"
  "\<not> is_active_content ''text/plain; charset=utf-8''"
  by code_simp+

text \<open>
  No file is ever served with a content type that the served-file policy calls active.
\<close>

theorem served_mime_inert: "\<not> is_active_content (served_mime path)"
  by (simp add: served_mime_def active_examples Let_def)

text \<open>Only the three active types are replaced: every other guess is served as it is.\<close>

lemma passive_examples:
  "\<not> is_active_content ''text/css; charset=utf-8''" "\<not> is_active_content ''application/json''"
  "\<not> is_active_content ''image/png''" "\<not> is_active_content ''image/jpeg''"
  "\<not> is_active_content ''image/gif''" "\<not> is_active_content ''application/wasm''"
  "\<not> is_active_content ''application/toml''" "\<not> is_active_content ''font/woff2''"
  "\<not> is_active_content ''application/octet-stream''"
  by code_simp+

lemma served_mime_eq:
  "served_mime path =
     (if last (split_on CHR ''.'' path) \<in> {''js'', ''mjs'', ''cjs'', ''html'', ''htm'', ''svg''}
      then ''text/plain; charset=utf-8'' else mime_for path)"
  by (simp add: served_mime_def mime_for_def Let_def active_examples passive_examples)

end
