(* ===== verification/Selection.thy ===== *)
theory Selection
  imports Files Auth
begin

text \<open>
  The helpers of \<open>src/routes/mod.rs\<close> that the handlers share (row lookups, the order of visible
  versions, tags, the artifact format, the metadata document, the memory budget), and the
  read handlers of \<open>src/routes/packages.rs\<close> and \<open>src/routes/artifacts.rs\<close>.
\<close>

section \<open>Row lookups\<close>

definition org_by_slug :: "string \<Rightarrow> database \<Rightarrow> org_row option" where
  "org_by_slug slug d = find (\<lambda>r. o_slug r = slug) (orgs d)"

definition package_by_name :: "uuid \<Rightarrow> string \<Rightarrow> database \<Rightarrow> package_row option" where
  "package_by_name org name d = find (\<lambda>r. p_org r = org \<and> p_name r = name) (packages d)"

definition version_by_name :: "uuid \<Rightarrow> string \<Rightarrow> database \<Rightarrow> version_row option" where
  "version_by_name pkg ver d = find (\<lambda>r. v_package r = pkg \<and> v_version r = ver) (versions d)"

definition versions_of :: "externals \<Rightarrow> uuid \<Rightarrow> database \<Rightarrow> version_row list" where
  "versions_of E pkg d = scan_versions E (filter (\<lambda>r. v_package r = pkg) (versions d))"

definition find_org :: "string \<Rightarrow> (api_err, org_row) io" where
  "find_org slug =
     andThen (dbq (select (org_by_slug slug))) (\<lambda>r. or_else r (err_not_found ''org''))"

definition find_package :: "org_row \<Rightarrow> string \<Rightarrow> (api_err, package_row) io" where
  "find_package org name =
     andThen (dbq (select (package_by_name (o_id org) name))) (\<lambda>r.
       or_else r (err_not_found ''package''))"

definition find_version :: "package_row \<Rightarrow> string \<Rightarrow> (api_err, version_row) io" where
  "find_version pkg ver =
     andThen (dbq (select (version_by_name (p_id pkg) ver))) (\<lambda>r.
       or_else r (err_not_found ''version''))"

lemma org_by_slug_Some: "org_by_slug s d = Some r \<Longrightarrow> r \<in> set (orgs d) \<and> o_slug r = s"
  by (auto simp: org_by_slug_def dest: find_SomeD)

lemma version_by_name_Some:
  "version_by_name i n d = Some v \<Longrightarrow> v \<in> set (versions d) \<and> v_package v = i \<and> v_version v = n"
  by (auto simp: version_by_name_def dest: find_SomeD)

lemma org_by_slug_iff:
  "db_ok d \<Longrightarrow> org_by_slug s d = Some r \<longleftrightarrow> r \<in> set (orgs d) \<and> o_slug r = s"
  unfolding org_by_slug_def by (rule find_unique_iff) (rule db_okD)

lemma package_by_name_iff:
  assumes "db_ok d"
  shows "package_by_name i n d = Some p \<longleftrightarrow> p \<in> set (packages d) \<and> p_org p = i \<and> p_name p = n"
proof -
  have "distinct (map (\<lambda>r. (p_org r, p_name r)) (packages d))"
    using db_okD(3) [OF assms] by (simp add: package_key_def [abs_def])
  from find_unique_iff [OF this, of "(i, n)"] show ?thesis
    by (simp add: package_by_name_def)
qed

lemma version_by_name_iff:
  assumes "db_ok d"
  shows "version_by_name i n d = Some v \<longleftrightarrow> v \<in> set (versions d) \<and> v_package v = i \<and> v_version v = n"
proof -
  have "distinct (map (\<lambda>r. (v_package r, v_version r)) (versions d))"
    using db_okD(4) [OF assms] by (simp add: version_key_def [abs_def])
  from find_unique_iff [OF this, of "(i, n)"] show ?thesis
    by (simp add: version_by_name_def)
qed

lemma find_org_run:
  "find_org slug w =
     (case faults w (calls w) of
        Some e \<Rightarrow> (Inl (from_db_err e), next_call w)
      | None \<Rightarrow>
          (case org_by_slug slug (db w) of
             None \<Rightarrow> (Inl (err_not_found ''org''), next_call w)
           | Some r \<Rightarrow> (Inr r, next_call w)))"
  by (simp add: find_org_def run_simps split: option.split)

lemma find_package_run:
  "find_package org name w =
     (case faults w (calls w) of
        Some e \<Rightarrow> (Inl (from_db_err e), next_call w)
      | None \<Rightarrow>
          (case package_by_name (o_id org) name (db w) of
             None \<Rightarrow> (Inl (err_not_found ''package''), next_call w)
           | Some r \<Rightarrow> (Inr r, next_call w)))"
  by (simp add: find_package_def run_simps split: option.split)

lemma find_version_run:
  "find_version pkg ver w =
     (case faults w (calls w) of
        Some e \<Rightarrow> (Inl (from_db_err e), next_call w)
      | None \<Rightarrow>
          (case version_by_name (p_id pkg) ver (db w) of
             None \<Rightarrow> (Inl (err_not_found ''version''), next_call w)
           | Some r \<Rightarrow> (Inr r, next_call w)))"
  by (simp add: find_version_def run_simps split: option.split)

lemmas find_runs = find_org_run find_package_run find_version_run

lemma find_pure [keeps_intro]:
  "pure_read (find_org s)" "pure_read (find_package o' n)" "pure_read (find_version p v)"
  "keeps P (find_org s)" "keeps P (find_package o' n)" "keeps P (find_version p v)"
  "keeps_store (find_org s)" "keeps_store (find_package o' n)" "keeps_store (find_version p v)"
  unfolding find_org_def find_package_def find_version_def by (intro keeps_intro)+

lemma find_InrD:
  "find_org s w = (Inr org, w') \<Longrightarrow>
     faults w (calls w) = None \<and> org_by_slug s (db w) = Some org \<and> w' = next_call w"
  "find_package org n w = (Inr p, w') \<Longrightarrow>
     faults w (calls w) = None \<and> package_by_name (o_id org) n (db w) = Some p \<and> w' = next_call w"
  "find_version p ver w = (Inr v, w') \<Longrightarrow>
     faults w (calls w) = None \<and> version_by_name (p_id p) ver (db w) = Some v \<and> w' = next_call w"
  by (auto simp: find_runs split: option.splits)

section \<open>Which version is latest\<close>

definition sort_versions_desc :: "externals \<Rightarrow> string list \<Rightarrow> string list" where
  "sort_versions_desc E vs = sort_desc E vs"

definition visible_versions_desc :: "externals \<Rightarrow> version_row list \<Rightarrow> string list" where
  "visible_versions_desc E rows =
     sort_versions_desc E (map v_version (filter (\<lambda>row. \<not> v_yanked row) rows))"

definition latest_visible_version :: "externals \<Rightarrow> version_row list \<Rightarrow> string option" where
  "latest_visible_version E rows =
     (case visible_versions_desc E rows of [] \<Rightarrow> None | v # _ \<Rightarrow> Some v)"

text \<open>
  What the code relies on of \<open>zed_interfaces::version::sort_desc\<close>: it permutes, and no later
  version comes first in the version order \<open>newer\<close>, which is total.
\<close>

definition sorts_versions :: "externals \<Rightarrow> (string \<Rightarrow> string \<Rightarrow> bool) \<Rightarrow> bool" where
  "sorts_versions E newer \<longleftrightarrow>
     (\<forall>vs. mset (sort_desc E vs) = mset vs \<and> sorted_wrt newer (sort_desc E vs)) \<and>
     (\<forall>a b. newer a b \<longrightarrow> newer b a \<longrightarrow> a = b)"

lemma visible_versions_set:
  assumes "sorts_versions E newer"
  shows "set (visible_versions_desc E rows) = v_version ` {r \<in> set rows. \<not> v_yanked r}"
proof -
  have "mset (sort_desc E vs) = mset vs" for vs using assms by (simp add: sorts_versions_def)
  then have "set (sort_desc E vs) = set vs" for vs by (metis mset_eq_setD)
  then show ?thesis by (simp add: visible_versions_desc_def sort_versions_desc_def)
qed

lemma sorted_wrt_mset_unique:
  assumes "\<And>a b. newer a b \<Longrightarrow> newer b a \<Longrightarrow> a = b"
    and "sorted_wrt newer xs" "sorted_wrt newer ys" "mset xs = mset ys"
  shows "xs = ys"
  using assms(2-4)
proof (induction xs arbitrary: ys)
  case (Cons x xs)
  then obtain y ys' where ys: "ys = y # ys'" by (cases ys) auto
  have "set (x # xs) = set ys" using Cons.prems(3) by (rule mset_eq_setD)
  then have "x = y" using Cons.prems(1,2) ys assms(1) by (auto, metis list.set_intros set_ConsD)
  with Cons ys show ?case by auto
qed auto

text \<open>
  The list of visible versions depends only on which versions are visible, not on the order
  the database returns rows in nor on anything else they hold.
\<close>

lemma visible_versions_mset:
  assumes "sorts_versions E newer"
    and "mset (map v_version (filter (\<lambda>r. \<not> v_yanked r) rows)) =
         mset (map v_version (filter (\<lambda>r. \<not> v_yanked r) rows'))"
  shows "visible_versions_desc E rows = visible_versions_desc E rows'"
proof -
  let ?s = "\<lambda>rs. sort_desc E (map v_version (filter (\<lambda>r. \<not> v_yanked r) rs))"
  have "mset (?s rows) = mset (?s rows')" "sorted_wrt newer (?s rows)" "sorted_wrt newer (?s rows')"
    using assms unfolding sorts_versions_def by auto
  with assms(1) have "?s rows = ?s rows'"
    by (intro sorted_wrt_mset_unique [of newer]) (auto simp: sorts_versions_def)
  then show ?thesis by (simp add: visible_versions_desc_def sort_versions_desc_def)
qed

lemma latest_visible_None:
  assumes "sorts_versions E newer"
  shows "latest_visible_version E rows = None \<longleftrightarrow> (\<forall>r\<in>set rows. v_yanked r)"
  using visible_versions_set [OF assms, of rows]
  by (auto simp: latest_visible_version_def split: list.splits)

lemma latest_visible_Some:
  assumes "sorts_versions E newer" "latest_visible_version E rows = Some v"
  shows "\<exists>r\<in>set rows. \<not> v_yanked r \<and> v_version r = v"
    and "\<And>r. r \<in> set rows \<Longrightarrow> \<not> v_yanked r \<Longrightarrow> v_version r \<noteq> v \<Longrightarrow> newer v (v_version r)"
proof -
  obtain vs where vs: "visible_versions_desc E rows = v # vs"
    using assms(2) by (auto simp: latest_visible_version_def split: list.splits)
  note s = visible_versions_set [OF assms(1), of rows]
  have "v \<in> set (visible_versions_desc E rows)" by (simp add: vs)
  then show "\<exists>r\<in>set rows. \<not> v_yanked r \<and> v_version r = v" unfolding s by auto
  have "sorted_wrt newer (v # vs)"
    using assms(1) vs [symmetric]
    by (simp only: sorts_versions_def visible_versions_desc_def sort_versions_desc_def simp_thms)
  then have "\<forall>x\<in>set vs. newer v x" by simp
  moreover fix r assume "r \<in> set rows" "\<not> v_yanked r" "v_version r \<noteq> v"
  then have "v_version r \<in> set vs" using s vs by (auto dest: equalityD2)
  ultimately show "newer v (v_version r)" by blast
qed

section \<open>Documents\<close>

definition tags_of :: "package_row \<Rightarrow> string list" where
  "tags_of pkg =
     (case p_tags pkg of
        JArray arr \<Rightarrow> List.map_filter (\<lambda>v. case v of JString s \<Rightarrow> Some s | _ \<Rightarrow> None) arr
      | _ \<Rightarrow> [])"

definition artifact_format :: "externals \<Rightarrow> string \<Rightarrow> artifact_format" where
  "artifact_format E fmt =
     (case format_parse E fmt of None \<Rightarrow> format_default E | Some f \<Rightarrow> f)"

record version_meta =
  vm_org :: string
  vm_name :: string
  vm_version :: string
  vm_sha256 :: string
  vm_size :: nat
  vm_format :: artifact_format
  vm_vcs_tag :: string
  vm_vcs_commit :: "string option"
  vm_download_url :: string
  vm_published_at :: string
  vm_yanked :: bool

definition version_metadata ::
    "externals \<Rightarrow> app_state \<Rightarrow> string \<Rightarrow> string \<Rightarrow> version_row \<Rightarrow> version_meta" where
  "version_metadata E st org name row =
     \<lparr>vm_org = org, vm_name = name, vm_version = v_version row, vm_sha256 = v_sha256 row,
      vm_size = as_u64 (v_size row), vm_format = artifact_format E (v_format row),
      vm_vcs_tag = v_vcs_tag row, vm_vcs_commit = v_vcs_commit row,
      vm_download_url = public_base_url st @ artifact_path E (v_sha256 row),
      vm_published_at = rfc3339 E (v_published_at row), vm_yanked = v_yanked row\<rparr>"

record package_meta =
  pm_org :: string
  pm_name :: string
  pm_description :: "string option"
  pm_vcs :: string
  pm_repo_url :: string
  pm_version_scheme :: string
  pm_latest :: "string option"
  pm_tags :: "string list"
  pm_versions :: "string list"

definition get_package :: "externals \<Rightarrow> string \<Rightarrow> string \<Rightarrow> (api_err, package_meta) io" where
  "get_package E org_slug name =
     andThen (find_org org_slug) (\<lambda>org.
     andThen (find_package org name) (\<lambda>pkg.
     andThen (dbq (select (versions_of E (p_id pkg)))) (\<lambda>rows.
       let vs = visible_versions_desc E rows
       in ret
         \<lparr>pm_org = org_slug, pm_name = name, pm_description = p_description pkg,
          pm_vcs = (case vcs_parse E (p_vcs pkg) of None \<Rightarrow> vcs_default E | Some v \<Rightarrow> v),
          pm_repo_url = p_repo_url pkg, pm_version_scheme = scheme_lenient E (p_scheme pkg),
          pm_latest = (case vs of [] \<Rightarrow> None | v # _ \<Rightarrow> Some v),
          pm_tags = tags_of pkg, pm_versions = vs\<rparr>)))"

definition get_version ::
    "externals \<Rightarrow> app_state \<Rightarrow> string \<Rightarrow> string \<Rightarrow> string \<Rightarrow> (api_err, version_meta) io" where
  "get_version E st org_slug name ver =
     andThen (find_org org_slug) (\<lambda>org.
     andThen (find_package org name) (\<lambda>pkg.
     andThen (find_version pkg ver) (\<lambda>row.
       ret (version_metadata E st org_slug name row))))"

section \<open>Serving bytes\<close>

record response =
  resp_status :: nat
  resp_headers :: "(string \<times> string) list"
  resp_body :: bytes

definition artifact_by_sha :: "externals \<Rightarrow> string \<Rightarrow> database \<Rightarrow> version_row option" where
  "artifact_by_sha E sha d =
     (case scan_versions E (filter (\<lambda>r. v_sha256 r = sha) (versions d)) of
        [] \<Rightarrow> None
      | r # _ \<Rightarrow> Some r)"

definition artifact_response :: "externals \<Rightarrow> version_row \<Rightarrow> nat \<Rightarrow> bytes \<Rightarrow> response" where
  "artifact_response E row len body =
     \<lparr>resp_status = 200,
      resp_headers =
        [(''content-type'', format_content_type E (artifact_format E (v_format row))),
         (''cache-control'', IMMUTABLE_CACHE), (''content-length'', nat_str len)],
      resp_body = body\<rparr>"

definition get_artifact :: "externals \<Rightarrow> string \<Rightarrow> (api_err, response) io" where
  "get_artifact E sha256 =
     andThen (dbq (select (artifact_by_sha E sha256))) (\<lambda>found.
     andThen (or_else found (err_not_found ''artifact'')) (\<lambda>row.
     andThen (map_err from_anyhow (download_artifact E (v_artifact_key row))) (\<lambda>dl.
       case dl of
         Redirect url \<Rightarrow>
           ret \<lparr>resp_status = 302, resp_headers = [(''location'', url)], resp_body = []\<rparr>
       | Bytes bs \<Rightarrow> ret (artifact_response E row (length bs) bs)
       | File file len \<Rightarrow> ret (artifact_response E row len file))))"

definition get_file ::
    "externals \<Rightarrow> app_state \<Rightarrow> string \<Rightarrow> string \<Rightarrow> string \<Rightarrow> string \<Rightarrow> (api_err, response) io" where
  "get_file E st org_slug name ver path =
     andThen (find_org org_slug) (\<lambda>org.
     andThen (find_package org name) (\<lambda>pkg.
     andThen (find_version pkg ver) (\<lambda>row.
     andThen (map_err from_anyhow (get_artifact_bytes (v_artifact_key row))) (\<lambda>archive.
     andThen (map_err (from_extract_error st)
                (lift (extract_file E st archive (artifact_format E (v_format row)) path))) (\<lambda>found.
     andThen (or_else found (err_not_found ''file'')) (\<lambda>file.
       ret \<lparr>resp_status = 200, resp_headers = served_file_headers path, resp_body = file\<rparr>))))))"

text \<open>None of the reads changes anything.\<close>

lemma reads_pure [keeps_intro]:
  "pure_read (get_package E s n)" "pure_read (get_version E st s n v)"
  "pure_read (get_artifact E h)" "pure_read (get_file E st s n v p)"
proof -
  show "pure_read (get_package E s n)" "pure_read (get_version E st s n v)"
    "pure_read (get_file E st s n v p)"
    unfolding get_package_def get_version_def get_file_def Let_def by (intro keeps_intro)+
  have "pure_read (case dl of Redirect url \<Rightarrow> ret (f url) | Bytes bs \<Rightarrow> ret (g bs) | File b n \<Rightarrow> ret (h b n))"
    for dl f g h by (cases dl) (auto intro: keeps_intro)
  then show "pure_read (get_artifact E h)"
    unfolding get_artifact_def by (intro keeps_intro)
qed

lemma get_file_InrD:
  assumes "get_file E st s n ver p w = (Inr resp, w')"
  shows "length (resp_body resp) \<le> MAX_SERVED_FILE_BYTES"
    "resp_headers resp = served_file_headers p" "resp_status resp = 200"
  using assms
  by (auto simp: get_file_def andThen_Inr dest: extract_size)

section \<open>The memory budget of buffered reads\<close>

definition MAX_IN_FLIGHT_REQUESTS :: nat where
  "MAX_IN_FLIGHT_REQUESTS = 512"

definition DEFAULT_ARTIFACT_SERVE_BUDGET :: nat where
  "DEFAULT_ARTIFACT_SERVE_BUDGET = 256 * 1024 * 1024"

definition serve_budget :: "app_state \<Rightarrow> nat" where
  "serve_budget st =
     (case Option.bind (environ st ''ZED_ARTIFACT_SERVE_MEMORY_BUDGET_BYTES'') parse_u64 of
        None \<Rightarrow> DEFAULT_ARTIFACT_SERVE_BUDGET
      | Some v \<Rightarrow> v)"

definition artifact_serve_concurrency :: "app_state \<Rightarrow> nat \<Rightarrow> nat" where
  "artifact_serve_concurrency st max_artifact_bytes =
     clamp 1 MAX_IN_FLIGHT_REQUESTS (serve_budget st div max max_artifact_bytes 1)"

lemma serve_concurrency_bounds:
  "1 \<le> artifact_serve_concurrency st m \<and> artifact_serve_concurrency st m \<le> MAX_IN_FLIGHT_REQUESTS"
  unfolding artifact_serve_concurrency_def by (rule clamp_bounds) (simp add: MAX_IN_FLIGHT_REQUESTS_def)

text \<open>
  The number of artifact requests served at once keeps their buffers within the memory budget,
  or is one.
\<close>

lemma serve_concurrency_memory:
  "artifact_serve_concurrency st m * m \<le> max (serve_budget st) m"
proof (cases "serve_budget st div max m 1 < 1")
  case True
  then show ?thesis by (simp add: artifact_serve_concurrency_def clamp_def)
next
  case False
  then have "artifact_serve_concurrency st m \<le> serve_budget st div max m 1"
    by (simp add: artifact_serve_concurrency_def clamp_def)
  then have "artifact_serve_concurrency st m * m \<le> serve_budget st div max m 1 * max m 1"
    by (rule mult_le_mono) simp
  also have "\<dots> \<le> serve_budget st" by simp
  finally show ?thesis by simp
qed

definition healthz :: "world \<Rightarrow> (bool \<times> bool) \<times> world" where
  "healthz w = (case select (\<lambda>_. ()) w of (r, w') \<Rightarrow> ((True, \<not> isl r), w'))"

section \<open>The selection as a specification\<close>

text \<open>
  C20: \<open>latest\<close> is absent exactly when every version is yanked, and otherwise is a visible
  version that the version order puts before every other visible one.
\<close>

theorem latest_visible_spec:
  assumes "sorts_versions E newer"
  shows "case latest_visible_version E rows of
      None \<Rightarrow> \<forall>r\<in>set rows. v_yanked r
    | Some v \<Rightarrow> (\<exists>r\<in>set rows. \<not> v_yanked r \<and> v_version r = v) \<and>
        (\<forall>r\<in>set rows. v_yanked r \<or> v_version r = v \<or> newer v (v_version r))"
  using latest_visible_None [OF assms, of rows] latest_visible_Some [OF assms, of rows]
  by (auto split: option.split)

end
