(* ===== verification/Verify.thy ===== *)
theory Verify
  imports World
begin

text \<open>
  \<open>src/verify.rs\<close>: the check that the declared backing repository carries the published tag. The
  answer of GitHub is the external \<open>http_get\<close>, given the URL and the bearer token that are sent.
\<close>

datatype tag_check = Skipped | Verified "string option" | Missing

section \<open>Percent encoding\<close>

definition ascii_alnum :: "char \<Rightarrow> bool" where
  "ascii_alnum c \<longleftrightarrow>
     (let n = (of_char c :: nat)
      in (48 \<le> n \<and> n \<le> 57) \<or> (65 \<le> n \<and> n \<le> 90) \<or> (97 \<le> n \<and> n \<le> 122))"

text \<open>\<open>TAG_ENCODE_SET\<close>: what is not encoded.\<close>

definition unreserved :: "char \<Rightarrow> bool" where
  "unreserved c \<longleftrightarrow> ascii_alnum c \<or> c \<in> {CHR ''-'', CHR ''.'', CHR ''_'', CHR ''~''}"

definition hex_digit :: "nat \<Rightarrow> char" where
  "hex_digit d = (if d < 10 then char_of (48 + d) else char_of (55 + d))"

definition percent_encode :: "string \<Rightarrow> string" where
  "percent_encode s =
     concat (map (\<lambda>c. if unreserved c then [c]
                      else [CHR ''%'', hex_digit (of_char c div 16), hex_digit (of_char c mod 16)]) s)"

lemma percent_encode_simps [simp]:
  "percent_encode [] = []"
  "percent_encode (c # cs) =
     (if unreserved c then [c]
      else [CHR ''%'', hex_digit (of_char c div 16), hex_digit (of_char c mod 16)])
     @ percent_encode cs"
  by (simp_all add: percent_encode_def)

lemma hex_digit_unreserved: "d < 16 \<Longrightarrow> unreserved (hex_digit d)"
  by (auto simp: hex_digit_def unreserved_def ascii_alnum_def Let_def)

lemma of_char_byte: "(of_char c :: nat) div 16 < 16" "(of_char c :: nat) mod 16 < 16"
proof -
  have "(of_char c :: nat) < 256" by (rule nat_of_char_less_256)
  then show "(of_char c :: nat) div 16 < 16" by (intro less_mult_imp_div_less) simp
qed simp

lemma percent_encode_chars: "c \<in> set (percent_encode s) \<Longrightarrow> unreserved c \<or> c = CHR ''%''"
  by (induction s) (auto simp: hex_digit_unreserved of_char_byte split: if_splits)

lemma percent_encode_id: "\<forall>c\<in>set s. unreserved c \<Longrightarrow> percent_encode s = s"
  by (induction s) auto

text \<open>What a server that decodes the path sees.\<close>

definition hex_val :: "char \<Rightarrow> nat" where
  "hex_val c = (if (of_char c :: nat) < 58 then of_char c - 48 else of_char c - 55)"

fun percent_decode :: "string \<Rightarrow> string" where
  "percent_decode [] = []"
| "percent_decode [a] = [a]"
| "percent_decode [a, b] = [a, b]"
| "percent_decode (a # b # c # cs) =
     (if a = CHR ''%'' then char_of (16 * hex_val b + hex_val c) # percent_decode cs
      else a # percent_decode (b # c # cs))"

lemma hex_val_digit: "d < 16 \<Longrightarrow> hex_val (hex_digit d) = d"
  by (auto simp: hex_val_def hex_digit_def)

lemma percent_not_unreserved [simp]: "\<not> unreserved (CHR ''%'')"
  by (simp add: unreserved_def ascii_alnum_def Let_def)

lemma percent_decode_plain: "c \<noteq> CHR ''%'' \<Longrightarrow> percent_decode (c # cs) = c # percent_decode cs"
  by (cases cs; cases "tl cs") auto

lemma percent_roundtrip: "percent_decode (percent_encode s) = s"
proof (induction s)
  case (Cons c cs)
  show ?case
  proof (cases "unreserved c")
    case True
    then have "c \<noteq> CHR ''%''" by auto
    with True Cons show ?thesis by (simp add: percent_decode_plain)
  next
    case False
    have "16 * (of_char c div 16) + of_char c mod 16 = (of_char c :: nat)" by simp
    with False Cons show ?thesis by (simp add: hex_val_digit of_char_byte)
  qed
qed simp

section \<open>GitHub URLs\<close>

definition trim_matches_dot :: "string \<Rightarrow> string" where
  "trim_matches_dot s = trim_end_with [''.''] (trim_start_with [''.''] s)"

definition valid_repo_segment :: "string \<Rightarrow> bool" where
  "valid_repo_segment segment \<longleftrightarrow>
     segment \<noteq> [] \<and>
     list_all (\<lambda>c. ascii_alnum c \<or> c = CHR ''.'' \<or> c = CHR ''_'' \<or> c = CHR ''-'') segment \<and>
     trim_matches_dot segment \<noteq> []"

text \<open>\<open>splitn(2, c)\<close>: the part before the first \<open>c\<close>, and what follows it if there is one.\<close>

fun splitn2 :: "char \<Rightarrow> string \<Rightarrow> string \<times> string option" where
  "splitn2 c [] = ([], None)"
| "splitn2 c (x # xs) =
     (if x = c then ([], Some xs) else (case splitn2 c xs of (a, b) \<Rightarrow> (x # a, b)))"

definition github_rest :: "string \<Rightarrow> string option" where
  "github_rest repo_url =
     (case strip_prefix ''https://github.com/'' repo_url of
        Some r \<Rightarrow> Some r
      | None \<Rightarrow>
          (case strip_prefix ''http://github.com/'' repo_url of
             Some r \<Rightarrow> Some r
           | None \<Rightarrow> strip_prefix ''git@github.com:'' repo_url))"

definition parse_github :: "string \<Rightarrow> (string \<times> string) option" where
  "parse_github repo_url =
     (case github_rest repo_url of
        None \<Rightarrow> None
      | Some r \<Rightarrow>
          (let rest = trim_end_with [''.git''] (trim_end_with [''/''] r)
           in case splitn2 CHR ''/'' rest of
                (owner, Some repo) \<Rightarrow>
                  if CHR ''/'' \<notin> set repo \<and> valid_repo_segment owner \<and> valid_repo_segment repo
                  then Some (owner, repo) else None
              | (_, None) \<Rightarrow> None))"

definition tag_url :: "string \<Rightarrow> string \<Rightarrow> string \<Rightarrow> string" where
  "tag_url owner repo tag =
     ''https://api.github.com/repos/'' @ percent_encode owner @ ''/'' @ percent_encode repo
     @ ''/git/ref/tags/'' @ percent_encode tag"

definition verify :: "externals \<Rightarrow> app_state \<Rightarrow> string \<Rightarrow> string \<Rightarrow> string \<Rightarrow> string + tag_check" where
  "verify E st vcs repo_url tag =
     (if verify_tags st = TagOff then Inr Skipped
      else if \<not> vcs_uses_git_tags E vcs then Inr Skipped
      else
        (case parse_github repo_url of
           None \<Rightarrow> Inr Skipped
         | Some (owner, repo) \<Rightarrow>
             (case http_get E (tag_url owner repo tag) (github_token st) of
                SendErr e \<Rightarrow> Inl e
              | Reply status body \<Rightarrow>
                  if status = 404 then Inr Missing
                  else if 400 \<le> status \<and> status < 600 then Inl ''HTTP status error''
                  else
                    (case body of
                       Inl e \<Rightarrow> Inl e
                     | Inr (kind, sha) \<Rightarrow>
                         Inr (Verified (if kind = Some ''commit'' then sha else None))))))"

section \<open>What reaches the GitHub API\<close>

lemma splitn2_eq: "splitn2 c s = (a, Some b) \<longleftrightarrow> s = a @ c # b \<and> c \<notin> set a"
proof (induction s arbitrary: a)
  case (Cons x xs)
  show ?case
  proof (cases "x = c")
    case True
    then show ?thesis by (cases a) auto
  next
    case False
    obtain u v where uv: "splitn2 c xs = (u, v)" by (metis prod.collapse)
    with False have "splitn2 c (x # xs) = (x # u, v)" by simp
    then show ?thesis using False Cons.IH [of "tl a"] uv by (cases a) auto
  qed
qed simp

lemma special_not_unreserved [simp]:
  "\<not> ascii_alnum (CHR ''/'')" "\<not> unreserved (CHR ''/'')" "\<not> unreserved (CHR ''?'')" "\<not> unreserved (CHR 0x23)"
  by (simp_all add: unreserved_def ascii_alnum_def Let_def)

lemma percent_encode_special:
  "\<not> unreserved c \<Longrightarrow> c \<noteq> CHR ''%'' \<Longrightarrow> c \<notin> set (percent_encode s)"
  using percent_encode_chars by blast

lemma valid_segment_chars:
  assumes "valid_repo_segment s" "c \<in> set s"
  shows "unreserved c \<and> c \<noteq> CHR ''/''"
proof -
  have "ascii_alnum c \<or> c = CHR ''.'' \<or> c = CHR ''_'' \<or> c = CHR ''-''"
    using assms by (simp add: valid_repo_segment_def list_all_iff)
  then show ?thesis by (elim disjE) (auto simp: unreserved_def)
qed

lemma valid_segment_encode: "valid_repo_segment s \<Longrightarrow> percent_encode s = s"
  by (rule percent_encode_id) (auto dest: valid_segment_chars)

lemma trim_start_Nil [simp]: "trim_start_with ps [] = []"
  by (subst trim_start_with.simps) (auto split: option.split dest: strip_any_Some)

lemma trim_start_dot [simp]: "trim_start_with [[c]] (c # s) = trim_start_with [[c]] s"
  by (subst trim_start_with.simps) simp

lemma dots_trimmed: "\<forall>c\<in>set s. c = CHR ''.'' \<Longrightarrow> trim_start_with [''.''] s = []"
  by (induction s) simp_all

lemma valid_segment_no_dots: "valid_repo_segment s \<Longrightarrow> \<exists>c\<in>set s. c \<noteq> CHR ''.''"
proof (rule ccontr)
  assume v: "valid_repo_segment s" and "\<not> (\<exists>c\<in>set s. c \<noteq> CHR ''.'')"
  then have "trim_start_with [''.''] s = []" by (intro dots_trimmed) blast
  then have "trim_matches_dot s = []" by (simp add: trim_matches_dot_def trim_end_with_def)
  with v show False by (simp add: valid_repo_segment_def)
qed

lemma parse_github_valid:
  "parse_github url = Some (owner, repo) \<Longrightarrow> valid_repo_segment owner \<and> valid_repo_segment repo"
  by (auto simp: parse_github_def Let_def split: option.splits prod.splits if_splits)

text \<open>
  The request path has exactly the segments the code means it to have: neither a repository nor
  a tag can add one, climb out of one, or start a query or a fragment.
\<close>


lemma tag_url_no_query:
  assumes "valid_repo_segment owner" "valid_repo_segment repo"
  shows "CHR ''?'' \<notin> set (tag_url owner repo tag)" "CHR ''#'' \<notin> set (tag_url owner repo tag)"
  by (simp_all add: tag_url_def percent_encode_special)

section \<open>Every spelling of a repository URL\<close>

lemma trim_end_with_id: "(\<And>p. p \<in> set ps \<Longrightarrow> \<not> suffix p s) \<Longrightarrow> trim_end_with ps s = s"
proof -
  assume no: "\<And>p. p \<in> set ps \<Longrightarrow> \<not> suffix p s"
  have "strip_any (map rev ps) (rev s) = None"
  proof (rule ccontr)
    assume "strip_any (map rev ps) (rev s) \<noteq> None"
    then obtain r where "strip_any (map rev ps) (rev s) = Some r" by auto
    from strip_any_Some [OF this] obtain p where p: "p \<in> set ps" "rev s = rev p @ r" by auto
    then have "s = rev r @ p" by (metis rev_append rev_rev_ident)
    with no [OF p(1)] show False by (auto simp: suffix_def)
  qed
  then show ?thesis by (simp add: trim_end_with_def trim_start_with_id)
qed

lemma trim_end_with_snoc: "p \<noteq> [] \<Longrightarrow> trim_end_with [p] (s @ p) = trim_end_with [p] s"
proof -
  assume "p \<noteq> []"
  then have "trim_start_with [rev p] (rev p @ rev s) = trim_start_with [rev p] (rev s)"
    by (subst trim_start_with.simps) simp
  then show ?thesis by (simp add: trim_end_with_def)
qed

lemma trim_end_with_one: "\<not> suffix p s \<Longrightarrow> trim_end_with [p] s = s"
  by (rule trim_end_with_id) auto

lemma trim_spellings:
  assumes "\<not> suffix ''/'' s" "\<not> suffix ''.git'' s" "post \<in> {[], ''/'', ''.git'', ''.git/''}"
  shows "trim_end_with [''.git''] (trim_end_with [''/''] (s @ post)) = s"
proof -
  note keep = trim_end_with_one [OF assms(1)] trim_end_with_one [OF assms(2)]
  have git: "trim_end_with [''/''] (s @ ''.git'') = s @ ''.git''"
    by (rule trim_end_with_one) (simp add: suffix_def)
  have slash: "trim_end_with [''/''] (s @ ''.git/'') = s @ ''.git''"
    using trim_end_with_snoc [of "''/''" "s @ ''.git''"] git by simp
  from assms(3) show ?thesis
    using keep git slash trim_end_with_snoc [of "''/''" s] trim_end_with_snoc [of "''.git''" s]
    by auto
qed

text \<open>
  Every spelling of a repository URL (https, http or ssh, with or without a trailing slash or
  \<open>.git\<close>) is parsed to the same owner and repository.
\<close>

lemma parse_github_spellings:
  assumes "valid_repo_segment owner" "valid_repo_segment repo" "\<not> suffix ''.git'' repo"
    and "pre \<in> {''https://github.com/'', ''http://github.com/'', ''git@github.com:''}"
    and "post \<in> {[], ''/'', ''.git'', ''.git/''}"
  shows "parse_github (pre @ owner @ ''/'' @ repo @ post) = Some (owner, repo)"
proof -
  have noslash: "CHR ''/'' \<notin> set owner" "CHR ''/'' \<notin> set repo"
    using assms(1,2) valid_segment_chars by blast+
  have ne: "repo \<noteq> []" using assms(2) by (simp add: valid_repo_segment_def)
  have lastc: "last repo \<noteq> CHR ''/''" using noslash(2) ne by (metis last_in_set)
  have nosl: "\<not> suffix ''/'' (owner @ ''/'' @ repo)"
    using lastc ne by (auto simp: suffix_def dest!: arg_cong [of _ _ last])
  have nogit: "\<not> suffix ''.git'' (owner @ ''/'' @ repo)"
  proof
    assume "suffix ''.git'' (owner @ ''/'' @ repo)"
    then have "suffix ''.git'' ((owner @ ''/'') @ repo)" by simp
    with assms(3) obtain u where u: "''.git'' = u @ repo" "suffix u (owner @ ''/'')"
      unfolding suffix_append by blast
    show False
    proof (cases u rule: rev_cases)
      case Nil
      with u(1) assms(3) show False by simp
    next
      case (snoc v c)
      with u(2) have "c = CHR ''/''" by (auto simp: suffix_def)
      with snoc have "CHR ''/'' \<in> set (u @ repo)" by simp
      then have "CHR ''/'' \<in> set ''.git''" by (simp only: u(1) [symmetric])
      then show False by simp
    qed
  qed
  have gr: "github_rest (pre @ x) = Some x" for x
    using assms(4) by (auto simp: github_rest_def)
  have "trim_end_with [''.git''] (trim_end_with [''/''] ((owner @ ''/'' @ repo) @ post)) = owner @ ''/'' @ repo"
    by (rule trim_spellings [OF nosl nogit assms(5)])
  moreover have "splitn2 CHR ''/'' (owner @ ''/'' @ repo) = (owner, Some repo)"
    using noslash by (simp add: splitn2_eq)
  ultimately show ?thesis
    using gr noslash assms(1,2) by (simp add: parse_github_def)
qed

section \<open>The decision\<close>

lemma verify_off: "verify_tags st = TagOff \<Longrightarrow> verify E st vcs url tag = Inr Skipped"
  by (simp add: verify_def)

text \<open>A publish is refused for a missing tag only on GitHub's own word, for that very tag.\<close>

lemma verify_Missing:
  "verify E st vcs url tag = Inr Missing \<longleftrightarrow>
     verify_tags st = TagGithub \<and> vcs_uses_git_tags E vcs \<and>
     (\<exists>owner repo body. parse_github url = Some (owner, repo) \<and>
        http_get E (tag_url owner repo tag) (github_token st) = Reply 404 body)"
  by (cases "verify_tags st") (auto simp: verify_def split: option.splits prod.splits http_reply.splits sum.splits if_splits)

text \<open>And with the check on, a GitHub repository's tag is never skipped over.\<close>

lemma verify_Skipped:
  "verify E st vcs url tag = Inr Skipped \<longleftrightarrow>
     verify_tags st = TagOff \<or> \<not> vcs_uses_git_tags E vcs \<or> parse_github url = None"
  by (cases "verify_tags st") (auto simp: verify_def split: option.splits prod.splits http_reply.splits sum.splits if_splits)

end
