(* ===== verification/Publish.thy ===== *)
theory Publish
  imports Audit_Props Selection Verify
begin

text \<open>
  \<open>src/routes/publish.rs\<close>: the publish pipeline. The multipart body is the list of what
  \<open>next_field\<close> yields: fields with their name and what reading them gives, or an error (a body
  over the limit is one).
\<close>

datatype form_event = FormErr string | Field "string option" "string + bytes"

fun read_fields ::
    "externals \<Rightarrow> form_event list \<Rightarrow> publish_meta option \<Rightarrow> bytes option \<Rightarrow>
     api_err + publish_meta option \<times> bytes option" where
  "read_fields E [] meta artifact = Inr (meta, artifact)"
| "read_fields E (FormErr e # form) meta artifact = Inl (err_bad_request ''invalid_multipart'' e)"
| "read_fields E (Field name contents # form) meta artifact =
     (if name = Some (publish_meta_field E) then
        (case contents of
           Inl e \<Rightarrow> Inl (err_bad_request ''invalid_meta'' e)
         | Inr bs \<Rightarrow>
             (case meta_parse E (decode_text E bs) of
                Inl e \<Rightarrow> Inl (err_bad_request ''invalid_meta'' e)
              | Inr m \<Rightarrow> read_fields E form (Some m) artifact))
      else if name = Some (publish_artifact_field E) then
        (case contents of
           Inl e \<Rightarrow> Inl (err_bad_request ''invalid_artifact'' e)
         | Inr bs \<Rightarrow> read_fields E form meta (Some bs))
      else read_fields E form meta artifact)"

definition read_multipart ::
    "externals \<Rightarrow> form_event list \<Rightarrow> api_err + publish_meta \<times> bytes" where
  "read_multipart E form =
     (case read_fields E form None None of
        Inl e \<Rightarrow> Inl e
      | Inr (None, _) \<Rightarrow> Inl (err_bad_request ''invalid_meta'' ''missing meta field'')
      | Inr (Some _, None) \<Rightarrow> Inl (err_bad_request ''invalid_artifact'' ''missing artifact field'')
      | Inr (Some m, Some a) \<Rightarrow> Inr (m, a))"

section \<open>The metadata upsert\<close>

definition find_package_row :: "org_row \<Rightarrow> string \<Rightarrow> (api_err, package_row option) io" where
  "find_package_row org name = dbq (select (package_by_name (o_id org) name))"

definition manifest_package ::
    "uuid \<Rightarrow> timestamp \<Rightarrow> org_row \<Rightarrow> string \<Rightarrow> manifest \<Rightarrow> package_row" where
  "manifest_package i now org name m =
     \<lparr>p_id = i, p_org = o_id org, p_name = name, p_description = m_description m, p_vcs = m_vcs m,
      p_repo_url = m_url m, p_scheme = m_scheme m, p_tags = JArray (map JString (m_keywords m)),
      p_created_at = now\<rparr>"

text \<open>\<open>update_columns\<close> of the \<open>ON CONFLICT\<close> clause: id, name and \<open>created_at\<close> stay.\<close>

definition refresh_package :: "package_row \<Rightarrow> package_row \<Rightarrow> package_row" where
  "refresh_package new old =
     old\<lparr>p_description := p_description new, p_vcs := p_vcs new, p_repo_url := p_repo_url new,
         p_scheme := p_scheme new, p_tags := p_tags new\<rparr>"

definition upsert_package_row :: "package_row \<Rightarrow> database \<Rightarrow> db_err + database" where
  "upsert_package_row r d =
     (if package_key r \<in> package_key ` set (packages d)
      then Inr (update_packages (\<lambda>p. package_key p = package_key r) (refresh_package r) d)
      else insert_package r d)"

definition upsert_missing :: api_err where
  "upsert_missing =
     \<lparr>err_status = INTERNAL_SERVER_ERROR, err_code = ''package_upsert_missing'',
      err_message = ''package row missing immediately after upsert''\<rparr>"

definition upsert_package :: "org_row \<Rightarrow> string \<Rightarrow> publish_meta \<Rightarrow> (api_err, package_row) io" where
  "upsert_package org name meta =
     andThen new_uuid (\<lambda>i.
     andThen utc_now (\<lambda>now.
     andThen (dbq (insert_stmt upsert_package_row
                     (manifest_package i now org name (meta_manifest meta)))) (\<lambda>_.
     andThen (dbq (select (package_by_name (o_id org) name))) (\<lambda>found.
       or_else found upsert_missing))))"

section \<open>The pipeline\<close>

record publish_response =
  pub_org :: string
  pub_name :: string
  pub_version :: string
  pub_sha256 :: string

definition org_not_found :: "string \<Rightarrow> api_err" where
  "org_not_found slug =
     \<lparr>err_status = NOT_FOUND, err_code = ''org_not_found'',
      err_message = ''org `'' @ slug @ ''` does not exist; claim it first with `zed org claim ''
        @ slug @ ''`''\<rparr>"

definition coordinate :: "string \<Rightarrow> string \<Rightarrow> string \<Rightarrow> string" where
  "coordinate org name ver = org @ ''/'' @ name @ ''@'' @ ver"

definition version_exists :: "string \<Rightarrow> string \<Rightarrow> string \<Rightarrow> api_err" where
  "version_exists org name ver =
     err_conflict ''version_exists''
       (coordinate org name ver @ '' is already published; versions are immutable'')"

definition new_version ::
    "externals \<Rightarrow> uuid \<Rightarrow> timestamp \<Rightarrow> package_row \<Rightarrow> string \<Rightarrow> publish_meta \<Rightarrow> string \<Rightarrow> int \<Rightarrow> string \<Rightarrow>
     version_row" where
  "new_version E i now pkg ver meta sha len key =
     \<lparr>v_id = i, v_package = p_id pkg, v_version = ver, v_sha256 = sha, v_size = len,
      v_format = format_extension E (meta_format meta), v_vcs_tag = meta_vcs_tag meta,
      v_vcs_commit = meta_vcs_commit meta, v_artifact_key = key, v_yanked = False,
      v_published_at = now\<rparr>"

text \<open>The version insert and the classification of its error; then the transaction around it.\<close>

definition record_version ::
    "externals \<Rightarrow> string \<Rightarrow> string \<Rightarrow> string \<Rightarrow> publish_meta \<Rightarrow> string \<Rightarrow> int \<Rightarrow> string \<Rightarrow> package_row \<Rightarrow>
     (api_err, unit) io" where
  "record_version E org_slug name ver meta sha len key pkg =
     andThen new_uuid (\<lambda>i.
     andThen utc_now (\<lambda>now.
     inspect (insert_stmt insert_version (new_version E i now pkg ver meta sha len key)) (\<lambda>r.
       case r of
         Inr _ \<Rightarrow> ret ()
       | Inl err \<Rightarrow>
           if err = UniqueViolation then fail (version_exists org_slug name ver)
           else fail (from_db_err err))))"

definition publish_txn ::
    "externals \<Rightarrow> org_row \<Rightarrow> string \<Rightarrow> string \<Rightarrow> string \<Rightarrow> publish_meta \<Rightarrow> string \<Rightarrow> int \<Rightarrow> string \<Rightarrow>
     (api_err, unit) io" where
  "publish_txn E org org_slug name ver meta sha len key =
     in_txn from_db_err
       (andThen (upsert_package org name meta)
          (record_version E org_slug name ver meta sha len key))"

text \<open>The checks on the body that need neither the database nor the store.\<close>

definition check_body ::
    "externals \<Rightarrow> string \<Rightarrow> string \<Rightarrow> string \<Rightarrow> publish_meta \<Rightarrow> bytes \<Rightarrow> api_err + unit" where
  "check_body E org_slug name ver meta artifact =
     (let m = meta_manifest meta; actual_sha = sha256_hex E artifact
      in case manifest_validate E m of
           Some e \<Rightarrow> Inl (err_bad_request ''invalid_manifest'' e)
         | None \<Rightarrow>
             if m_org m \<noteq> org_slug \<or> m_name m \<noteq> name \<or> m_version m \<noteq> ver then
               Inl (err_bad_request ''manifest_url_mismatch''
                 (''manifest says '' @ coordinate (m_org m) (m_name m) (m_version m)
                  @ '', url says '' @ coordinate org_slug name ver))
             else if actual_sha \<noteq> meta_sha256 meta then
               Inl (err_bad_request ''sha256_mismatch''
                 (''client declared '' @ meta_sha256 meta @ '', server computed '' @ actual_sha))
             else Inr ())"

definition check_tag :: "externals \<Rightarrow> app_state \<Rightarrow> publish_meta \<Rightarrow> api_err + unit" where
  "check_tag E st meta =
     (let m = meta_manifest meta
      in case verify E st (m_vcs m) (m_url m) (meta_vcs_tag meta) of
           Inl e \<Rightarrow> Inl (from_anyhow e)
         | Inr Missing \<Rightarrow>
             Inl (err_bad_request ''tag_not_found''
               (''tag `'' @ meta_vcs_tag meta @ ''` not found on '' @ m_url m
                @ ''; authors must tag the backing repo before publishing''))
         | Inr _ \<Rightarrow> Inr ())"

definition check_immutable :: "org_row \<Rightarrow> string \<Rightarrow> string \<Rightarrow> string \<Rightarrow> (api_err, unit) io" where
  "check_immutable org org_slug name ver =
     andThen (find_package_row org name) (\<lambda>found.
       case found of
         None \<Rightarrow> ret ()
       | Some pkg \<Rightarrow>
           andThen (dbq (select (version_by_name (p_id pkg) ver))) (\<lambda>exists.
             if exists \<noteq> None then fail (version_exists org_slug name ver) else ret ()))"

definition publish ::
    "externals \<Rightarrow> app_state \<Rightarrow> string option \<Rightarrow> string \<Rightarrow> string \<Rightarrow> string \<Rightarrow> form_event list \<Rightarrow>
     (api_err, publish_response) io" where
  "publish E st header org_slug name ver form =
     andThen (require_token E st header) (\<lambda>token.
     andThen (dbq (select (org_by_slug org_slug))) (\<lambda>found.
     andThen (or_else found (org_not_found org_slug)) (\<lambda>org.
     andThen (lift (authorize_publish (t_org token) (role_parse (t_role token)) (o_id org))) (\<lambda>_.
     andThen (lift (read_multipart E form)) (\<lambda>(meta, artifact).
     andThen (lift (check_body E org_slug name ver meta artifact)) (\<lambda>_.
     andThen (lift (check_tag E st meta)) (\<lambda>_.
     andThen (check_immutable org org_slug name ver) (\<lambda>_.
       let sha = sha256_hex E artifact;
           key = artifact_key sha (format_extension E (meta_format meta))
       in
         andThen (map_err from_anyhow (put_artifact key artifact)) (\<lambda>_.
         andThen (publish_txn E org org_slug name ver meta sha (int (length artifact)) key) (\<lambda>_.
         andThen (record_audit E st (o_id org) token Publish (coordinate org_slug name ver)
                    (Some (''sha256='' @ sha))) (\<lambda>_.
           ret \<lparr>pub_org = org_slug, pub_name = name, pub_version = ver, pub_sha256 = sha\<rparr>)))))))))))"

section \<open>Frame\<close>

lemma upsert_package_row_ok: "db_ok d \<Longrightarrow> upsert_package_row r d = Inr d' \<Longrightarrow> db_ok d'"
  by (auto simp: upsert_package_row_def refresh_package_def package_key_def split: if_splits
      intro: update_packages_ok insert_package_ok)

lemma upsert_package_row_frame:
  "upsert_package_row r d = Inr d' \<Longrightarrow> \<exists>ps. d' = d\<lparr>packages := ps\<rparr>"
  by (auto simp: upsert_package_row_def update_packages_def insert_package_Inr split: if_splits)

lemma upsert_package_keeps_db_ok [keeps_intro]: "keeps db_ok (upsert_package org name meta)"
  unfolding upsert_package_def by (intro keeps_intro) (erule (1) upsert_package_row_ok)

lemma check_immutable_pure [keeps_intro]:
  "pure_read (check_immutable org s n v)" "keeps P (check_immutable org s n v)"
  unfolding check_immutable_def find_package_row_def by (intro keeps_intro)+

lemma publish_txn_keeps_db_ok [keeps_intro]:
  "keeps db_ok (publish_txn E org s n v meta sha len key)"
  unfolding publish_txn_def record_version_def by (intro keeps_intro) (erule (1) insert_version_ok)

lemma publish_keeps_db_ok [keeps_intro]: "keeps db_ok (publish E st h s n v form)"
  unfolding publish_def Let_def by (intro keeps_intro)

lemma publish_txn_keeps_store [keeps_intro]:
  "keeps_store (publish_txn E org s n v meta sha len key)"
  unfolding publish_txn_def upsert_package_def record_version_def by (intro keeps_intro)

end
