(* ===== verification/Publish_Props.thy ===== *)
theory Publish_Props
  imports Publish
begin

text \<open>
  What \<open>publish\<close> guarantees on every schedule of faults, clocks and store outcomes: what a success
  means, that a failure leaves no trace in the database, that a published version is immutable
  and its artifact available, and that nothing is read of an unauthorized caller's body.
\<close>

section \<open>The pipeline in two halves\<close>

text \<open>Everything up to the first write, and the writes.\<close>

definition publish_front ::
    "externals \<Rightarrow> app_state \<Rightarrow> string option \<Rightarrow> string \<Rightarrow> string \<Rightarrow> string \<Rightarrow> form_event list \<Rightarrow>
     (api_err, token_row \<times> org_row \<times> publish_meta \<times> bytes) io" where
  "publish_front E st header org_slug name ver form =
     andThen (require_token E st header) (\<lambda>token.
     andThen (dbq (select (org_by_slug org_slug))) (\<lambda>found.
     andThen (or_else found (org_not_found org_slug)) (\<lambda>org.
     andThen (lift (authorize_publish (t_org token) (role_parse (t_role token)) (o_id org))) (\<lambda>_.
     andThen (lift (read_multipart E form)) (\<lambda>body.
     andThen (lift (check_body E org_slug name ver (fst body) (snd body))) (\<lambda>_.
     andThen (lift (check_tag E st (fst body))) (\<lambda>_.
     andThen (check_immutable org org_slug name ver) (\<lambda>_.
       ret (token, org, fst body, snd body)))))))))"

definition publish_back ::
    "externals \<Rightarrow> app_state \<Rightarrow> string \<Rightarrow> string \<Rightarrow> string \<Rightarrow> token_row \<Rightarrow> org_row \<Rightarrow> publish_meta \<Rightarrow> bytes \<Rightarrow>
     (api_err, publish_response) io" where
  "publish_back E st org_slug name ver token org meta artifact =
     (let sha = sha256_hex E artifact;
          key = artifact_key sha (format_extension E (meta_format meta))
      in andThen (map_err from_anyhow (put_artifact key artifact)) (\<lambda>_.
         andThen (publish_txn E org org_slug name ver meta sha (int (length artifact)) key) (\<lambda>_.
         andThen (record_audit E st (o_id org) token Publish (coordinate org_slug name ver)
                    (Some (''sha256='' @ sha))) (\<lambda>_.
           ret \<lparr>pub_org = org_slug, pub_name = name, pub_version = ver, pub_sha256 = sha\<rparr>))))"

lemma publish_split:
  "publish E st h s n v form =
     andThen (publish_front E st h s n v form) (\<lambda>(token, org, meta, artifact).
       publish_back E st s n v token org meta artifact)"
  by (simp add: publish_def publish_front_def publish_back_def andThen_assoc andThen_ret
      split_def Let_def)

definition same_but_tokens :: "database \<Rightarrow> database \<Rightarrow> bool" where
  "same_but_tokens d d' \<longleftrightarrow> (\<exists>ts. d' = d\<lparr>tokens := ts\<rparr>)"

lemma same_but_tokens_refl [simp]: "same_but_tokens d d"
  unfolding same_but_tokens_def by (rule exI [of _ "tokens d"]) simp

lemma same_but_tokens_simps:
  assumes "same_but_tokens d d'"
  shows "orgs d' = orgs d" "packages d' = packages d" "versions d' = versions d" "audits d' = audits d"
    "embeddings d' = embeddings d"
  using assms by (auto simp: same_but_tokens_def)

lemma require_token_frame [keeps_intro]: "keeps (same_but_tokens d) (require_token E st h)"
  unfolding require_token_def insecure_operator_token_def
  by (intro keeps_intro) (auto simp: same_but_tokens_def insert_token_Inr)

lemma publish_front_frame: "keeps (same_but_tokens d) (publish_front E st h s n v form)"
  unfolding publish_front_def by (intro keeps_intro)

lemma publish_front_store: "keeps_store (publish_front E st h s n v form)"
  unfolding publish_front_def
  by (intro keeps_intro pure_read_keeps_store [OF check_immutable_pure(1)])

lemma publish_front_pure: "\<not> auth_disabled st \<Longrightarrow> pure_read (publish_front E st h s n v form)"
  unfolding publish_front_def by (intro keeps_intro require_token_pure)

lemma publish_front_keeps_db_ok: "keeps db_ok (publish_front E st h s n v form)"
  unfolding publish_front_def by (intro keeps_intro)

section \<open>The transaction\<close>

lemma upsert_package_Inr:
  "upsert_package org name meta w = (Inr pkg, w') \<Longrightarrow>
     \<exists>i now. upsert_package_row (manifest_package i now org name (meta_manifest meta)) (db w) = Inr (db w') \<and>
             package_by_name (o_id org) name (db w') = Some pkg"
  by (auto simp: upsert_package_def andThen_Inr new_uuid_Inr utc_now_Inr insert_stmt_Inr select_Inr)
    blast

lemma record_version_run:
  "record_version E s n v meta sha len key pkg w =
     (let w1 = w\<lparr>drawn := Suc (drawn w), ticks := Suc (ticks w)\<rparr>;
          row = new_version E (uuids w (drawn w)) (clock w (ticks w)) pkg v meta sha len key
      in case insert_stmt insert_version row w1 of
           (Inr _, w2) \<Rightarrow> (Inr (), w2)
         | (Inl err, w2) \<Rightarrow>
             (Inl (if err = UniqueViolation then version_exists s n v else from_db_err err), w2))"
  by (simp add: record_version_def run_simps Let_def split: prod.split sum.split)

lemma record_version_Inr:
  "record_version E s n v meta sha len key pkg w = (Inr (), w') \<Longrightarrow>
     \<exists>j now. insert_version (new_version E j now pkg v meta sha len key) (db w) = Inr (db w')"
  unfolding record_version_run Let_def
  by (auto simp: insert_stmt_Inr split: prod.splits sum.splits) blast

lemma record_version_Inl:
  "record_version E s n v meta sha len key pkg w = (Inl e, w') \<Longrightarrow>
     e = version_exists s n v \<or> (\<exists>d. e = from_db_err d)"
  unfolding record_version_run Let_def by (fastforce split: prod.splits sum.splits if_splits)

lemma upsert_package_Inl:
  "upsert_package org name meta w = (Inl e, w') \<Longrightarrow> e = upsert_missing \<or> (\<exists>d. e = from_db_err d)"
  by (auto simp: upsert_package_def andThen_Inl map_err_Inl)

lemma in_txn_Inl:
  "in_txn conv body w = (Inl e, w') \<Longrightarrow>
     (\<exists>d. e = conv d) \<or> (\<exists>w1 w2. body w1 = (Inl e, w2))"
  by (auto simp: in_txn_def split: prod.splits sum.splits)

lemma publish_txn_Inr:
  assumes "publish_txn E org s n v meta sha len key w = (Inr (), w')"
  shows "\<exists>d1 pkg i now j now'.
     upsert_package_row (manifest_package i now org n (meta_manifest meta)) (db w) = Inr d1 \<and>
     package_by_name (o_id org) n d1 = Some pkg \<and>
     insert_version (new_version E j now' pkg v meta sha len key) d1 = Inr (db w')"
proof -
  obtain w2 pkg w1 where w2: "db w' = db w2"
    and up: "upsert_package org n meta (next_call w) = (Inr pkg, w1)"
    and rest: "record_version E s n v meta sha len key pkg w1 = (Inr (), w2)"
    using assms by (auto simp: publish_txn_def in_txn_Inr select_Inr andThen_Inr)
  from upsert_package_Inr [OF up] record_version_Inr [OF rest] w2 show ?thesis by auto
qed

lemma publish_txn_Inl:
  assumes "publish_txn E org s n v meta sha len key w = (Inl e, w')"
  shows "db w' = db w" "err_code e \<in> {''version_exists'', ''internal'', ''package_upsert_missing''}"
proof -
  show "db w' = db w" using assms unfolding publish_txn_def by (rule in_txn_Inl_db)
  show "err_code e \<in> {''version_exists'', ''internal'', ''package_upsert_missing''}"
    using assms in_txn_Inl [of from_db_err _ w e w'] 
    by (fastforce simp: publish_txn_def andThen_Inl version_exists_def upsert_missing_def
        dest: record_version_Inl upsert_package_Inl)
qed

lemma upserted_package:
  assumes "db_ok d" "upsert_package_row (manifest_package i now org n m) d = Inr d1"
    and "package_by_name (o_id org) n d1 = Some pkg"
  shows "p_description pkg = m_description m" "p_vcs pkg = m_vcs m" "p_repo_url pkg = m_url m"
    "p_scheme pkg = m_scheme m" "tags_of pkg = m_keywords m"
    "\<And>old. package_by_name (o_id org) n d = Some old \<Longrightarrow>
       p_id pkg = p_id old \<and> p_created_at pkg = p_created_at old"
    "package_by_name (o_id org) n d = None \<Longrightarrow> p_id pkg = i \<and> p_id pkg \<notin> p_id ` set (packages d)"
    "versions d1 = versions d"
proof -
  let ?r = "manifest_package i now org n m"
  have key: "package_key ?r = (o_id org, n)" by (simp add: package_key_def manifest_package_def)
  have ok1: "db_ok d1" using upsert_package_row_ok [OF assms(1,2)] .
  have pkg: "pkg \<in> set (packages d1)" "package_key pkg = (o_id org, n)"
    using assms(3) by (auto simp: package_by_name_iff [OF ok1] package_key_def)
  have tags: "tags_of ?r = m_keywords m"
    by (simp add: tags_of_def manifest_package_def List.map_filter_def filter_map o_def)
  have "(\<exists>old. old \<in> set (packages d) \<and> package_key old = (o_id org, n) \<and> pkg = refresh_package ?r old)
        \<or> (pkg = ?r \<and> (o_id org, n) \<notin> package_key ` set (packages d) \<and> i \<notin> p_id ` set (packages d))"
  proof (cases "(o_id org, n) \<in> package_key ` set (packages d)")
    case True
    then have d1: "d1 = update_packages (\<lambda>p. package_key p = (o_id org, n)) (refresh_package ?r) d"
      using assms(2) by (simp add: upsert_package_row_def key)
    then show ?thesis using pkg by (auto simp: update_packages_def set_map_where refresh_package_def package_key_def)
  next
    case False
    then have "insert_package ?r d = Inr d1" using assms(2) by (simp add: upsert_package_row_def key)
    then have "packages d1 = packages d @ [?r]" "i \<notin> p_id ` set (packages d)"
      by (auto simp: insert_package_Inr manifest_package_def)
    moreover have "pkg \<notin> set (packages d)" using pkg(2) False by (metis image_eqI)
    ultimately show ?thesis using pkg(1) False by auto
  qed
  then consider old where "old \<in> set (packages d)" "package_key old = (o_id org, n)" "pkg = refresh_package ?r old"
    | "pkg = ?r" "(o_id org, n) \<notin> package_key ` set (packages d)" "i \<notin> p_id ` set (packages d)"
    by blast
  then have "p_description pkg = m_description m \<and> p_vcs pkg = m_vcs m \<and> p_repo_url pkg = m_url m \<and>
    p_scheme pkg = m_scheme m \<and> tags_of pkg = m_keywords m"
    by cases (use tags in \<open>auto simp: refresh_package_def manifest_package_def tags_of_def\<close>)
  then show "p_description pkg = m_description m" "p_vcs pkg = m_vcs m" "p_repo_url pkg = m_url m"
    "p_scheme pkg = m_scheme m" "tags_of pkg = m_keywords m" by blast+
  show "p_id pkg = p_id old \<and> p_created_at pkg = p_created_at old"
    if "package_by_name (o_id org) n d = Some old" for old
  proof -
    have o: "old \<in> set (packages d)" "package_key old = (o_id org, n)"
      using that by (auto simp: package_by_name_iff [OF assms(1)] package_key_def)
    obtain old' where o': "old' \<in> set (packages d)" "package_key old' = (o_id org, n)"
      "pkg = refresh_package ?r old'"
      using \<open>_ \<or> _\<close> o by force
    have "old' = old" using distinct_map_unique [OF db_okD(3) [OF assms(1)] o'(1) o(1)] o o' by simp
    with o' show ?thesis by (simp add: refresh_package_def)
  qed
  show "p_id pkg = i \<and> p_id pkg \<notin> p_id ` set (packages d)" if "package_by_name (o_id org) n d = None"
  proof -
    have "(o_id org, n) \<notin> package_key ` set (packages d)"
      using that by (auto simp: package_by_name_def find_None package_key_def)
    then have "pkg = ?r \<and> i \<notin> p_id ` set (packages d)" using \<open>_ \<or> _\<close> by (metis image_eqI)
    then show ?thesis by (simp add: manifest_package_def)
  qed
  show "versions d1 = versions d" using upsert_package_row_frame [OF assms(2)] by auto
qed

section \<open>Success\<close>

lemma publish_front_Inr:
  assumes "publish_front E st h s n v form w = (Inr (token, org, meta, artifact), w')"
  shows "\<exists>w1. require_token E st h w = (Inr token, w1)"
    and "authorize_publish (t_org token) (role_parse (t_role token)) (o_id org) = Inr ()"
    and "read_multipart E form = Inr (meta, artifact)"
    and "check_body E s n v meta artifact = Inr ()" "check_tag E st meta = Inr ()"
    and "org_by_slug s (db w) = Some org"
    and "\<And>pkg. package_by_name (o_id org) n (db w) = Some pkg \<Longrightarrow> version_by_name (p_id pkg) v (db w) = None"
proof -
  from assms obtain w1 w2 body where
    tok: "require_token E st h w = (Inr token, w1)"
    and org: "org_by_slug s (db w1) = Some org" "w2 = next_call w1"
    and auth: "authorize_publish (t_org token) (role_parse (t_role token)) (o_id org) = Inr ()"
    and body: "read_multipart E form = Inr (meta, artifact)"
    and chk: "check_body E s n v meta artifact = Inr ()" "check_tag E st meta = Inr ()"
    and imm: "check_immutable org s n v w2 = (Inr (), w')"
    by (auto simp: publish_front_def andThen_Inr select_Inr)
  have same: "same_but_tokens (db w) (db w1)"
    using keepsD [OF require_token_frame tok] by simp
  show "\<exists>w1. require_token E st h w = (Inr token, w1)"
    "authorize_publish (t_org token) (role_parse (t_role token)) (o_id org) = Inr ()"
    "read_multipart E form = Inr (meta, artifact)"
    "check_body E s n v meta artifact = Inr ()" "check_tag E st meta = Inr ()"
    using tok auth body chk by blast+
  show "org_by_slug s (db w) = Some org"
    using org same_but_tokens_simps [OF same] by (simp add: org_by_slug_def)
  fix pkg assume "package_by_name (o_id org) n (db w) = Some pkg"
  then show "version_by_name (p_id pkg) v (db w) = None"
    using imm org(2) same_but_tokens_simps [OF same]
    by (auto simp: check_immutable_def find_package_row_def andThen_Inr select_Inr
        package_by_name_def version_by_name_def split: if_splits)
qed

lemma put_artifact_Inr:
  "put_artifact k b w = (Inr (), w') \<Longrightarrow> stored (store w') k = Some b \<and> db w' = db w"
  by (auto simp: put_artifact_def dest: store_put_Inr_stored split: prod.splits)

lemma put_artifact_db: "put_artifact k b w = (r, w') \<Longrightarrow> db w' = db w"
  by (auto simp: put_artifact_def split: prod.splits)

lemma publish_back_Inr:
  assumes "publish_back E st s n v token org meta artifact w = (Inr resp, w')"
  defines "sha \<equiv> sha256_hex E artifact"
  defines "key \<equiv> artifact_key sha (format_extension E (meta_format meta))"
  shows "\<exists>d1 d2 pkg i now j now'.
      upsert_package_row (manifest_package i now org n (meta_manifest meta)) (db w) = Inr d1 \<and>
      package_by_name (o_id org) n d1 = Some pkg \<and>
      insert_version (new_version E j now' pkg v meta sha (int (length artifact)) key) d1 = Inr d2 \<and>
      same_but_audits d2 (db w')"
    and "stored (store w') key = Some artifact"
    and "resp = \<lparr>pub_org = s, pub_name = n, pub_version = v, pub_sha256 = sha\<rparr>"
proof -
  from assms obtain w1 w2 e w3 where put: "put_artifact key artifact w = (Inr (), w1)"
    and txn: "publish_txn E org s n v meta sha (int (length artifact)) key w1 = (Inr (), w2)"
    and aud: "record_audit E st (o_id org) token Publish (coordinate s n v) (Some (''sha256='' @ sha)) w2 = (Inr e, w3)"
    and fin: "resp = \<lparr>pub_org = s, pub_name = n, pub_version = v, pub_sha256 = sha\<rparr>" "w' = w3"
    by (auto simp: publish_back_def Let_def andThen_Inr)
  have a: "same_but_audits (db w2) (db w')"
    using record_audit_frameD [OF aud] fin(2) by simp
  have "store w' = store w1"
    using keeps_storeD [OF publish_txn_keeps_store txn] keeps_storeD [OF record_audit_keeps_store aud] fin
    by simp
  with put_artifact_Inr [OF put] show "stored (store w') key = Some artifact" by simp
  show "resp = \<lparr>pub_org = s, pub_name = n, pub_version = v, pub_sha256 = sha\<rparr>" by (rule fin)
  show "\<exists>d1 d2 pkg i now j now'.
      upsert_package_row (manifest_package i now org n (meta_manifest meta)) (db w) = Inr d1 \<and>
      package_by_name (o_id org) n d1 = Some pkg \<and>
      insert_version (new_version E j now' pkg v meta sha (int (length artifact)) key) d1 = Inr d2 \<and>
      same_but_audits d2 (db w')"
    using publish_txn_Inr [OF txn] put_artifact_Inr [OF put] a by metis
qed

text \<open>What one successful publish means.\<close>

definition published ::
    "externals \<Rightarrow> string \<Rightarrow> string \<Rightarrow> string \<Rightarrow> publish_meta \<Rightarrow> bytes \<Rightarrow> org_row \<Rightarrow> database \<Rightarrow> database \<Rightarrow>
     artifact_store \<Rightarrow> bool" where
  "published E s n v meta artifact org d d' store' \<longleftrightarrow>
     (\<exists>pkg row.
        package_by_name (o_id org) n d' = Some pkg \<and>
        p_description pkg = m_description (meta_manifest meta) \<and>
        p_repo_url pkg = m_url (meta_manifest meta) \<and> tags_of pkg = m_keywords (meta_manifest meta) \<and>
        versions d' = versions d @ [row] \<and> version_by_name (p_id pkg) v d = None \<and>
        version_by_name (p_id pkg) v d' = Some row \<and> \<not> v_yanked row \<and>
        v_sha256 row = sha256_hex E artifact \<and> v_size row = int (length artifact) \<and>
        v_vcs_tag row = meta_vcs_tag meta \<and>
        v_format row = format_extension E (meta_format meta) \<and>
        v_artifact_key row = artifact_key (v_sha256 row) (v_format row) \<and>
        stored store' (v_artifact_key row) = Some artifact)"


section \<open>Failure\<close>

lemma publish_back_Inl:
  assumes "publish_back E st s n v token org meta artifact w = (Inl e, w')"
  shows "db w' = db w" "err_code e \<in> {''version_exists'', ''internal'', ''package_upsert_missing''}"
proof -
  let ?sha = "sha256_hex E artifact"
  let ?key = "artifact_key ?sha (format_extension E (meta_format meta))"
  let ?txn = "publish_txn E org s n v meta ?sha (int (length artifact)) ?key"
  have *: "(\<exists>x. put_artifact ?key artifact w = (Inl x, w') \<and> e = from_anyhow x) \<or>
        (\<exists>w1. put_artifact ?key artifact w = (Inr (), w1) \<and> ?txn w1 = (Inl e, w'))"
    using assms
    by (auto simp: publish_back_def Let_def andThen_Inl map_err_Inl)
  then show "db w' = db w" by (metis put_artifact_db publish_txn_Inl(1))
  from * show "err_code e \<in> {''version_exists'', ''internal'', ''package_upsert_missing''}"
    by (auto dest: publish_txn_Inl(2))
qed

lemma publish_Inl_db:
  assumes "publish E st h s n v form w = (Inl e, w')"
  shows "same_but_tokens (db w) (db w')" "\<not> auth_disabled st \<Longrightarrow> db w' = db w"
proof -
  have *: "publish_front E st h s n v form w = (Inl e, w') \<or>
     (\<exists>x w1. publish_front E st h s n v form w = (Inr x, w1) \<and> db w' = db w1)"
    using assms unfolding publish_split andThen_Inl by (auto dest: publish_back_Inl)
  then show "same_but_tokens (db w) (db w')"
    using keepsD [OF publish_front_frame, of E st h s n v form w _ _ "db w"] by auto
  show "\<not> auth_disabled st \<Longrightarrow> db w' = db w"
    using * pure_readD [OF publish_front_pure] by fastforce
qed

text \<open>Nothing is uploaded for a request that fails a check.\<close>

lemma publish_front_Inl_store:
  assumes "publish_front E st h s n v form w = (Inl e, w')"
  shows "publish E st h s n v form w = (Inl e, w') \<and> store w' = store w"
  using assms keeps_storeD [OF publish_front_store assms] by (simp add: publish_split andThen_Inl)

text \<open>
  A caller whose token may not publish to the org is refused with the authorizer's error
  after one lookup: the body is not read, and neither the store nor the database is written.
\<close>

lemma publish_unauthorized:
  assumes "require_token E st h w = (Inr token, w1)" "faults w1 (calls w1) = None"
    and "org_by_slug s (db w1) = Some org"
    and "authorize_publish (t_org token) (role_parse (t_role token)) (o_id org) = Inl e"
  shows "publish E st h s n v form w = (Inl e, next_call w1)"
  using assms by (simp add: publish_def andThen_def map_err_def)

section \<open>Immutability\<close>

text \<open>
  A version row may change in its \<open>yanked\<close> flag only, and no row is ever removed: \<open>extends vs d\<close>
  says that the version table of \<open>d\<close> is such a continuation of \<open>vs\<close>.
\<close>

definition frozen :: "version_row \<Rightarrow> version_row" where
  "frozen r = r\<lparr>v_yanked := False\<rparr>"

lemma frozen_eq: "frozen r' = frozen r \<Longrightarrow> r' = r\<lparr>v_yanked := v_yanked r'\<rparr>"
proof -
  assume eq: "frozen r' = frozen r"
  have "r' = (frozen r')\<lparr>v_yanked := v_yanked r'\<rparr>" by (simp add: frozen_def)
  also have "\<dots> = r\<lparr>v_yanked := v_yanked r'\<rparr>" unfolding eq by (simp add: frozen_def)
  finally show ?thesis .
qed

definition extends :: "version_row list \<Rightarrow> database \<Rightarrow> bool" where
  "extends vs d \<longleftrightarrow> prefix (map frozen vs) (map frozen (versions d))"

lemma extends_refl [simp]: "extends (versions d) d"
  by (simp add: extends_def)

lemma extends_same: "versions d' = versions d \<Longrightarrow> extends vs d \<Longrightarrow> extends vs d'"
  by (simp add: extends_def)

lemma extends_insert_version: "extends vs d \<Longrightarrow> insert_version r d = Inr d' \<Longrightarrow> extends vs d'"
  by (auto simp: extends_def insert_version_Inr)

lemma extends_record_audit [keeps_intro]: "keeps (extends vs) (record_audit E st org tok act sub det)"
  by (rule record_audit_keeps) (auto simp: insert_audit_Inr elim: extends_same [rotated])

lemma extends_require_token [keeps_intro]: "keeps (extends vs) (require_token E st h)"
  unfolding require_token_def insecure_operator_token_def
  by (intro keeps_intro) (auto simp: insert_token_Inr elim: extends_same [rotated])

lemma extends_publish [keeps_intro]: "keeps (extends vs) (publish E st h s n v form)"
  unfolding publish_def Let_def publish_txn_def upsert_package_def record_version_def
  by (intro keeps_intro)
    (auto elim: extends_insert_version intro: extends_same dest!: upsert_package_row_frame)

text \<open>Publishing a version that is there is refused, whoever asks and whatever they send.\<close>

lemma publish_existing:
  assumes ok: "db_ok (db w)" and org: "org_by_slug s (db w) = Some org"
    and pkg: "package_by_name (o_id org) n (db w) = Some pkg"
    and ver: "version_by_name (p_id pkg) v (db w) = Some row"
  shows "\<exists>e w'. publish E st h s n v form w = (Inl e, w') \<and> store w' = store w"
proof (cases "publish_front E st h s n v form w")
  case (Pair r w1)
  show ?thesis
  proof (cases r)
    case (Inl e)
    with Pair publish_front_Inl_store show ?thesis by blast
  next
    case (Inr x)
    obtain token org' meta artifact where x: "x = (token, org', meta, artifact)" by (cases x)
    from publish_front_Inr [OF Pair [unfolded Inr x]] org pkg ver show ?thesis by auto
  qed
qed

section \<open>Failure as the client sees it\<close>

text \<open>
  C11: A publish that answers with an error, at whatever check, write or database fault, leaves
  the database exactly as it was (with authentication on).
\<close>

theorem publish_failure_no_trace:
  assumes "\<not> auth_disabled st" "publish E st h s n v form w = (Inl e, w')"
  shows "db w' = db w"
  using publish_Inl_db(2) [OF assms(2,1)] .

end
