(* ===== verification/Yank.thy ===== *)
theory Yank
  imports Publish_Props
begin

text \<open>
  \<open>src/routes/yank.rs\<close>: yanking and restoring a version. Only the \<open>yanked\<close> flag of one row moves:
  the version disappears from every selection and stays downloadable.
\<close>

record yank_response =
  yk_org :: string
  yk_name :: string
  yk_version :: string
  yk_yanked :: bool

definition yank ::
    "externals \<Rightarrow> app_state \<Rightarrow> string option \<Rightarrow> string \<Rightarrow> string \<Rightarrow> string \<Rightarrow> bool \<Rightarrow>
     (api_err, yank_response) io" where
  "yank E st header org_slug name ver yanked =
     andThen (require_token E st header) (\<lambda>token.
     andThen (find_org org_slug) (\<lambda>org.
     andThen (lift (authorize_publish (t_org token) (role_parse (t_role token)) (o_id org))) (\<lambda>_.
     andThen (find_package org name) (\<lambda>pkg.
     andThen (find_version pkg ver) (\<lambda>row.
     andThen (dbq (update_stmt (update_version (v_id row) (\<lambda>r. r\<lparr>v_yanked := yanked\<rparr>)))) (\<lambda>_.
     andThen (record_audit E st (o_id org) token (if yanked then Yank else Unyank)
                (coordinate org_slug name ver) None) (\<lambda>_.
       ret \<lparr>yk_org = org_slug, yk_name = name, yk_version = ver, yk_yanked = yanked\<rparr>)))))))"

lemma update_yanked_ok:
  "db_ok d \<Longrightarrow> db_ok (update_version i (\<lambda>r. r\<lparr>v_yanked := y\<rparr>) d)"
  by (rule update_version_ok) (simp_all add: version_key_def)

lemma yank_keeps_db_ok [keeps_intro]: "keeps db_ok (yank E st h s n v y)"
  unfolding yank_def by (intro keeps_intro) (rule update_yanked_ok)

lemma yank_keeps_store [keeps_intro]: "keeps_store (yank E st h s n v y)"
  unfolding yank_def by (intro keeps_intro)

lemma frozen_yanked [simp]: "frozen (r\<lparr>v_yanked := y\<rparr>) = frozen r"
  by (simp add: frozen_def)

lemma extends_update_yanked:
  "extends vs d \<Longrightarrow> extends vs (update_version i (\<lambda>r. r\<lparr>v_yanked := y\<rparr>) d)"
  by (simp add: extends_def update_version_def map_map_where)

lemma extends_yank [keeps_intro]: "keeps (extends vs) (yank E st h s n v y)"
  unfolding yank_def by (intro keeps_intro) (rule extends_update_yanked)

section \<open>Effect\<close>

lemma yank_Inr:
  assumes ok: "db_ok (db w)" and run: "yank E st h s n v y w = (Inr resp, w')"
  shows "\<exists>token org pkg row w1.
     require_token E st h w = (Inr token, w1) \<and> org_by_slug s (db w) = Some org \<and>
     authorize_publish (t_org token) (role_parse (t_role token)) (o_id org) = Inr () \<and>
     package_by_name (o_id org) n (db w) = Some pkg \<and>
     version_by_name (p_id pkg) v (db w) = Some row \<and>
     versions (db w') = map_where (\<lambda>r. r = row) (\<lambda>r. r\<lparr>v_yanked := y\<rparr>) (versions (db w)) \<and>
     packages (db w') = packages (db w) \<and> orgs (db w') = orgs (db w) \<and> store w' = store w \<and>
     resp = \<lparr>yk_org = s, yk_name = n, yk_version = v, yk_yanked = y\<rparr>"
proof -
  from run obtain token w1 org w2 pkg w3 row w4 e where
    tok: "require_token E st h w = (Inr token, w1)"
    and org: "find_org s w1 = (Inr org, w2)"
    and auth: "authorize_publish (t_org token) (role_parse (t_role token)) (o_id org) = Inr ()"
    and pkg: "find_package org n w2 = (Inr pkg, w3)"
    and row: "find_version pkg v w3 = (Inr row, w4)"
    and aud: "record_audit E st (o_id org) token (if y then Yank else Unyank) (coordinate s n v) None
       ((next_call w4)\<lparr>db := update_version (v_id row) (\<lambda>r. r\<lparr>v_yanked := y\<rparr>) (db w4)\<rparr>) = (Inr e, w')"
    and resp: "resp = \<lparr>yk_org = s, yk_name = n, yk_version = v, yk_yanked = y\<rparr>"
    by (auto simp: yank_def andThen_Inr update_stmt_Inr)
  have same: "same_but_tokens (db w) (db w1)" using keepsD [OF require_token_frame tok] by simp
  note s = same_but_tokens_simps [OF same]
  note f = find_InrD(1) [OF org] find_InrD(2) [OF pkg] find_InrD(3) [OF row]
  have o: "org_by_slug s (db w) = Some org" using f(1) s by (simp add: org_by_slug_def)
  have p: "package_by_name (o_id org) n (db w) = Some pkg" using f s by (simp add: package_by_name_def)
  have r: "version_by_name (p_id pkg) v (db w) = Some row" using f s by (simp add: version_by_name_def)
  have d4: "versions (db w4) = versions (db w)" "packages (db w4) = packages (db w)" "orgs (db w4) = orgs (db w)"
    using f s by simp_all
  have "map_where (\<lambda>x. v_id x = v_id row) (\<lambda>x. x\<lparr>v_yanked := y\<rparr>) (versions (db w)) =
        map_where (\<lambda>x. x = row) (\<lambda>x. x\<lparr>v_yanked := y\<rparr>) (versions (db w))"
    unfolding map_where_def
    using distinct_map_unique [OF db_okD(9) [OF ok]] version_by_name_Some [OF r] by (intro map_cong) auto
  then have "versions (db w') = map_where (\<lambda>x. x = row) (\<lambda>x. x\<lparr>v_yanked := y\<rparr>) (versions (db w)) \<and>
      packages (db w') = packages (db w) \<and> orgs (db w') = orgs (db w)"
    using same_but_audits_simps [OF record_audit_frameD [OF aud]] d4
    by (simp add: update_version_def)
  moreover have "store w' = store w" using keeps_storeD [OF yank_keeps_store run] .
  ultimately show ?thesis using tok o auth p r resp by blast
qed

definition yank_front ::
    "externals \<Rightarrow> app_state \<Rightarrow> string option \<Rightarrow> string \<Rightarrow> string \<Rightarrow> string \<Rightarrow>
     (api_err, token_row \<times> org_row \<times> version_row) io" where
  "yank_front E st header s n v =
     andThen (require_token E st header) (\<lambda>token.
     andThen (find_org s) (\<lambda>org.
     andThen (lift (authorize_publish (t_org token) (role_parse (t_role token)) (o_id org))) (\<lambda>_.
     andThen (find_package org n) (\<lambda>pkg.
     andThen (find_version pkg v) (\<lambda>row. ret (token, org, row))))))"

definition yank_back ::
    "externals \<Rightarrow> app_state \<Rightarrow> string \<Rightarrow> string \<Rightarrow> string \<Rightarrow> bool \<Rightarrow> token_row \<times> org_row \<times> version_row \<Rightarrow>
     (api_err, yank_response) io" where
  "yank_back E st s n v y = (\<lambda>(token, org, row).
       andThen (dbq (update_stmt (update_version (v_id row) (\<lambda>r. r\<lparr>v_yanked := y\<rparr>)))) (\<lambda>_.
       andThen (record_audit E st (o_id org) token (if y then Yank else Unyank) (coordinate s n v) None) (\<lambda>_.
         ret \<lparr>yk_org = s, yk_name = n, yk_version = v, yk_yanked = y\<rparr>)))"

lemma yank_split: "yank E st h s n v y = andThen (yank_front E st h s n v) (yank_back E st s n v y)"
  by (simp add: yank_def yank_front_def yank_back_def andThen_assoc andThen_ret)

lemma yank_front_pure: "\<not> auth_disabled st \<Longrightarrow> pure_read (yank_front E st h s n v)"
  unfolding yank_front_def by (intro keeps_intro require_token_pure)

lemma yank_back_Inl: "yank_back E st s n v y x w = (Inl e, w') \<Longrightarrow> db w' = db w"
  by (cases x) (auto simp: yank_back_def andThen_Inl map_err_Inl update_stmt_Inl)

lemma yank_Inl_db:
  assumes "yank E st h s n v y w = (Inl e, w')" "\<not> auth_disabled st"
  shows "db w' = db w"
  using assms(1) unfolding yank_split andThen_Inl
  by (metis pure_readD [OF yank_front_pure [OF assms(2)]] yank_back_Inl)

section \<open>Hidden from selection, kept for download\<close>

text \<open>What a yank does to the rows of its package.\<close>

definition set_yanked :: "string \<Rightarrow> bool \<Rightarrow> version_row list \<Rightarrow> version_row list" where
  "set_yanked v y rows = map_where (\<lambda>r. v_version r = v) (\<lambda>r. r\<lparr>v_yanked := y\<rparr>) rows"

lemma visible_versions_member:
  assumes "sorts_versions E newer"
  shows "u \<in> set (visible_versions_desc E rows) \<longleftrightarrow> (\<exists>r\<in>set rows. \<not> v_yanked r \<and> v_version r = u)"
  unfolding visible_versions_set [OF assms] by (simp add: image_iff) metis

lemma yanked_not_selected:
  assumes "sorts_versions E newer"
  shows "v \<notin> set (visible_versions_desc E (set_yanked v True rows))"
proof -
  have "\<forall>r\<in>set (set_yanked v True rows). v_version r = v \<longrightarrow> v_yanked r"
  proof (intro ballI impI)
    fix r assume "r \<in> set (set_yanked v True rows)" and v: "v_version r = v"
    then obtain q where q: "r = (if v_version q = v then q\<lparr>v_yanked := True\<rparr> else q)"
      unfolding set_yanked_def map_where_def set_map by blast
    show "v_yanked r"
    proof (cases "v_version q = v")
      case True
      then show ?thesis unfolding q by simp
    next
      case False
      then show ?thesis using q v by simp
    qed
  qed
  moreover have "v \<in> set (visible_versions_desc E (set_yanked v True rows)) \<Longrightarrow>
      \<exists>r\<in>set (set_yanked v True rows). \<not> v_yanked r \<and> v_version r = v"
    unfolding visible_versions_member [OF assms] .
  ultimately show ?thesis by metis
qed

lemma other_versions_selected:
  assumes "sorts_versions E newer" "u \<noteq> v"
  shows "u \<in> set (visible_versions_desc E (set_yanked v y rows)) \<longleftrightarrow>
         u \<in> set (visible_versions_desc E rows)"
proof -
  have "(\<exists>r\<in>set (set_yanked v y rows). \<not> v_yanked r \<and> v_version r = u) \<longleftrightarrow>
        (\<exists>r\<in>set rows. \<not> v_yanked r \<and> v_version r = u)"
    using assms(2) by (induction rows) (simp_all add: set_yanked_def map_where_def)
  then show ?thesis unfolding visible_versions_member [OF assms(1)] .
qed

lemma set_yanked_overrides [simp]: "set_yanked v y (set_yanked v z rows) = set_yanked v y rows"
  by (induction rows) (auto simp: set_yanked_def map_where_def)

lemma set_yanked_id:
  "(\<And>r. r \<in> set rows \<Longrightarrow> v_version r = v \<Longrightarrow> v_yanked r = y) \<Longrightarrow> set_yanked v y rows = rows"
  unfolding set_yanked_def by (rule map_where_none) simp

text \<open>A yank followed by a restore is as if neither had happened.\<close>

lemma yank_restore:
  "(\<And>r. r \<in> set rows \<Longrightarrow> v_version r = v \<Longrightarrow> \<not> v_yanked r) \<Longrightarrow>
     set_yanked v False (set_yanked v True rows) = rows"
  by (simp add: set_yanked_id)

lemma map_where_filter:
  "(\<And>r. P (f r) = P r) \<Longrightarrow> filter P (map_where Q f rows) = map_where Q f (filter P rows)"
  by (induction rows) (auto simp: map_where_def)

lemma yank_package_rows:
  assumes "db_ok (db w)" "yank E st h s n v y w = (Inr resp, w')"
  shows "\<exists>org pkg. org_by_slug s (db w) = Some org \<and> package_by_name (o_id org) n (db w) = Some pkg \<and>
     filter (\<lambda>r. v_package r = p_id pkg) (versions (db w')) =
       set_yanked v y (filter (\<lambda>r. v_package r = p_id pkg) (versions (db w))) \<and>
     (\<forall>i. i \<noteq> p_id pkg \<longrightarrow> filter (\<lambda>r. v_package r = i) (versions (db w')) =
                           filter (\<lambda>r. v_package r = i) (versions (db w)))"
proof -
  from yank_Inr [OF assms] obtain org pkg row where
    o: "org_by_slug s (db w) = Some org" "package_by_name (o_id org) n (db w) = Some pkg"
    and row: "version_by_name (p_id pkg) v (db w) = Some row"
    and vs: "versions (db w') = map_where (\<lambda>r. r = row) (\<lambda>r. r\<lparr>v_yanked := y\<rparr>) (versions (db w))" by blast
  have only: "r = row \<longleftrightarrow> v_version r = v" if "r \<in> set (filter (\<lambda>r. v_package r = p_id pkg) (versions (db w)))" for r
    using that version_by_name_iff [OF assms(1), of "p_id pkg" v r] row by auto
  have "filter (\<lambda>r. v_package r = p_id pkg) (versions (db w')) =
     map_where (\<lambda>r. r = row) (\<lambda>r. r\<lparr>v_yanked := y\<rparr>) (filter (\<lambda>r. v_package r = p_id pkg) (versions (db w)))"
    unfolding vs by (rule map_where_filter) simp
  also have "\<dots> = set_yanked v y (filter (\<lambda>r. v_package r = p_id pkg) (versions (db w)))"
    unfolding set_yanked_def map_where_def using only by (intro map_cong) auto
  finally have 1: "filter (\<lambda>r. v_package r = p_id pkg) (versions (db w')) =
       set_yanked v y (filter (\<lambda>r. v_package r = p_id pkg) (versions (db w)))" .
  have "filter (\<lambda>r. v_package r = i) (versions (db w')) = filter (\<lambda>r. v_package r = i) (versions (db w))"
    if "i \<noteq> p_id pkg" for i
  proof -
    have "filter (\<lambda>r. v_package r = i) (versions (db w')) =
       map_where (\<lambda>r. r = row) (\<lambda>r. r\<lparr>v_yanked := y\<rparr>) (filter (\<lambda>r. v_package r = i) (versions (db w)))"
      unfolding vs by (rule map_where_filter) simp
    also have "\<dots> = filter (\<lambda>r. v_package r = i) (versions (db w))"
      using that version_by_name_Some [OF row] by (intro map_where_none) auto
    finally show ?thesis .
  qed
  with 1 o show ?thesis by blast
qed

section \<open>What a yank does to the selection\<close>

lemma selected_iff:
  assumes "sorts_versions E newer" "scans_ok E"
  shows "u \<in> set (visible_versions_desc E (versions_of E i d)) \<longleftrightarrow>
     (\<exists>r\<in>set (filter (\<lambda>r. v_package r = i) (versions d)). \<not> v_yanked r \<and> v_version r = u)"
  unfolding visible_versions_member [OF assms(1)] versions_of_def scans_ok_sets(2) [OF assms(2)] ..

lemma set_yanked_selected:
  assumes "\<exists>r\<in>set rows. v_version r = v"
  shows "(\<exists>r\<in>set (set_yanked v y rows). \<not> v_yanked r \<and> v_version r = u) \<longleftrightarrow>
     (if u = v then \<not> y else \<exists>r\<in>set rows. \<not> v_yanked r \<and> v_version r = u)"
proof (cases "u = v")
  case True
  have "(\<exists>r\<in>set (set_yanked v y rows). \<not> v_yanked r \<and> v_version r = v) \<longleftrightarrow> \<not> y \<and> (\<exists>r\<in>set rows. v_version r = v)"
    by (induction rows) (auto simp: set_yanked_def map_where_def)
  with assms True show ?thesis by simp
next
  case False
  then show ?thesis by (induction rows) (simp_all add: set_yanked_def map_where_def)
qed

text \<open>
  C19: After a successful yank or restore of (org, name, version), the versions clients select
  from are what they were, without that version (yank) or with it (restore); every other
  package selects from what it did before.
\<close>

theorem yank_selection:
  assumes "db_ok (db w)" "sorts_versions E newer" "scans_ok E"
    and "yank E st h s n v y w = (Inr resp, w')"
  shows "\<exists>org pkg. org_by_slug s (db w) = Some org \<and> package_by_name (o_id org) n (db w) = Some pkg \<and>
     set (visible_versions_desc E (versions_of E (p_id pkg) (db w'))) =
       (let before = set (visible_versions_desc E (versions_of E (p_id pkg) (db w)))
        in if y then before - {v} else insert v before) \<and>
     (\<forall>i. i \<noteq> p_id pkg \<longrightarrow> versions_of E i (db w') = versions_of E i (db w))"
proof -
  from yank_package_rows [OF assms(1,4)] obtain org pkg where
    o: "org_by_slug s (db w) = Some org" "package_by_name (o_id org) n (db w) = Some pkg"
    and rows: "filter (\<lambda>r. v_package r = p_id pkg) (versions (db w')) =
       set_yanked v y (filter (\<lambda>r. v_package r = p_id pkg) (versions (db w)))"
    and rest: "\<And>i. i \<noteq> p_id pkg \<Longrightarrow> filter (\<lambda>r. v_package r = i) (versions (db w')) =
                 filter (\<lambda>r. v_package r = i) (versions (db w))" by blast
  from yank_Inr [OF assms(1,4)] o obtain row where "version_by_name (p_id pkg) v (db w) = Some row" by auto
  then have "\<exists>r\<in>set (filter (\<lambda>r. v_package r = p_id pkg) (versions (db w))). v_version r = v"
    by (auto dest!: version_by_name_Some)
  note sel = set_yanked_selected [OF this, of y]
  have "u \<in> set (visible_versions_desc E (versions_of E (p_id pkg) (db w'))) \<longleftrightarrow>
      (if u = v then \<not> y else u \<in> set (visible_versions_desc E (versions_of E (p_id pkg) (db w))))" for u
    unfolding selected_iff [OF assms(2,3)] rows sel ..
  moreover have "versions_of E i (db w') = versions_of E i (db w)" if "i \<noteq> p_id pkg" for i
    unfolding versions_of_def rest [OF that] ..
  ultimately show ?thesis
    using o by (intro exI [of _ org] exI [of _ pkg]) (auto simp: Let_def split: if_splits)
qed

end
