(* ===== verification/Orgs.thy ===== *)
theory Orgs
  imports Publish_Props
begin

text \<open>
  \<open>src/routes/orgs.rs\<close>: claiming a namespace. The outer fiducia lock is an optional external
  service: the model has the outcome of asking for it as an argument, and shows that nothing
  depends on it. The Postgres advisory lock makes the count and the insert one critical
  section; here the transaction runs as one block, theory \<open>Quota\<close> has the lock among concurrent
  claims.
\<close>

datatype lock_outcome = NoClient | Acquired | LockRefused string | LockTaskFailed string

fun fiducia_org_claim_guard :: "lock_outcome \<Rightarrow> bool" where
  "fiducia_org_claim_guard NoClient = False"
| "fiducia_org_claim_guard Acquired = True"
| "fiducia_org_claim_guard (LockRefused _) = False"
| "fiducia_org_claim_guard (LockTaskFailed _) = False"

text \<open>The release goes to a background task, whose result is only logged.\<close>

definition release_fiducia_guard :: "bool \<Rightarrow> (api_err, unit) io" where
  "release_fiducia_guard guard = ret ()"

record claim_response =
  cl_slug :: string
  cl_created :: bool

definition org_taken :: "string \<Rightarrow> api_err" where
  "org_taken slug = err_conflict ''org_taken'' (''org `'' @ slug @ ''` is already claimed'')"

definition org_quota_exceeded :: "nat \<Rightarrow> nat \<Rightarrow> api_err" where
  "org_quota_exceeded claimed limit =
     \<lparr>err_status = FORBIDDEN, err_code = ''org_quota_exceeded'',
      err_message = ''this token has already claimed '' @ nat_str claimed @ '' orgs (limit ''
        @ nat_str limit @ ''); contact the registry operator''\<rparr>"

definition claimed_by :: "uuid \<Rightarrow> database \<Rightarrow> nat" where
  "claimed_by i d = length (filter (\<lambda>r. o_created_by r = Some i) (orgs d))"

definition check_quota :: "app_state \<Rightarrow> token_row \<Rightarrow> (api_err, unit) io" where
  "check_quota st token =
     (if t_org token \<noteq> None then
        andThen (dbq (select (claimed_by (t_id token)))) (\<lambda>claimed.
          if claimed \<ge> max_orgs_per_token st
          then fail (org_quota_exceeded claimed (max_orgs_per_token st)) else ret ())
      else ret ())"

definition insert_new_org :: "token_row \<Rightarrow> string \<Rightarrow> (api_err, uuid) io" where
  "insert_new_org token slug =
     andThen new_uuid (\<lambda>new_org_id.
     andThen utc_now (\<lambda>now.
     inspect (insert_stmt insert_org
                \<lparr>o_id = new_org_id, o_slug = slug, o_created_at = now, o_created_by = Some (t_id token)\<rparr>)
       (\<lambda>r. case r of
              Inr _ \<Rightarrow> ret new_org_id
            | Inl err \<Rightarrow>
                if err = UniqueViolation then fail (org_taken slug) else fail (from_db_err err))))"

text \<open>The advisory lock is a statement on Postgres and nothing on the SQLite of the tests.\<close>

definition claim_txn :: "app_state \<Rightarrow> token_row \<Rightarrow> string \<Rightarrow> (api_err, uuid) io" where
  "claim_txn st token slug =
     in_txn from_db_err
       (andThen (if backend st = Postgres then dbq (select (\<lambda>_. ())) else ret ()) (\<lambda>_.
        andThen (check_quota st token) (\<lambda>_.
        insert_new_org token slug)))"

definition claim_org_serialized ::
    "externals \<Rightarrow> app_state \<Rightarrow> token_row \<Rightarrow> string \<Rightarrow> (api_err, claim_response) io" where
  "claim_org_serialized E st token slug =
     andThen (claim_txn st token slug) (\<lambda>new_org_id.
     andThen (record_audit E st new_org_id token OrgClaim slug None) (\<lambda>_.
       ret \<lparr>cl_slug = slug, cl_created = True\<rparr>))"

definition claim_org ::
    "externals \<Rightarrow> app_state \<Rightarrow> lock_outcome \<Rightarrow> string option \<Rightarrow> string \<Rightarrow> (api_err, claim_response) io" where
  "claim_org E st lk header slug =
     andThen (require_token E st header) (\<lambda>token.
       if \<not> is_slug E slug then
         fail (err_bad_request ''invalid_slug'' ''org slugs are lowercase letters, digits, and hyphens'')
       else
         andThen (dbq (select (org_by_slug slug))) (\<lambda>found.
           case found of
             Some existing \<Rightarrow>
               if t_org token = Some (o_id existing)
               then ret \<lparr>cl_slug = slug, cl_created = False\<rparr>
               else fail (org_taken slug)
           | None \<Rightarrow>
               let guard = fiducia_org_claim_guard lk
               in inspect (claim_org_serialized E st token slug) (\<lambda>outcome.
                    andThen (release_fiducia_guard guard) (\<lambda>_. lift outcome))))"

section \<open>Frame\<close>

lemma claim_txn_keeps_store [keeps_intro]: "keeps_store (claim_txn st tok s)"
  unfolding claim_txn_def check_quota_def insert_new_org_def by (intro keeps_intro)

lemma claim_txn_keeps_db_ok [keeps_intro]: "keeps db_ok (claim_txn st tok s)"
  unfolding claim_txn_def check_quota_def insert_new_org_def by (intro keeps_intro) (erule (1) insert_org_ok)

lemma extends_claim_txn [keeps_intro]: "keeps (extends vs) (claim_txn st tok s)"
  unfolding claim_txn_def check_quota_def insert_new_org_def
  by (intro keeps_intro) (auto simp: insert_org_Inr elim: extends_same [rotated])

lemma claim_keeps [keeps_intro]:
  "keeps db_ok (claim_org E st lk h s)" "keeps (extends vs) (claim_org E st lk h s)"
  "keeps_store (claim_org E st lk h s)"
  unfolding claim_org_def claim_org_serialized_def release_fiducia_guard_def Let_def
  by (intro keeps_intro)+

section \<open>Effect\<close>

text \<open>The lock service decides nothing.\<close>

lemma claim_org_lock_irrelevant: "claim_org E st lk h s = claim_org E st lk' h s"
  unfolding claim_org_def release_fiducia_guard_def Let_def ..

lemma inspect_return: "inspect m (\<lambda>r. andThen (ret ()) (\<lambda>_. lift r)) = m"
  by (rule ext) (simp add: inspect_def andThen_def split: prod.split)

lemma claim_org_eq:
  "claim_org E st lk h s =
     andThen (require_token E st h) (\<lambda>token.
       if \<not> is_slug E s then
         fail (err_bad_request ''invalid_slug'' ''org slugs are lowercase letters, digits, and hyphens'')
       else
         andThen (dbq (select (org_by_slug s))) (\<lambda>found.
           case found of
             Some existing \<Rightarrow>
               if t_org token = Some (o_id existing) then ret \<lparr>cl_slug = s, cl_created = False\<rparr>
               else fail (org_taken s)
           | None \<Rightarrow> claim_org_serialized E st token s))"
  unfolding claim_org_def release_fiducia_guard_def Let_def inspect_return ..

lemma claim_org_run:
  "claim_org E st lk h s w =
     (case require_token E st h w of
        (Inl e, w1) \<Rightarrow> (Inl e, w1)
      | (Inr token, w1) \<Rightarrow>
          if \<not> is_slug E s then
            (Inl (err_bad_request ''invalid_slug'' ''org slugs are lowercase letters, digits, and hyphens''), w1)
          else
            (case faults w1 (calls w1) of
               Some e \<Rightarrow> (Inl (from_db_err e), next_call w1)
             | None \<Rightarrow>
                 (case org_by_slug s (db w1) of
                    Some existing \<Rightarrow>
                      if t_org token = Some (o_id existing)
                      then (Inr \<lparr>cl_slug = s, cl_created = False\<rparr>, next_call w1)
                      else (Inl (org_taken s), next_call w1)
                  | None \<Rightarrow> claim_org_serialized E st token s (next_call w1))))"
proof (cases "require_token E st h w")
  case (Pair r w1)
  then show ?thesis
    by (cases r; cases "faults w1 (calls w1)"; cases "org_by_slug s (db w1)")
      (simp_all add: claim_org_eq run_simps)
qed

lemma claim_serialized_Inr:
  "claim_org_serialized E st tok s w = (Inr resp, w') \<Longrightarrow>
     \<exists>i w3 e. claim_txn st tok s w = (Inr i, w3) \<and>
             record_audit E st i tok OrgClaim s None w3 = (Inr e, w')"
  by (auto simp: claim_org_serialized_def andThen_Inr)

lemma check_quota_Inr:
  "check_quota st tok w = (Inr u, w') \<Longrightarrow>
     db w' = db w \<and> (t_org tok \<noteq> None \<longrightarrow> claimed_by (t_id tok) (db w) < max_orgs_per_token st)"
  by (auto simp: check_quota_def andThen_Inr select_Inr split: if_splits)

lemma check_quota_Inl:
  "check_quota st tok w = (Inl e, w') \<Longrightarrow> err_code e \<in> {''org_quota_exceeded'', ''internal''}"
  by (auto simp: check_quota_def andThen_Inl map_err_Inl org_quota_exceeded_def split: if_splits)

lemma insert_new_org_Inr:
  "insert_new_org tok s w = (Inr i, w') \<Longrightarrow>
     \<exists>now. insert_org \<lparr>o_id = i, o_slug = s, o_created_at = now, o_created_by = Some (t_id tok)\<rparr> (db w)
             = Inr (db w')"
  by (auto simp: insert_new_org_def andThen_Inr new_uuid_Inr utc_now_Inr inspect_iff insert_stmt_Inr
      split: if_splits)

lemma insert_new_org_Inl:
  "insert_new_org tok s w = (Inl e, w') \<Longrightarrow> err_code e \<in> {''org_taken'', ''internal''}"
  by (auto simp: insert_new_org_def andThen_Inl inspect_iff org_taken_def split: if_splits)

lemma claim_txn_Inr:
  assumes "claim_txn st tok s w = (Inr i, w')"
  shows "\<exists>now. insert_org \<lparr>o_id = i, o_slug = s, o_created_at = now, o_created_by = Some (t_id tok)\<rparr> (db w)
               = Inr (db w')"
    and "t_org tok \<noteq> None \<Longrightarrow> claimed_by (t_id tok) (db w) < max_orgs_per_token st"
proof -
  from assms obtain w1 w2 w3 where
    q: "check_quota st tok w1 = (Inr (), w2)" and i: "insert_new_org tok s w2 = (Inr i, w3)"
    and w: "db w1 = db w" "db w' = db w3"
    by (auto simp: claim_txn_def in_txn_Inr andThen_Inr select_Inr split: if_splits)
  from check_quota_Inr [OF q] insert_new_org_Inr [OF i] w
  show "\<exists>now. insert_org \<lparr>o_id = i, o_slug = s, o_created_at = now, o_created_by = Some (t_id tok)\<rparr> (db w)
               = Inr (db w')"
    and "t_org tok \<noteq> None \<Longrightarrow> claimed_by (t_id tok) (db w) < max_orgs_per_token st"
    by auto
qed

lemma claim_txn_Inl:
  assumes "claim_txn st tok s w = (Inl e, w')"
  shows "db w' = db w" "err_code e \<in> {''org_quota_exceeded'', ''org_taken'', ''internal''}"
proof -
  show "db w' = db w" using assms unfolding claim_txn_def by (rule in_txn_Inl_db)
  show "err_code e \<in> {''org_quota_exceeded'', ''org_taken'', ''internal''}"
    using in_txn_Inl [OF assms [unfolded claim_txn_def]]
    by (auto simp: andThen_Inl map_err_Inl split: if_splits
        dest!: check_quota_Inl insert_new_org_Inl)
qed

lemma claim_org_Inr:
  assumes ok: "db_ok (db w)" and run: "claim_org E st lk h s w = (Inr resp, w')"
    and created: "cl_created resp"
  shows "\<exists>token w1 row.
     require_token E st h w = (Inr token, w1) \<and> is_slug E s \<and> org_by_slug s (db w) = None \<and>
     orgs (db w') = orgs (db w) @ [row] \<and> o_slug row = s \<and> o_created_by row = Some (t_id token) \<and>
     o_id row \<notin> o_id ` set (orgs (db w)) \<and>
     org_by_slug s (db w') = Some row \<and> packages (db w') = packages (db w) \<and>
     versions (db w') = versions (db w) \<and>
     (t_org token \<noteq> None \<longrightarrow> claimed_by (t_id token) (db w') \<le> max_orgs_per_token st)"
proof -
  from run created obtain token w1 i w3 e where
    tok: "require_token E st h w = (Inr token, w1)" and slug: "is_slug E s"
    and none: "org_by_slug s (db w1) = None"
    and txn: "claim_txn st token s (next_call w1) = (Inr i, w3)"
    and aud: "record_audit E st i token OrgClaim s None w3 = (Inr e, w')"
    unfolding claim_org_run
    by (auto split: prod.splits sum.splits if_splits option.splits dest!: claim_serialized_Inr)
  have same: "same_but_tokens (db w) (db w1)" using keepsD [OF require_token_frame tok] by simp
  note q = same_but_tokens_simps [OF same]
  from claim_txn_Inr(1) [OF txn] obtain now where
    ins: "insert_org \<lparr>o_id = i, o_slug = s, o_created_at = now, o_created_by = Some (t_id token)\<rparr> (db w1)
          = Inr (db w3)" by auto
  let ?row = "\<lparr>o_id = i, o_slug = s, o_created_at = now, o_created_by = Some (t_id token)\<rparr>"
  note a = same_but_audits_simps [OF record_audit_frameD [OF aud]]
  have eff: "orgs (db w') = orgs (db w) @ [?row]" "i \<notin> o_id ` set (orgs (db w))"
    "packages (db w') = packages (db w)" "versions (db w') = versions (db w)"
    using ins a q by (auto simp: insert_org_Inr)
  have none': "org_by_slug s (db w) = None" using none q by (simp add: org_by_slug_def)
  have some: "org_by_slug s (db w') = Some ?row"
    using none' by (simp add: org_by_slug_def eff(1) find_append)
  have quota: "claimed_by (t_id token) (db w') \<le> max_orgs_per_token st" if "t_org token \<noteq> None"
    using claim_txn_Inr(2) [OF txn that] q eff(1) by (simp add: claimed_by_def)
  show ?thesis
    by (intro exI [of _ token] exI [of _ w1] exI [of _ ?row])
      (use tok slug none' eff some quota in simp)
qed

lemma claim_serialized_Inl: "claim_org_serialized E st tok s w = (Inl e, w') \<Longrightarrow> db w' = db w"
  by (auto simp: claim_org_serialized_def andThen_Inl dest: claim_txn_Inl(1))

lemma claim_org_Inl_db:
  assumes "claim_org E st lk h s w = (Inl e, w')"
  shows "same_but_tokens (db w) (db w')" "\<not> auth_disabled st \<Longrightarrow> db w' = db w"
proof -
  have *: "require_token E st h w = (Inl e, w') \<or>
     (\<exists>tok w1. require_token E st h w = (Inr tok, w1) \<and> db w' = db w1)"
    using assms unfolding claim_org_run
    by (auto split: prod.splits sum.splits if_splits option.splits dest!: claim_serialized_Inl)
  then show "same_but_tokens (db w) (db w')"
    using keepsD [OF require_token_frame, of E st h w _ _ "db w"] by auto
  show "\<not> auth_disabled st \<Longrightarrow> db w' = db w"
    using * pure_readD [OF require_token_pure] by metis
qed

text \<open>A namespace that is taken stays with its owner, whoever else asks for it.\<close>

lemma claim_taken:
  assumes "require_token E st h w = (Inr token, w1)" "faults w1 (calls w1) = None" "is_slug E s"
    and "org_by_slug s (db w1) = Some existing" "t_org token \<noteq> Some (o_id existing)"
  shows "claim_org E st lk h s w = (Inl (org_taken s), next_call w1)"
  using assms by (simp add: claim_org_eq andThen_def map_err_def)

text \<open>
  A scoped token that has just claimed a namespace may not publish to it: the claim does not
  extend the token's scope, which is still the org it was minted for.
\<close>

lemma claimed_org_unusable:
  assumes ok: "db_ok (db w)" and on: "\<not> auth_disabled st"
    and run: "claim_org E st lk h s w = (Inr resp, w')" and created: "cl_created resp"
    and scoped: "require_token E st h w = (Inr token, w1)" "t_org token \<noteq> None"
  shows "\<exists>row. org_by_slug s (db w') = Some row \<and>
     authorize_publish (t_org token) (role_parse (t_role token)) (o_id row) = Inl err_unauthorized"
proof -
  from claim_org_Inr [OF ok run created] scoped(1) obtain row where
    row: "org_by_slug s (db w') = Some row" "o_id row \<notin> o_id ` set (orgs (db w))" by auto
  from scoped(2) obtain i where i: "t_org token = Some i" by auto
  have "token \<in> set (tokens (db w))" using require_token_sound(1) [OF on scoped(1)] .
  then have "i \<in> o_id ` set (orgs (db w))" using ok i by (force simp: db_ok_def fk_ok_def)
  then have "i \<noteq> o_id row" using row(2) by blast
  with row(1) i authorize_publish_cross_org show ?thesis by auto
qed

section \<open>Claiming as the client sees it\<close>

text \<open>
  C16: A claim that reports a created namespace had an accepted token and a free, well-formed
  slug, added exactly one org row, recorded as created by that token, and left a scoped token
  within its quota.
\<close>

theorem claim_creates_org:
  assumes "db_ok (db w)" "claim_org E st lk h s w = (Inr resp, w')" "cl_created resp"
  shows "\<exists>token w1 row.
     require_token E st h w = (Inr token, w1) \<and> is_slug E s \<and> org_by_slug s (db w) = None \<and>
     orgs (db w') = orgs (db w) @ [row] \<and> o_slug row = s \<and> o_created_by row = Some (t_id token) \<and>
     o_id row \<notin> o_id ` set (orgs (db w)) \<and>
     org_by_slug s (db w') = Some row \<and> packages (db w') = packages (db w) \<and>
     versions (db w') = versions (db w) \<and>
     (t_org token \<noteq> None \<longrightarrow> claimed_by (t_id token) (db w') \<le> max_orgs_per_token st)"
  by (rule claim_org_Inr [OF assms])

text \<open>
  C17: A scoped token that has used up its quota is refused with the quota error, and the
  refusal writes nothing, whatever the external lock service answered.
\<close>

theorem claim_over_quota_refused:
  assumes "require_token E st h w = (Inr token, w1)" "\<And>n. faults w1 n = None" "is_slug E s"
    and "org_by_slug s (db w1) = None" "t_org token \<noteq> None"
    and "max_orgs_per_token st \<le> claimed_by (t_id token) (db w1)"
  shows "\<exists>w'. claim_org E st lk h s w =
      (Inl (org_quota_exceeded (claimed_by (t_id token) (db w1)) (max_orgs_per_token st)), w') \<and>
    db w' = db w1"
  using assms
  by (simp add: claim_org_def claim_org_serialized_def claim_txn_def check_quota_def run_simps
      in_txn_def release_fiducia_guard_def Let_def)

end
