(* ===== verification/Integrity.thy ===== *)
theory Integrity
  imports Yank Orgs
begin

text \<open>
  What the tables promise together: the schema's integrity with the hash chain of every org's
  audit log, the statements that keep it, and the facts on digests that the artifact store rests
  on.
\<close>

section \<open>The audit log of every org\<close>

definition chain_inv :: "externals \<Rightarrow> database \<Rightarrow> bool" where
  "chain_inv E d \<longleftrightarrow> db_ok d \<and> (\<forall>org. log_ok E (org_log org d))"

text \<open>The digest is never empty: it is hex of 32 bytes.\<close>

definition hex_digests :: "externals \<Rightarrow> bool" where
  "hex_digests E \<longleftrightarrow> (\<forall>s. length (sha256_hex E s) = 64)"

lemma hex_digests_nonempty: "hex_digests E \<Longrightarrow> sha256_hex E s \<noteq> []"
  unfolding hex_digests_def by (metis list.size(3) zero_neq_numeral)

lemma chain_inv_same_audits: "chain_inv E d \<Longrightarrow> db_ok d' \<Longrightarrow> audits d' = audits d \<Longrightarrow> chain_inv E d'"
  by (simp add: chain_inv_def org_log_def org_rows_def)

lemma chain_inv_empty: "chain_inv E empty_db"
proof -
  have "audits empty_db = []" by (simp add: empty_db_def)
  then show ?thesis
    by (simp add: chain_inv_def empty_db_ok org_log_def org_rows_def log_ok_def chain_part_def)
qed

lemma chain_inv_append:
  assumes hex: "hex_digests E" and inv: "chain_inv E d"
    and ins: "insert_audit (append_row E org tok act sub det (audit_tip org d) now i) d = Inr d'"
  shows "chain_inv E d'"
proof -
  let ?x = "append_row E org tok act sub det (audit_tip org d) now i"
  have ok: "db_ok d" and log: "log_ok E (org_log o' d)" for o' using inv by (simp_all add: chain_inv_def)
  have "log_ok E (org_log o' d')" for o'
  proof (cases "o' = org")
    case True
    with append_log_ok [OF ok ins refl log hex_digests_nonempty [OF hex]] show ?thesis by simp
  next
    case False
    then have "org_log o' d' = org_log o' d"
      using ins append_other_org [of ?x o' d] by (simp add: insert_audit_Inr)
    with log show ?thesis by simp
  qed
  with insert_audit_ok [OF ok ins] show ?thesis by (simp add: chain_inv_def)
qed

lemma chain_inv_inserts:
  "chain_inv E d \<Longrightarrow> insert_token r1 d = Inr d' \<Longrightarrow> chain_inv E d'"
  "chain_inv E d \<Longrightarrow> insert_org r2 d = Inr d' \<Longrightarrow> chain_inv E d'"
  "chain_inv E d \<Longrightarrow> insert_version r3 d = Inr d' \<Longrightarrow> chain_inv E d'"
  "chain_inv E d \<Longrightarrow> upsert_package_row r4 d = Inr d' \<Longrightarrow> chain_inv E d'"
  "chain_inv E d \<Longrightarrow> chain_inv E (update_version i (\<lambda>r. r\<lparr>v_yanked := y\<rparr>) d)"
proof -
  assume inv: "chain_inv E d"
  then have ok: "db_ok d" by (simp add: chain_inv_def)
  note same = chain_inv_same_audits [OF inv]
  show "insert_token r1 d = Inr d' \<Longrightarrow> chain_inv E d'"
    by (rule same [OF insert_token_ok [OF ok]]) (auto simp: insert_token_Inr)
  show "insert_org r2 d = Inr d' \<Longrightarrow> chain_inv E d'"
    by (rule same [OF insert_org_ok [OF ok]]) (auto simp: insert_org_Inr)
  show "insert_version r3 d = Inr d' \<Longrightarrow> chain_inv E d'"
    by (rule same [OF insert_version_ok [OF ok]]) (auto simp: insert_version_Inr)
  show "upsert_package_row r4 d = Inr d' \<Longrightarrow> chain_inv E d'"
    by (rule same [OF upsert_package_row_ok [OF ok]]) (auto dest: upsert_package_row_frame)
  show "chain_inv E (update_version i (\<lambda>r. r\<lparr>v_yanked := y\<rparr>) d)"
    by (rule same [OF update_yanked_ok [OF ok]]) (simp add: update_version_def)
qed

text \<open>A registry without legacy rows has none later: every entry it appends carries a hash.\<close>

definition all_hashed :: "database \<Rightarrow> bool" where
  "all_hashed d \<longleftrightarrow> (\<forall>r\<in>set (audits d). a_hash r \<noteq> [])"

lemma all_hashed_append:
  assumes "hex_digests E" "all_hashed d"
    and "insert_audit (append_row E org tok act sub det tip now i) d = Inr d'"
  shows "all_hashed d'"
proof -
  have "a_hash (append_row E org tok act sub det tip now i) \<noteq> []"
    unfolding append_row_hash expected_hash_def entry_digest_def
    by (rule hex_digests_nonempty [OF assms(1)])
  with assms(2,3) show ?thesis by (auto simp: all_hashed_def insert_audit_Inr)
qed

section \<open>Artifact keys\<close>

lemma artifact_key_sha:
  assumes "hex_digests E" "artifact_key (sha256_hex E a) x = artifact_key (sha256_hex E b) y"
  shows "sha256_hex E a = sha256_hex E b"
  using assms by (auto simp: artifact_key_def hex_digests_def)

definition clean_events :: "world \<Rightarrow> bool" where
  "clean_events w \<longleftrightarrow> (\<forall>n. clean_io (io_result (io_events w n)))"

end
