(* ===== verification/Audit_Routes.thy ===== *)
theory Audit_Routes
  imports Audit_Props Selection
begin

text \<open>
  \<open>src/routes/audit.rs\<close>: reading an org's audit log page by page, and the verification
  endpoint. Both are for managers of the org only.
\<close>

definition DEFAULT_LIMIT :: nat where
  "DEFAULT_LIMIT = 100"

definition MAX_LIMIT :: nat where
  "MAX_LIMIT = 1000"

definition MAX_VERIFY_ROWS :: nat where
  "MAX_VERIFY_ROWS = 50000"

record audit_query =
  q_limit :: "nat option"
  q_action :: "string option"
  q_before :: "int option"

record audit_entry =
  en_at :: string
  en_action_kind :: "audit_action option"
  en_action :: string
  en_subject :: string
  en_token_name :: string
  en_role :: string
  en_detail :: "string option"
  en_seq :: nat
  en_hash :: string
  en_prev :: "string option"

definition to_entry :: "externals \<Rightarrow> audit_row \<Rightarrow> audit_entry" where
  "to_entry E r =
     \<lparr>en_at = rfc3339 E (a_at r), en_action_kind = action_parse E (a_action r),
      en_action = a_action r, en_subject = a_subject r, en_token_name = a_token_name r,
      en_role = a_role r, en_detail = a_detail r, en_seq = nat (max (a_seq r) 0),
      en_hash = a_hash r, en_prev = a_prev r\<rparr>"

definition page_limit :: "audit_query \<Rightarrow> nat" where
  "page_limit q = clamp 1 MAX_LIMIT (case q_limit q of None \<Rightarrow> DEFAULT_LIMIT | Some l \<Rightarrow> l)"

text \<open>\<open>ORDER BY seq DESC, at DESC\<close>.\<close>

definition newest_first :: "audit_row list \<Rightarrow> audit_row list" where
  "newest_first rows = sort_key (\<lambda>r. - a_seq r) (sort_key (\<lambda>r. - a_at r) rows)"

definition audit_page ::
    "uuid \<Rightarrow> string option \<Rightarrow> int option \<Rightarrow> nat \<Rightarrow> database \<Rightarrow> audit_row list" where
  "audit_page org action before limit d =
     take limit (newest_first
       (filter (\<lambda>r. opt_holds (\<lambda>b. a_seq r < b) before)
          (filter (\<lambda>r. opt_holds (\<lambda>a. a_action r = a) action)
             (filter (\<lambda>r. a_org r = org) (audits d)))))"

definition invalid_action :: "string \<Rightarrow> api_err" where
  "invalid_action action =
     err_bad_request ''invalid_action''
       (''unknown action `'' @ action @ ''`; expected publish, yank, unyank, or org_claim'')"

definition get_audit_log ::
    "externals \<Rightarrow> app_state \<Rightarrow> string option \<Rightarrow> string \<Rightarrow> audit_query \<Rightarrow>
     (api_err, string \<times> audit_entry list) io" where
  "get_audit_log E st header org_slug query =
     andThen (require_token E st header) (\<lambda>token.
     andThen (find_org org_slug) (\<lambda>org.
     andThen (lift (authorize_manage (t_org token) (role_parse (t_role token)) (o_id org))) (\<lambda>_.
     andThen (case q_action query of
                Some action \<Rightarrow>
                  if action_parse E action = None then fail (invalid_action action) else ret ()
              | None \<Rightarrow> ret ()) (\<lambda>_.
     andThen (dbq (select (audit_page (o_id org) (q_action query) (q_before query) (page_limit query))))
       (\<lambda>rows. ret (org_slug, map (to_entry E) rows))))))"

record integrity =
  in_org :: string
  in_intact :: bool
  in_checked :: nat
  in_first_bad :: "nat option"
  in_problem :: "string option"
  in_head :: "string option"

definition verify_rows :: "uuid \<Rightarrow> database \<Rightarrow> audit_row list" where
  "verify_rows org d = take MAX_VERIFY_ROWS (sort_key a_seq (filter (\<lambda>r. a_org r = org) (audits d)))"

definition integrity_response :: "string \<Rightarrow> chain_report \<Rightarrow> integrity" where
  "integrity_response org_slug report =
     \<lparr>in_org = org_slug, in_intact = rep_intact report, in_checked = rep_checked report,
      in_first_bad = map_option (\<lambda>s. nat (max s 0)) (rep_first_bad report),
      in_problem = map_option problem_as_str (rep_problem report), in_head = rep_head report\<rparr>"

definition verify_audit_log ::
    "externals \<Rightarrow> app_state \<Rightarrow> string option \<Rightarrow> string \<Rightarrow> (api_err, integrity) io" where
  "verify_audit_log E st header org_slug =
     andThen (require_token E st header) (\<lambda>token.
     andThen (find_org org_slug) (\<lambda>org.
     andThen (lift (authorize_manage (t_org token) (role_parse (t_role token)) (o_id org))) (\<lambda>_.
     andThen (dbq (select (verify_rows (o_id org)))) (\<lambda>rows.
       ret (integrity_response org_slug (verify_chain E rows))))))"

section \<open>Paging\<close>

lemma page_limit_bounds: "1 \<le> page_limit q \<and> page_limit q \<le> MAX_LIMIT"
  unfolding page_limit_def by (rule clamp_bounds) (simp add: MAX_LIMIT_def)

definition desc_seq :: "audit_row list \<Rightarrow> bool" where
  "desc_seq rows \<longleftrightarrow> sorted_wrt (\<lambda>a b. a_seq b < a_seq a) rows"

lemma strictly_desc:
  "sorted (map (\<lambda>r. - a_seq r) ys) \<Longrightarrow> distinct (map a_seq ys) \<Longrightarrow> desc_seq ys"
  unfolding desc_seq_def
proof (induction ys)
  case (Cons y ys)
  have "a_seq x < a_seq y" if "x \<in> set ys" for x
  proof -
    have "a_seq x \<le> a_seq y" using Cons.prems that by simp
    moreover have "a_seq x \<noteq> a_seq y" using Cons.prems(2) that by (metis distinct.simps(2) image_eqI list.simps(9) set_map)
    ultimately show ?thesis by simp
  qed
  with Cons show ?case by simp
qed simp

lemma newest_first_desc:
  assumes "distinct (map a_seq rows)"
  shows "desc_seq (newest_first rows)"
proof -
  have "sorted (map (\<lambda>r. - a_seq r) (newest_first rows))" by (simp add: newest_first_def)
  moreover have "distinct (map a_seq (newest_first rows))"
  proof -
    have "mset (map a_seq (newest_first rows)) = mset (map a_seq rows)" by (simp add: newest_first_def)
    then show ?thesis using assms by (metis mset_eq_imp_distinct_iff)
  qed
  ultimately show ?thesis by (rule strictly_desc)
qed

lemma filter_newest_first: "filter P (newest_first rows) = newest_first (filter P rows)"
  by (simp add: newest_first_def filter_sort)

lemma desc_below_last:
  assumes "desc_seq (xs @ ys)" "xs \<noteq> []"
  shows "filter (\<lambda>r. a_seq r < a_seq (last xs)) (xs @ ys) = ys"
proof -
  have "\<forall>r\<in>set xs. \<not> a_seq r < a_seq (last xs)"
    using assms
    by (induction xs rule: rev_induct) (auto simp: desc_seq_def sorted_wrt_append)
  moreover have "\<forall>r\<in>set ys. a_seq r < a_seq (last xs)"
    using assms by (auto simp: desc_seq_def sorted_wrt_append)
  ultimately show ?thesis by (simp add: filter_empty_conv filter_id_conv)
qed

lemma desc_take: "desc_seq rows \<Longrightarrow> desc_seq (take n rows)"
  unfolding desc_seq_def by (metis append_take_drop_id sorted_wrt_append)

lemma matching_distinct:
  assumes "db_ok d"
  shows "distinct (map a_seq (filter P (filter (\<lambda>r. a_org r = org) (audits d))))"
  using distinct_org_seqs [OF assms, of org] unfolding org_rows_def by (rule distinct_map_filter)

text \<open>The next page starts exactly where the previous one stopped.\<close>

text \<open>
  C27: Paging through the audit log with \<open>before\<close> set to the last entry seen continues exactly where
  a full page stopped: two pages together are the one larger page.
\<close>

theorem audit_page_continues:
  assumes ok: "db_ok d" and full: "length (audit_page org act before k d) = k" and k: "0 < k"
  shows "audit_page org act before k d @
           audit_page org act (Some (a_seq (last (audit_page org act before k d)))) j d =
         audit_page org act before (k + j) d"
proof -
  let ?match = "filter (\<lambda>r. opt_holds (\<lambda>a. a_action r = a) act) (filter (\<lambda>r. a_org r = org) (audits d))"
  let ?all = "newest_first ?match"
  let ?L = "filter (\<lambda>r. opt_holds (\<lambda>b. a_seq r < b) before) ?all"
  have desc: "desc_seq ?all" using matching_distinct [OF ok] by (rule newest_first_desc)
  then have descL: "desc_seq ?L" unfolding desc_seq_def by (rule sorted_wrt_filter)
  have page: "audit_page org act b n d = take n (filter (\<lambda>r. opt_holds (\<lambda>b. a_seq r < b) b) ?all)" for b n
    by (simp add: audit_page_def filter_newest_first)
  let ?s = "a_seq (last (take k ?L))"
  have ne: "take k ?L \<noteq> []" using full k unfolding page by auto
  have "last (take k ?L) \<in> set ?L" using ne by (meson in_set_takeD last_in_set)
  then have "opt_holds (\<lambda>b. ?s < b) before" by simp
  then have "filter (\<lambda>r. a_seq r < ?s) ?all = filter (\<lambda>r. a_seq r < ?s) ?L"
    by (cases before) (auto intro!: filter_cong)
  also have "\<dots> = drop k ?L"
    using desc_below_last [of "take k ?L" "drop k ?L"] descL ne by simp
  finally have "audit_page org act (Some ?s) j d = take j (drop k ?L)"
    by (simp add: page)
  then show ?thesis unfolding page by (simp add: take_add)
qed

text \<open>A page holds the newest matching entries below the cursor, newest first.\<close>

lemma audit_page_spec:
  assumes "db_ok d"
  shows "desc_seq (audit_page org act before n d)"
    and "\<And>r. r \<in> set (audit_page org act before n d) \<Longrightarrow>
           r \<in> set (org_rows org d) \<and> opt_holds (\<lambda>a. a_action r = a) act \<and> opt_holds (\<lambda>b. a_seq r < b) before"
    and "length (audit_page org act before n d) \<le> n"
    and "\<And>r q. r \<in> set (org_rows org d) \<Longrightarrow> opt_holds (\<lambda>a. a_action r = a) act \<Longrightarrow>
           opt_holds (\<lambda>b. a_seq r < b) before \<Longrightarrow> r \<notin> set (audit_page org act before n d) \<Longrightarrow>
           q \<in> set (audit_page org act before n d) \<Longrightarrow> a_seq r < a_seq q"
proof -
  let ?M = "filter (\<lambda>r. opt_holds (\<lambda>b. a_seq r < b) before)
     (filter (\<lambda>r. opt_holds (\<lambda>a. a_action r = a) act) (filter (\<lambda>r. a_org r = org) (audits d)))"
  let ?L = "newest_first ?M"
  have page: "audit_page org act before n d = take n ?L" by (simp add: audit_page_def)
  have "distinct (map a_seq ?M)" by (rule distinct_map_filter) (rule matching_distinct [OF assms])
  then have desc: "desc_seq ?L" by (rule newest_first_desc)
  then show "desc_seq (audit_page org act before n d)" unfolding page by (rule desc_take)
  show "length (audit_page org act before n d) \<le> n" by (simp add: page)
  have set: "set ?L = set ?M" by (simp add: newest_first_def)
  show "r \<in> set (org_rows org d) \<and> opt_holds (\<lambda>a. a_action r = a) act \<and> opt_holds (\<lambda>b. a_seq r < b) before"
    if "r \<in> set (audit_page org act before n d)" for r
    using that set unfolding page by (auto simp: org_rows_def dest: in_set_takeD)
  show "a_seq r < a_seq q"
    if "r \<in> set (org_rows org d)" "opt_holds (\<lambda>a. a_action r = a) act"
      "opt_holds (\<lambda>b. a_seq r < b) before" "r \<notin> set (audit_page org act before n d)"
      "q \<in> set (audit_page org act before n d)" for r q
  proof -
    have "r \<in> set ?L" using that set by (auto simp: org_rows_def)
    also have "set ?L = set (take n ?L) \<union> set (drop n ?L)"
      by (metis append_take_drop_id set_append)
    finally have "r \<in> set (drop n ?L)" using that(4) unfolding page by simp
    moreover have "desc_seq (take n ?L @ drop n ?L)" using desc by simp
    ultimately show ?thesis using that(5) unfolding page desc_seq_def sorted_wrt_append by blast
  qed
qed

section \<open>The verification endpoint\<close>

lemma verify_rows_log: "verify_rows org d = take MAX_VERIFY_ROWS (org_log org d)"
  by (simp add: verify_rows_def org_log_def org_rows_def)

text \<open>What lies beyond the first \<open>MAX_VERIFY_ROWS\<close> entries is not looked at.\<close>

lemma verify_cap_blind:
  assumes "take MAX_VERIFY_ROWS (org_log org d) = take MAX_VERIFY_ROWS (org_log org d')"
  shows "verify_chain E (verify_rows org d) = verify_chain E (verify_rows org d')"
  using assms by (simp add: verify_rows_log)

lemma manager_only:
  assumes "verify_audit_log E st h s w = (Inr resp, w') \<or> get_audit_log E st h s q w = (Inr resp', w')"
    and "\<not> auth_disabled st"
  shows "\<exists>token org. token \<in> set (tokens (db w)) \<and> org_by_slug s (db w) = Some org \<and>
     (t_org token = None \<or> (t_org token = Some (o_id org) \<and> can_manage (role_parse (t_role token))))"
proof -
  from assms(1) obtain token org w1 w2 where
    tok: "require_token E st h w = (Inr token, w1)" and org: "find_org s w1 = (Inr org, w2)"
    and auth: "authorize_manage (t_org token) (role_parse (t_role token)) (o_id org) = Inr ()"
    by (auto simp: verify_audit_log_def get_audit_log_def andThen_Inr)
  have "db w1 = db w" using pure_readD [OF require_token_pure [OF assms(2)] tok] by simp
  with find_InrD(1) [OF org] require_token_sound(1) [OF assms(2) tok] auth show ?thesis
    by (auto simp: authorize_manage_ok)
qed

lemma audit_routes_pure:
  assumes "\<not> auth_disabled st"
  shows "pure_read (get_audit_log E st h s q)" "pure_read (verify_audit_log E st h s)"
  unfolding get_audit_log_def verify_audit_log_def
  by (intro keeps_intro require_token_pure assms)+

end
