(* ===== verification/Config.thy ===== *)
theory Config
  imports World
begin

text \<open>
  \<open>src/config.rs\<close>: the configuration read from the process environment, in the order in which
  the code reads it; the error is the text of the first variable that is wrong.
\<close>

record fiducia_config =
  fc_url :: string
  fc_internal_secret :: "string option"
  fc_org_id :: string

datatype storage_config =
    CfgMemory (cfg_max_bytes: nat)
  | CfgLocal (cfg_dir: string)
  | CfgS3 (cfg_bucket: string) (cfg_endpoint: "string option") (cfg_region: string) (cfg_path_style: bool)

record config =
  bind_addr :: string
  database_url :: string
  auto_migrate :: bool
  storage_cfg :: storage_config
  base_url :: string
  tag_check_policy :: tag_policy
  max_artifact_bytes :: nat
  orgs_per_token :: nat
  db_max_connections :: nat
  fiducia_cfg :: "fiducia_config option"

type_synonym env = "string \<Rightarrow> string option"

definition env_or :: "env \<Rightarrow> string \<Rightarrow> string \<Rightarrow> string" where
  "env_or env key def = (case env key of None \<Rightarrow> def | Some v \<Rightarrow> v)"

definition with_context :: "'a option \<Rightarrow> string \<Rightarrow> string + 'a" where
  "with_context v msg = (case v of None \<Rightarrow> Inl msg | Some x \<Rightarrow> Inr x)"

definition storage_from_env :: "env \<Rightarrow> string + storage_config" where
  "storage_from_env env =
     (let be = env_or env ''STORAGE_BACKEND'' ''local''
      in if be = ''memory'' then
           (case parse_u64 (env_or env ''STORAGE_MEMORY_MAX_BYTES'' ''268435456'') of
              None \<Rightarrow> Inl ''STORAGE_MEMORY_MAX_BYTES must be a number''
            | Some n \<Rightarrow>
                if n = 0 then Inl ''STORAGE_MEMORY_MAX_BYTES must be greater than zero''
                else Inr (CfgMemory n))
         else if be = ''local'' then Inr (CfgLocal (env_or env ''STORAGE_LOCAL_DIR'' ''.data/artifacts''))
         else if be = ''s3'' then
           (case env ''S3_BUCKET'' of
              None \<Rightarrow> Inl ''S3_BUCKET is required for s3''
            | Some b \<Rightarrow>
                Inr (CfgS3 b (env ''S3_ENDPOINT_URL'') (env_or env ''S3_REGION'' ''auto'')
                       (env_or env ''S3_FORCE_PATH_STYLE'' ''true'' = ''true'')))
         else Inl (''STORAGE_BACKEND must be memory, local, or s3, got `'' @ be @ ''`''))"

definition tags_from_env :: "env \<Rightarrow> string + tag_policy" where
  "tags_from_env env =
     (let v = env_or env ''ZED_VERIFY_TAGS'' ''off''
      in if v = ''off'' then Inr TagOff
         else if v = ''github'' then Inr TagGithub
         else Inl (''ZED_VERIFY_TAGS must be off or github, got `'' @ v @ ''`''))"

definition fiducia_from_env :: "env \<Rightarrow> fiducia_config option" where
  "fiducia_from_env env =
     map_option (\<lambda>url. \<lparr>fc_url = url, fc_internal_secret = env ''FIDUCIA_INTERNAL_SECRET'',
                       fc_org_id = env_or env ''FIDUCIA_ORG_ID'' ''zed-registry''\<rparr>)
       (env ''FIDUCIA_URL'')"

definition config_from_env :: "env \<Rightarrow> string + config" where
  "config_from_env env =
     (case storage_from_env env of Inl e \<Rightarrow> Inl e | Inr storage' \<Rightarrow>
     (case tags_from_env env of Inl e \<Rightarrow> Inl e | Inr policy \<Rightarrow>
     (case with_context (env ''DATABASE_URL'') ''DATABASE_URL is required'' of Inl e \<Rightarrow> Inl e | Inr url \<Rightarrow>
     (case with_context (parse_u64 (env_or env ''MAX_ARTIFACT_BYTES'' ''104857600''))
             ''MAX_ARTIFACT_BYTES must be a number'' of Inl e \<Rightarrow> Inl e | Inr artifact_bytes \<Rightarrow>
     (case with_context (parse_u64 (env_or env ''ZED_MAX_ORGS_PER_TOKEN'' ''5''))
             ''ZED_MAX_ORGS_PER_TOKEN must be a number'' of Inl e \<Rightarrow> Inl e | Inr max_orgs \<Rightarrow>
     (case with_context (parse_u32 (env_or env ''DB_MAX_CONNECTIONS'' ''10''))
             ''DB_MAX_CONNECTIONS must be a number'' of Inl e \<Rightarrow> Inl e | Inr max_conns \<Rightarrow>
       Inr \<lparr>bind_addr = env_or env ''BIND_ADDR'' ''0.0.0.0:8080'', database_url = url,
            auto_migrate = (env_or env ''AUTO_MIGRATE'' ''true'' = ''true''), storage_cfg = storage',
            base_url = env_or env ''PUBLIC_BASE_URL'' ''http://localhost:8080'',
            tag_check_policy = policy, max_artifact_bytes = artifact_bytes,
            orgs_per_token = max_orgs, db_max_connections = max_conns,
            fiducia_cfg = fiducia_from_env env\<rparr>))))))"

lemma parse_unsigned_bound: "parse_unsigned m s = Some n \<Longrightarrow> n \<le> m"
  by (auto simp: parse_unsigned_def Let_def split: option.splits if_splits)

text \<open>A configuration that is accepted is within the ranges the server relies on.\<close>

lemma config_sound:
  assumes "config_from_env env = Inr cfg"
  shows "env ''DATABASE_URL'' = Some (database_url cfg)"
    and "storage_cfg cfg = CfgMemory n \<Longrightarrow> 0 < n \<and> n \<le> U64_MAX"
    and "db_max_connections cfg \<le> 2 ^ 32 - 1"
    and "tag_check_policy cfg = TagGithub \<longleftrightarrow> env ''ZED_VERIFY_TAGS'' = Some ''github''"
proof -
  from assms obtain s p u a m c where
    s: "storage_from_env env = Inr s" and p: "tags_from_env env = Inr p"
    and u: "env ''DATABASE_URL'' = Some u"
    and c: "parse_u32 (env_or env ''DB_MAX_CONNECTIONS'' ''10'') = Some c"
    and cfg: "database_url cfg = u" "storage_cfg cfg = s" "tag_check_policy cfg = p"
      "db_max_connections cfg = c"
    by (auto simp: config_from_env_def with_context_def split: sum.splits option.splits)
  show "env ''DATABASE_URL'' = Some (database_url cfg)" using u cfg by simp
  show "0 < n \<and> n \<le> U64_MAX" if "storage_cfg cfg = CfgMemory n"
  proof -
    have "parse_u64 (env_or env ''STORAGE_MEMORY_MAX_BYTES'' ''268435456'') = Some n" "n \<noteq> 0"
      using s cfg(2) that by (auto simp: storage_from_env_def Let_def split: if_splits option.splits)
    with parse_unsigned_bound [of U64_MAX _ n] show ?thesis
      unfolding parse_u64_def by blast
  qed
  show "db_max_connections cfg \<le> 2 ^ 32 - 1"
    using parse_unsigned_bound [OF c [unfolded parse_u32_def]] cfg(4) by (simp only:)
  show "tag_check_policy cfg = TagGithub \<longleftrightarrow> env ''ZED_VERIFY_TAGS'' = Some ''github''"
    using p cfg(3) by (auto simp: tags_from_env_def env_or_def Let_def split: if_splits option.splits)
qed

text \<open>With nothing but the database URL set, the defaults make a valid configuration.\<close>

lemma config_defaults:
  "config_from_env [''DATABASE_URL'' \<mapsto> url] =
     Inr \<lparr>bind_addr = ''0.0.0.0:8080'', database_url = url, auto_migrate = True,
          storage_cfg = CfgLocal ''.data/artifacts'', base_url = ''http://localhost:8080'',
          tag_check_policy = TagOff, max_artifact_bytes = 104857600, orgs_per_token = 5,
          db_max_connections = 10, fiducia_cfg = None\<rparr>"
proof -
  have "parse_u64 ''104857600'' = Some 104857600" "parse_u64 ''5'' = Some 5" "parse_u32 ''10'' = Some 10"
    by (simp_all add: parse_u64_def parse_u32_def parse_unsigned_def is_digit_def digit_val_def)
  then show ?thesis
    by (simp add: config_from_env_def storage_from_env_def tags_from_env_def fiducia_from_env_def
        env_or_def with_context_def Let_def)
qed

end
