(* ===== verification/Tokens.thy ===== *)
theory Tokens
  imports Config Selection
begin

text \<open>
  \<open>src/tokens.rs\<close>: the two administration commands. The database is reached through statements
  that may fail (the connection and the migrations are two of them); the output is the
  plaintext that is printed once, or the number of tokens revoked.
\<close>

datatype cli_err = CliErr string | CliDb db_err | CliPanic

section \<open>create-token\<close>

record create_opts =
  co_name :: "string option"
  co_org :: "string option"
  co_role :: string
  co_days :: "int option"

definition create_defaults :: create_opts where
  "create_defaults = \<lparr>co_name = None, co_org = None, co_role = ''owner'', co_days = None\<rparr>"

text \<open>\<open>iter.next()\<close>: the next argument, if any, and the rest.\<close>

fun next_arg :: "string list \<Rightarrow> string option \<times> string list" where
  "next_arg [] = (None, [])"
| "next_arg (a # as) = (Some a, as)"

lemma next_arg_length: "(v, as') = next_arg as \<Longrightarrow> length as' \<le> length as"
  by (cases as) auto

function create_args :: "string list \<Rightarrow> create_opts \<Rightarrow> string + create_opts" where
  "create_args [] opts = Inr opts"
| "create_args (arg # rest) opts =
     (let (v, rest') = next_arg rest
      in if arg = ''--name'' then create_args rest' (opts\<lparr>co_name := v\<rparr>)
         else if arg = ''--org'' then create_args rest' (opts\<lparr>co_org := v\<rparr>)
         else if arg = ''--role'' then
           (case v of
              None \<Rightarrow> Inl ''--role needs a value''
            | Some r \<Rightarrow> create_args rest' (opts\<lparr>co_role := r\<rparr>))
         else if arg = ''--expires-in-days'' then
           (case v of
              None \<Rightarrow> Inl ''--expires-in-days needs a value''
            | Some raw \<Rightarrow>
                (case parse_i64 raw of
                   None \<Rightarrow> Inl (''--expires-in-days must be a positive integer (got `'' @ raw @ ''`)'')
                 | Some days \<Rightarrow>
                     if days \<le> 0
                     then Inl (''--expires-in-days must be positive (got '' @ int_str days @ '')'')
                     else create_args rest' (opts\<lparr>co_days := Some days\<rparr>)))
         else Inl (''unknown argument `'' @ arg @ ''`''))"
  by pat_completeness auto
termination
  by (relation "measure (length \<circ> fst)")
    (auto simp: less_Suc_eq_le dest: next_arg_length)

definition check_create :: "create_opts \<Rightarrow> string + string" where
  "check_create opts =
     (case co_name opts of
        None \<Rightarrow> Inl ''--name is required''
      | Some name \<Rightarrow>
          if \<not> role_is_valid (co_role opts) then
            Inl (''--role must be one of: owner, publisher, reader (got `'' @ co_role opts @ ''`)'')
          else if co_org opts = None \<and> co_role opts \<noteq> ''owner'' then
            Inl ''--role only applies to org-scoped tokens; pass --org, or omit --role for an admin token''
          else Inr name)"

definition find_or_create_org :: "string \<Rightarrow> (cli_err, org_row) io" where
  "find_or_create_org slug =
     andThen (map_err CliDb (select (org_by_slug slug))) (\<lambda>found.
       case found of
         Some existing \<Rightarrow> ret existing
       | None \<Rightarrow>
           andThen new_uuid (\<lambda>i.
           andThen utc_now (\<lambda>now.
             map_err CliDb (insert_stmt insert_org
               \<lparr>o_id = i, o_slug = slug, o_created_at = now, o_created_by = None\<rparr>))))"

text \<open>\<open>Utc::now() + Duration::days(days)\<close>, which panics when chrono cannot represent it.\<close>

definition expiry :: "externals \<Rightarrow> int option \<Rightarrow> (cli_err, timestamp option) io" where
  "expiry E days =
     (case days of
        None \<Rightarrow> ret None
      | Some d \<Rightarrow>
          andThen utc_now (\<lambda>now.
            case add_days E now d of None \<Rightarrow> fail CliPanic | Some t \<Rightarrow> ret (Some t)))"

definition open_database :: "app_state \<Rightarrow> (cli_err, unit) io" where
  "open_database st =
     andThen (map_err CliErr (lift (map_sum id (\<lambda>_. ()) (config_from_env (environ st))))) (\<lambda>_.
     andThen (map_err CliDb (select (\<lambda>_. ()))) (\<lambda>_.
       map_err CliDb (select (\<lambda>_. ()))))"

definition mint :: "externals \<Rightarrow> string \<Rightarrow> string \<Rightarrow> uuid option \<Rightarrow> timestamp option \<Rightarrow> (cli_err, string) io" where
  "mint E name role org_id expires_at =
     andThen new_uuid (\<lambda>a.
     andThen new_uuid (\<lambda>b.
     andThen new_uuid (\<lambda>i.
     andThen utc_now (\<lambda>now.
       let plaintext = ''zpkg_'' @ uuid_simple E a @ uuid_simple E b
       in andThen (map_err CliDb (insert_stmt insert_token
            \<lparr>t_id = i, t_name = name, t_hash = hash_token E plaintext, t_org = org_id, t_role = role,
             t_created_at = now, t_expires_at = expires_at, t_revoked_at = None\<rparr>)) (\<lambda>_.
          ret plaintext)))))"

definition create_token :: "externals \<Rightarrow> app_state \<Rightarrow> string list \<Rightarrow> (cli_err, string) io" where
  "create_token E st args =
     andThen (map_err CliErr (lift (create_args args create_defaults))) (\<lambda>opts.
     andThen (map_err CliErr (lift (check_create opts))) (\<lambda>name.
     andThen (open_database st) (\<lambda>_.
     andThen (case co_org opts of
                Some slug \<Rightarrow> andThen (find_or_create_org slug) (\<lambda>org. ret (Some (o_id org)))
              | None \<Rightarrow> ret None) (\<lambda>org_id.
     andThen (expiry E (co_days opts)) (\<lambda>expires_at.
       mint E name (co_role opts) org_id expires_at)))))"

section \<open>revoke-token\<close>

fun revoke_args ::
    "string list \<Rightarrow> string option \<Rightarrow> string option \<Rightarrow> string + string option \<times> string option" where
  "revoke_args [] name i = Inr (name, i)"
| "revoke_args [arg] name i =
     (if arg = ''--name'' then Inr (None, i)
      else if arg = ''--id'' then Inr (name, None)
      else Inl (''unknown argument `'' @ arg @ ''`''))"
| "revoke_args (arg # v # rest) name i =
     (if arg = ''--name'' then revoke_args rest (Some v) i
      else if arg = ''--id'' then revoke_args rest name (Some v)
      else Inl (''unknown argument `'' @ arg @ ''`''))"

definition tokens_matching :: "string option \<Rightarrow> uuid option \<Rightarrow> database \<Rightarrow> token_row list" where
  "tokens_matching name i d =
     filter (\<lambda>r. opt_holds (\<lambda>n. t_name r = n) name \<and> opt_holds (\<lambda>u. t_id r = u) i) (tokens d)"

fun revoke_loop :: "timestamp \<Rightarrow> token_row list \<Rightarrow> nat \<Rightarrow> (cli_err, nat) io" where
  "revoke_loop now [] revoked = ret revoked"
| "revoke_loop now (row # rows) revoked =
     (if t_revoked_at row \<noteq> None then revoke_loop now rows revoked
      else andThen (map_err CliDb (update_stmt (update_token (t_id row) (\<lambda>r. r\<lparr>t_revoked_at := Some now\<rparr>))))
             (\<lambda>_. revoke_loop now rows (revoked + 1)))"

definition parse_id :: "externals \<Rightarrow> string option \<Rightarrow> string + uuid option" where
  "parse_id E i =
     (case i of
        None \<Rightarrow> Inr None
      | Some s \<Rightarrow> (case uuid_parse E s of None \<Rightarrow> Inl ''--id must be a UUID'' | Some u \<Rightarrow> Inr (Some u)))"

definition revoke_token :: "externals \<Rightarrow> app_state \<Rightarrow> string list \<Rightarrow> (cli_err, nat) io" where
  "revoke_token E st args =
     andThen (map_err CliErr (lift (revoke_args args None None))) (\<lambda>(name, i).
       if name = None \<and> i = None then
         fail (CliErr ''pass --name <name> or --id <uuid> to identify the token to revoke'')
       else
         andThen (open_database st) (\<lambda>_.
         andThen (map_err CliErr (lift (parse_id E i))) (\<lambda>uid.
         andThen (map_err CliDb (select (tokens_matching name uid))) (\<lambda>matches.
           if matches = [] then fail (CliErr ''no token matched'')
           else andThen utc_now (\<lambda>now. revoke_loop now matches 0)))))"

section \<open>Minting\<close>

lemma open_database_pure [keeps_intro]:
  "pure_read (open_database st)" "keeps P (open_database st)" "keeps_store (open_database st)"
  unfolding open_database_def by (intro keeps_intro)+

lemma expiry_pure [keeps_intro]: "pure_read (expiry E d)" "keeps P (expiry E d)" "keeps_store (expiry E d)"
  unfolding expiry_def by (intro keeps_intro)+

lemma create_token_keeps_store [keeps_intro]: "keeps_store (create_token E st args)"
  unfolding create_token_def find_or_create_org_def mint_def Let_def by (intro keeps_intro)

lemma check_create_Inr:
  "check_create opts = Inr name \<Longrightarrow>
     co_name opts = Some name \<and> (\<exists>r. co_role opts = role_as_str r) \<and>
     (co_org opts = None \<longrightarrow> co_role opts = ''owner'')"
  by (auto simp: check_create_def role_is_valid_iff split: option.splits if_splits)

lemma create_args_days:
  "create_args args opts = Inr opts' \<Longrightarrow> opt_holds (\<lambda>d. 0 < d) (co_days opts) \<Longrightarrow>
     opt_holds (\<lambda>d. 0 < d) (co_days opts')"
  by (induction args opts rule: create_args.induct)
    (auto simp: Let_def split: prod.splits if_splits option.splits)

lemma find_or_create_org_Inr:
  assumes "find_or_create_org slug w = (Inr org, w')"
  shows "o_slug org = slug" "org \<in> set (orgs (db w'))" "tokens (db w') = tokens (db w)"
    "\<forall>r\<in>set (orgs (db w)). r \<in> set (orgs (db w'))"
  using assms
  by (auto simp: find_or_create_org_def andThen_Inr select_Inr new_uuid_Inr utc_now_Inr
      insert_stmt_Inr insert_org_Inr split: option.splits dest: org_by_slug_Some)

lemma expiry_Inr:
  "expiry E days w = (Inr t, w') \<Longrightarrow>
     db w' = db w \<and> (days = None \<longrightarrow> t = None) \<and>
     (\<forall>d. days = Some d \<longrightarrow> t \<noteq> None \<and> t = add_days E (clock w (ticks w)) d)"
  by (auto simp: expiry_def andThen_Inr utc_now_Inr split: option.splits) metis

lemma mint_Inr:
  assumes "mint E name role org_id expires_at w = (Inr p, w')"
  shows "\<exists>a b row. p = ''zpkg_'' @ uuid_simple E a @ uuid_simple E b \<and>
     insert_token row (db w) = Inr (db w') \<and> t_name row = name \<and> t_hash row = hash_token E p \<and>
     t_org row = org_id \<and> t_role row = role \<and> t_expires_at row = expires_at \<and> t_revoked_at row = None"
  using assms
  by (auto simp: mint_def Let_def andThen_Inr new_uuid_Inr utc_now_Inr insert_stmt_Inr)


section \<open>Revoking\<close>

lemma revoked_ok: "db_ok d \<Longrightarrow> db_ok (update_token i (\<lambda>r. r\<lparr>t_revoked_at := x\<rparr>) d)"
  by (rule update_token_ok) simp_all

lemma revoke_loop_keeps_store [keeps_intro]: "keeps_store (revoke_loop now rows n)"
proof (induction rows arbitrary: n)
  case (Cons row rows)
  show ?case unfolding revoke_loop.simps by (intro keeps_intro Cons)
qed (simp add: keeps_intro)

lemma revoke_token_keeps_store [keeps_intro]: "keeps_store (revoke_token E st args)"
  unfolding revoke_token_def by (intro keeps_intro)

text \<open>What the loop does to the table: the listed ids, unless they were revoked already.\<close>

definition revoke_rows :: "timestamp \<Rightarrow> uuid set \<Rightarrow> token_row list \<Rightarrow> token_row list" where
  "revoke_rows now ids rows =
     map (\<lambda>r. if t_id r \<in> ids \<and> t_revoked_at r = None then r\<lparr>t_revoked_at := Some now\<rparr> else r) rows"

lemma revoke_rows_compose:
  "revoke_rows now A (revoke_rows now B rows) = revoke_rows now (B \<union> A) rows"
  unfolding revoke_rows_def map_map o_def by (intro map_cong refl) auto

lemma revoke_rows_member:
  assumes "q \<in> set (revoke_rows now ids rows)"
  shows "\<exists>q0\<in>set rows. t_id q = t_id q0 \<and> t_hash q = t_hash q0 \<and>
     (if t_id q0 \<in> ids \<and> t_revoked_at q0 = None then t_revoked_at q = Some now
      else t_revoked_at q = t_revoked_at q0)"
proof -
  from assms obtain q0 where "q0 \<in> set rows"
    "q = (if t_id q0 \<in> ids \<and> t_revoked_at q0 = None then q0\<lparr>t_revoked_at := Some now\<rparr> else q0)"
    unfolding revoke_rows_def set_map by blast
  then show ?thesis by (intro bexI [of _ q0]) simp_all
qed

lemma revoke_loop_Inr:
  assumes "revoke_loop now rows n w = (Inr m, w')"
    and "\<forall>r\<in>set rows. t_revoked_at r = None \<longrightarrow> (\<forall>q\<in>set (tokens (db w)). t_id q = t_id r \<longrightarrow> t_revoked_at q = None)"
    and "\<forall>r\<in>set rows. t_revoked_at r \<noteq> None \<longrightarrow> (\<forall>q\<in>set (tokens (db w)). t_id q = t_id r \<longrightarrow> t_revoked_at q \<noteq> None)"
    and "distinct (map t_id rows)"
  shows "tokens (db w') = revoke_rows now (t_id ` set rows) (tokens (db w)) \<and>
     m = n + length (filter (\<lambda>r. t_revoked_at r = None) rows)"
  using assms
proof (induction rows arbitrary: n w)
  case Nil
  then show ?case by (simp add: revoke_rows_def)
next
  case (Cons r rows)
  show ?case
  proof (cases "t_revoked_at r = None")
    case True
    let ?w = "(next_call w)\<lparr>db := update_token (t_id r) (\<lambda>r. r\<lparr>t_revoked_at := Some now\<rparr>) (db w)\<rparr>"
    have run: "revoke_loop now rows (n + 1) ?w = (Inr m, w')"
      using Cons.prems(1) True by (auto simp: andThen_Inr update_stmt_Inr)
    have toks: "tokens (db ?w) = revoke_rows now {t_id r} (tokens (db w))"
      using Cons.prems(2) True by (auto simp: update_token_def map_where_def revoke_rows_def)
    have "tokens (db w') = revoke_rows now (t_id ` set rows) (tokens (db ?w)) \<and>
      m = n + 1 + length (filter (\<lambda>r. t_revoked_at r = None) rows)"
    proof (rule Cons.IH [OF run])
      show "\<forall>r\<in>set rows. t_revoked_at r = None \<longrightarrow>
          (\<forall>q\<in>set (tokens (db ?w)). t_id q = t_id r \<longrightarrow> t_revoked_at q = None)"
      proof (intro ballI impI)
        fix x q assume x: "x \<in> set rows" "t_revoked_at x = None"
          and q: "q \<in> set (tokens (db ?w))" "t_id q = t_id x"
        from revoke_rows_member [OF q(1) [unfolded toks]] obtain q0 where
          q0: "q0 \<in> set (tokens (db w))" "t_id q = t_id q0"
          "t_id q0 \<noteq> t_id r \<Longrightarrow> t_revoked_at q = t_revoked_at q0" by auto
        have "t_id q0 = t_id x" using q(2) q0(2) by simp
        moreover have "t_id x \<noteq> t_id r" using Cons.prems(4) x(1) by (metis distinct.simps(2) image_eqI list.simps(9) set_map)
        moreover have "t_revoked_at q0 = None" using Cons.prems(2) x q0(1) calculation(1) by (metis list.set_intros(2))
        ultimately show "t_revoked_at q = None" using q0(3) by simp
      qed
      show "\<forall>r\<in>set rows. t_revoked_at r \<noteq> None \<longrightarrow>
          (\<forall>q\<in>set (tokens (db ?w)). t_id q = t_id r \<longrightarrow> t_revoked_at q \<noteq> None)"
      proof (intro ballI impI)
        fix x q assume x: "x \<in> set rows" "t_revoked_at x \<noteq> None"
          and q: "q \<in> set (tokens (db ?w))" "t_id q = t_id x"
        from revoke_rows_member [OF q(1) [unfolded toks]] obtain q0 where
          q0: "q0 \<in> set (tokens (db w))" "t_id q = t_id q0"
          "t_revoked_at q0 \<noteq> None \<Longrightarrow> t_revoked_at q = t_revoked_at q0" by auto
        have "t_id q0 = t_id x" using q(2) q0(2) by simp
        then have "t_revoked_at q0 \<noteq> None" using Cons.prems(3) x q0(1) by (metis list.set_intros(2))
        then show "t_revoked_at q \<noteq> None" using q0(3) by simp
      qed
      show "distinct (map t_id rows)" using Cons.prems(4) by simp
    qed
    with True show ?thesis by (simp only: toks revoke_rows_compose) simp
  next
    case False
    then have run: "revoke_loop now rows n w = (Inr m, w')" using Cons.prems(1) by simp
    have IH: "tokens (db w') = revoke_rows now (t_id ` set rows) (tokens (db w)) \<and>
       m = n + length (filter (\<lambda>r. t_revoked_at r = None) rows)"
    proof (rule Cons.IH [OF run])
      show "distinct (map t_id rows)" using Cons.prems(4) by simp
    qed (use Cons.prems(2,3) in \<open>metis list.set_intros(2)\<close>)+
    have "revoke_rows now (insert (t_id r) (t_id ` set rows)) (tokens (db w)) =
          revoke_rows now (t_id ` set rows) (tokens (db w))"
    proof -
      have "t_id q \<in> insert (t_id r) (t_id ` set rows) \<and> t_revoked_at q = None \<longleftrightarrow>
            t_id q \<in> t_id ` set rows \<and> t_revoked_at q = None" if "q \<in> set (tokens (db w))" for q
        using Cons.prems(3) False that by (metis insert_iff list.set_intros(1))
      then show ?thesis unfolding revoke_rows_def by (intro map_cong refl if_cong) blast
    qed
    with IH False show ?thesis by simp
  qed
qed

lemma revoke_token_Inr:
  assumes ok: "db_ok (db w)" and run: "revoke_token E st args w = (Inr m, w')"
  shows "\<exists>name i uid now. revoke_args args None None = Inr (name, i) \<and> (name \<noteq> None \<or> i \<noteq> None) \<and>
     parse_id E i = Inr uid \<and> tokens_matching name uid (db w) \<noteq> [] \<and>
     tokens (db w') = revoke_rows now (t_id ` set (tokens_matching name uid (db w))) (tokens (db w)) \<and>
     m = length (filter (\<lambda>r. t_revoked_at r = None) (tokens_matching name uid (db w)))"
proof -
  from run obtain name i w1 uid w2 now where
    args: "revoke_args args None None = Inr (name, i)" "name \<noteq> None \<or> i \<noteq> None"
    and op: "open_database st w = (Inr (), w1)" and pid: "parse_id E i = Inr uid"
    and ne: "tokens_matching name uid (db w1) \<noteq> []"
    and loop: "revoke_loop now (tokens_matching name uid (db w1)) 0 w2 = (Inr m, w')"
    and d2: "db w2 = db w1"
    by (auto simp: revoke_token_def andThen_Inr select_Inr utc_now_Inr split: if_splits)
  have d1: "db w1 = db w" using pure_readD [OF open_database_pure(1) op] by simp
  let ?rows = "tokens_matching name uid (db w)"
  have sub: "set ?rows \<subseteq> set (tokens (db w))" by (auto simp: tokens_matching_def)
  have dist: "distinct (map t_id (tokens (db w)))" using ok by (rule db_okD)
  have uniq: "q = r" if "r \<in> set ?rows" "q \<in> set (tokens (db w))" "t_id q = t_id r" for q r
    using distinct_map_unique [OF dist that(2) _ that(3)] that(1) sub by blast
  have "tokens (db w') = revoke_rows now (t_id ` set ?rows) (tokens (db w2)) \<and>
     m = 0 + length (filter (\<lambda>r. t_revoked_at r = None) ?rows)"
  proof (rule revoke_loop_Inr)
    show "revoke_loop now ?rows 0 w2 = (Inr m, w')" using loop d1 by simp
    show "distinct (map t_id ?rows)" unfolding tokens_matching_def by (rule distinct_map_filter [OF dist])
  qed (use uniq d1 d2 in auto)
  with args pid ne d1 d2 show ?thesis by auto
qed

lemma revoke_rows_dead:
  "q \<in> set (revoke_rows now ids rows) \<Longrightarrow> t_id q \<in> ids \<Longrightarrow> t_revoked_at q \<noteq> None"
  by (auto simp: revoke_rows_def split: if_splits)

text \<open>Once the command has returned, no matching token is accepted any more.\<close>

lemma revoked_rejected:
  assumes ok: "db_ok (db w)" and run: "revoke_token E st args w = (Inr m, w')"
    and args: "revoke_args args None None = Inr (name, i)" "parse_id E i = Inr uid"
    and row: "row \<in> set (tokens_matching name uid (db w))"
    and on: "\<not> auth_disabled st'" and nf: "faults v (calls v) = None"
    and same: "tokens (db v) = tokens (db w')"
    and tok: "bearer_token h = Some p" "hash_token E p = t_hash row"
  shows "\<exists>v'. require_token E st' h v = (Inl err_unauthorized, v')"
proof -
  from revoke_token_Inr [OF ok run] args obtain now where
    toks: "tokens (db w') = revoke_rows now (t_id ` set (tokens_matching name uid (db w))) (tokens (db w))"
    by auto
  show ?thesis
  proof (rule require_token_denied [OF on nf])
    fix q assume q: "q \<in> set (tokens (db v))"
      and "opt_holds (\<lambda>p. t_hash q = hash_token E p) (bearer_token h)"
    then have h: "t_hash q = t_hash row" using tok by simp
    from q same toks obtain q0 where q0: "q0 \<in> set (tokens (db w))" "t_id q = t_id q0" "t_hash q = t_hash q0"
      by (auto simp: revoke_rows_def split: if_splits)
    have "row \<in> set (tokens (db w))" using row by (auto simp: tokens_matching_def)
    with q0 h have "q0 = row" using distinct_map_unique [OF db_okD(2) [OF ok]] by metis
    with q0 row have "t_id q \<in> t_id ` set (tokens_matching name uid (db w))" by simp
    then have "t_revoked_at q \<noteq> None" using revoke_rows_dead q same toks by metis
    then show "\<not> token_live (clock v (ticks v)) q" by (simp add: token_live_def)
  qed
qed

text \<open>Revoking again changes nothing.\<close>

lemma revoke_rows_idem: "revoke_rows later ids (revoke_rows now ids rows) = revoke_rows now ids rows"
  unfolding revoke_rows_def map_map o_def by (intro map_cong refl) auto

end
