(* ===== verification/Listing.thy ===== *)
theory Listing
  imports Selection
begin

text \<open>
  \<open>src/routes/list.rs\<close> and \<open>src/routes/search.rs\<close>: listing packages newest first, and search
  over names and descriptions, both with an AND filter on tags. SQL's \<open>LIKE \<dots> ESCAPE\<close> is given
  by its definition, over bytes; SQLite folds ASCII case and Postgres does not.
\<close>

record package_summary =
  ps_org :: string
  ps_name :: string
  ps_description :: "string option"
  ps_latest :: "string option"
  ps_tags :: "string list"

section \<open>Tag filters\<close>

definition parse_tag_filter :: "string option \<Rightarrow> string list" where
  "parse_tag_filter raw =
     (case raw of
        None \<Rightarrow> []
      | Some s \<Rightarrow> filter (\<lambda>t. t \<noteq> []) (map str_trim (split_on CHR '','' s)))"

definition has_all_tags :: "string list \<Rightarrow> string list \<Rightarrow> bool" where
  "has_all_tags have want \<longleftrightarrow> list_all (\<lambda>w. list_ex (\<lambda>h. h = w) have) want"

lemma has_all_tags_iff: "has_all_tags have want \<longleftrightarrow> set want \<subseteq> set have"
  by (auto simp: has_all_tags_def list_all_iff list_ex_iff)

lemma parse_tag_filter_clean:
  assumes "t \<in> set (parse_tag_filter raw)"
  shows "t \<noteq> [] \<and> CHR '','' \<notin> set t"
proof -
  from assms obtain s p where p: "raw = Some s" "p \<in> set (split_on CHR '','' s)" "t = str_trim p" "t \<noteq> []"
    by (auto simp: parse_tag_filter_def split: option.splits)
  have "CHR '','' \<notin> set p" using split_on_pieces [OF p(2)] .
  with set_trim_subset [of p] p show ?thesis by auto
qed

section \<open>LIKE\<close>

definition escape_like :: "string \<Rightarrow> string" where
  "escape_like q =
     replace_char CHR ''_'' [CHR 0x5C, CHR ''_'']
       (replace_char CHR ''%'' [CHR 0x5C, CHR ''%'']
          (replace_char CHR 0x5C [CHR 0x5C, CHR 0x5C] q))"

definition contains_escaped :: "string \<Rightarrow> string" where
  "contains_escaped q = ''%'' @ escape_like q @ ''%''"

text \<open>\<open>like f p s\<close>: does \<open>s\<close> match the pattern, up to the case folding \<open>f\<close>?\<close>

fun like :: "(char \<Rightarrow> char) \<Rightarrow> string \<Rightarrow> string \<Rightarrow> bool" where
  "like f [] s \<longleftrightarrow> s = []"
| "like f (p # ps) s \<longleftrightarrow>
     (if p = CHR ''%'' then like f ps s \<or> (case s of [] \<Rightarrow> False | _ # cs \<Rightarrow> like f (p # ps) cs)
      else if p = CHR ''_'' then (case s of [] \<Rightarrow> False | _ # cs \<Rightarrow> like f ps cs)
      else if p = CHR 0x5C then
        (case ps of
           [] \<Rightarrow> False
         | q # qs \<Rightarrow> (case s of [] \<Rightarrow> False | c # cs \<Rightarrow> f c = f q \<and> like f qs cs))
      else (case s of [] \<Rightarrow> False | c # cs \<Rightarrow> f c = f p \<and> like f ps cs))"

declare like.simps(2) [simp del]

definition ascii_lower :: "char \<Rightarrow> char" where
  "ascii_lower c =
     (if 65 \<le> (of_char c :: nat) \<and> (of_char c :: nat) \<le> 90 then char_of (of_char c + 32 :: nat) else c)"

definition like_fold :: "app_state \<Rightarrow> char \<Rightarrow> char" where
  "like_fold st = (case backend st of Postgres \<Rightarrow> (\<lambda>c. c) | Sqlite \<Rightarrow> ascii_lower)"

definition escape_char :: "char \<Rightarrow> string" where
  "escape_char c = (if c \<in> {CHR 0x5C, CHR ''%'', CHR ''_''} then [CHR 0x5C, c] else [c])"

lemma escape_like_eq: "escape_like q = concat (map escape_char q)"
  by (induction q) (auto simp: escape_like_def escape_char_def)

lemma like_escape_char:
  "like f (escape_char c @ p) s \<longleftrightarrow> (\<exists>d cs. s = d # cs \<and> f d = f c \<and> like f p cs)"
  by (cases s) (auto simp: escape_char_def like.simps(2))

lemma like_escaped:
  "like f (concat (map escape_char q) @ p) s \<longleftrightarrow> (\<exists>a b. s = a @ b \<and> map f a = map f q \<and> like f p b)"
proof (induction q arbitrary: s)
  case (Cons c q)
  show ?case (is "?l \<longleftrightarrow> ?r")
  proof
    assume ?l
    then obtain d cs where "s = d # cs" "f d = f c" "like f (concat (map escape_char q) @ p) cs"
      by (auto simp: like_escape_char)
    moreover from this(3) obtain a b where "cs = a @ b" "map f a = map f q" "like f p b"
      unfolding Cons by blast
    ultimately show ?r by (intro exI [of _ "d # a"] exI [of _ b]) simp
  next
    assume ?r
    then obtain a b where ab: "s = a @ b" "map f a = map f (c # q)" "like f p b" by blast
    then obtain d a' where a: "a = d # a'" "f d = f c" "map f a' = map f q" by (cases a) auto
    then have "like f (concat (map escape_char q) @ p) (a' @ b)" unfolding Cons using ab(3) by blast
    with a ab show ?l by (simp add: like_escape_char)
  qed
qed simp

lemma like_percent: "like f (CHR ''%'' # p) s \<longleftrightarrow> (\<exists>a b. s = a @ b \<and> like f p b)"
proof (induction s)
  case Nil
  show ?case by (simp add: like.simps(2))
next
  case (Cons c s)
  have "like f (CHR ''%'' # p) (c # s) \<longleftrightarrow> like f p (c # s) \<or> like f (CHR ''%'' # p) s"
    by (subst like.simps(2)) simp
  also have "\<dots> \<longleftrightarrow> (\<exists>a b. c # s = a @ b \<and> like f p b)"
    unfolding Cons by (metis append_Cons append_Nil list.exhaust list.inject)
  finally show ?case .
qed

text \<open>
  The escaped pattern means what a user who typed \<open>q\<close> means: \<open>q\<close> occurs literally, whatever
  wildcards and backslashes are in it.
\<close>

lemma like_contains:
  "like f (contains_escaped q) s \<longleftrightarrow> str_contains (map f q) (map f s)"
proof -
  have all: "like f ''%'' b" for b by (simp add: like_percent)
  have "like f (contains_escaped q) s \<longleftrightarrow> (\<exists>a b c. s = a @ b @ c \<and> map f b = map f q)"
    by (auto simp: contains_escaped_def escape_like_eq like_percent like_escaped all)
  also have "\<dots> \<longleftrightarrow> (\<exists>a c. map f s = a @ map f q @ c)"
  proof
    assume "\<exists>a c. map f s = a @ map f q @ c"
    then obtain a c where ac: "map f s = a @ map f q @ c" by blast
    let ?i = "length a" and ?j = "length q"
    have "s = take ?i s @ take ?j (drop ?i s) @ drop ?j (drop ?i s)"
      by (metis append_take_drop_id)
    moreover have "map f (take ?j (drop ?i s)) = map f q"
      using arg_cong [OF ac, of "\<lambda>x. take ?j (drop ?i x)"] by (simp add: take_map drop_map)
    ultimately show "\<exists>a b c. s = a @ b @ c \<and> map f b = map f q" by blast
  qed (auto, metis map_append)
  finally show ?thesis by (simp add: str_contains_iff)
qed

section \<open>Summaries\<close>

definition org_of :: "database \<Rightarrow> package_row \<Rightarrow> org_row option" where
  "org_of d pkg = find (\<lambda>o'. o_id o' = p_org pkg) (orgs d)"

text \<open>\<open>find_also_related(org)\<close>: a left join.\<close>

definition with_org :: "database \<Rightarrow> package_row list \<Rightarrow> (package_row \<times> org_row option) list" where
  "with_org d pkgs = map (\<lambda>p. (p, org_of d p)) pkgs"

definition summary :: "externals \<Rightarrow> package_row \<Rightarrow> org_row \<Rightarrow> version_row list \<Rightarrow> package_summary" where
  "summary E pkg org rows =
     \<lparr>ps_org = o_slug org, ps_name = p_name pkg, ps_description = p_description pkg,
      ps_latest = latest_visible_version E rows, ps_tags = tags_of pkg\<rparr>"

fun summaries ::
    "externals \<Rightarrow> (package_row \<times> org_row option) list \<Rightarrow> (api_err, package_summary list) io" where
  "summaries E [] = ret []"
| "summaries E ((pkg, None) # rows) = summaries E rows"
| "summaries E ((pkg, Some org) # rows) =
     andThen (dbq (select (versions_of E (p_id pkg)))) (\<lambda>vs.
     andThen (summaries E rows) (\<lambda>items.
       ret (summary E pkg org vs # items)))"

section \<open>The list endpoint\<close>

definition SCAN_CAP :: nat where
  "SCAN_CAP = 2000"

definition newest_packages :: "externals \<Rightarrow> database \<Rightarrow> package_row list" where
  "newest_packages E d = sort_key (\<lambda>p. - p_created_at p) (scan_packages E (packages d))"

definition list_packages ::
    "externals \<Rightarrow> string option \<Rightarrow> nat \<Rightarrow> nat \<Rightarrow> (api_err, package_summary list \<times> nat) io" where
  "list_packages E tags limit_param offset =
     (let limit = clamp 1 200 limit_param; want = parse_tag_filter tags
      in if want = [] then
           andThen (dbq (select (\<lambda>d. length (packages d)))) (\<lambda>cnt.
           andThen (dbq (select (\<lambda>d. with_org d (take limit (drop offset (newest_packages E d)))))) (\<lambda>rows.
           andThen (summaries E rows) (\<lambda>items. ret (items, cnt))))
         else
           andThen (dbq (select (\<lambda>d. with_org d (take SCAN_CAP (newest_packages E d))))) (\<lambda>rows.
             let matched = filter (\<lambda>(pkg, _). has_all_tags (tags_of pkg) want) rows
             in andThen (summaries E (take limit (drop offset matched))) (\<lambda>items.
                  ret (items, length matched))))"

section \<open>The search endpoint\<close>

definition search_matches :: "app_state \<Rightarrow> string \<Rightarrow> package_row \<Rightarrow> bool" where
  "search_matches st q pkg \<longleftrightarrow>
     like (like_fold st) (contains_escaped q) (p_name pkg) \<or>
     (case p_description pkg of
        None \<Rightarrow> False
      | Some desc \<Rightarrow> like (like_fold st) (contains_escaped q) desc)"

definition search ::
    "externals \<Rightarrow> app_state \<Rightarrow> string \<Rightarrow> string option \<Rightarrow> (api_err, string \<times> package_summary list) io" where
  "search E st q tags =
     andThen (dbq (select (\<lambda>d. with_org d
                (take 50 (filter (search_matches st q) (scan_packages E (packages d))))))) (\<lambda>rows.
       let want_tags = parse_tag_filter tags
       in andThen (summaries E (filter (\<lambda>(pkg, _). has_all_tags (tags_of pkg) want_tags) rows)) (\<lambda>items.
            ret (q, items)))"

section \<open>What they return\<close>

lemma summaries_pure [keeps_intro]: "pure_read (summaries E rows)"
proof (induction E rows rule: summaries.induct)
  case (3 E pkg org rows)
  then show ?case unfolding summaries.simps by (intro keeps_intro)
next
  case (1 E)
  show ?case unfolding summaries.simps by (rule keeps_intro)
qed simp

lemma listing_pure [keeps_intro]:
  "pure_read (list_packages E tags l off)" "pure_read (search E st q tags)"
  unfolding list_packages_def search_def Let_def by (intro keeps_intro)+

text \<open>The rows of a page, without the packages whose org row is missing.\<close>

fun summary_item :: "externals \<Rightarrow> database \<Rightarrow> package_row \<times> org_row option \<Rightarrow> package_summary list" where
  "summary_item E d (pkg, None) = []"
| "summary_item E d (pkg, Some org) = [summary E pkg org (versions_of E (p_id pkg) d)]"

definition summaries_of ::
    "externals \<Rightarrow> database \<Rightarrow> (package_row \<times> org_row option) list \<Rightarrow> package_summary list" where
  "summaries_of E d rows = concat (map (summary_item E d) rows)"

lemma summaries_of_member:
  "it \<in> set (summaries_of E d (with_org d pkgs)) \<longleftrightarrow>
     (\<exists>pkg\<in>set pkgs. \<exists>org. org_of d pkg = Some org \<and> it = summary E pkg org (versions_of E (p_id pkg) d))"
proof -
  have "it \<in> set (summary_item E d (pkg, org_of d pkg)) \<longleftrightarrow>
     (\<exists>org. org_of d pkg = Some org \<and> it = summary E pkg org (versions_of E (p_id pkg) d))" for pkg
    by (cases "org_of d pkg") auto
  then show ?thesis by (simp add: summaries_of_def with_org_def)
qed

lemma summaries_Inr: "summaries E rows w = (Inr items, w') \<Longrightarrow> items = summaries_of E (db w) rows"
proof (induction E rows arbitrary: w items rule: summaries.induct)
  case (3 E pkg org rows)
  then obtain items' where "summaries E rows (next_call w) = (Inr items', w')"
    "items = summary E pkg org (versions_of E (p_id pkg) (db w)) # items'"
    by (auto simp: andThen_Inr select_Inr)
  moreover from "3.IH" [OF this(1)] have "items' = summaries_of E (db w) rows" by simp
  ultimately show ?case by (simp add: summaries_of_def)
qed (auto simp: summaries_of_def)

lemma summaries_of_append:
  "summaries_of E d (xs @ ys) = summaries_of E d xs @ summaries_of E d ys"
  by (simp add: summaries_of_def)

lemma with_org_filter:
  "filter (\<lambda>(pkg, _). P pkg) (with_org d pkgs) = with_org d (filter P pkgs)"
  by (induction pkgs) (auto simp: with_org_def)

lemma with_org_slice: "take n (drop m (with_org d pkgs)) = with_org d (take n (drop m pkgs))"
  by (simp add: with_org_def take_map drop_map)

lemma summaries_of_with_org:
  assumes "db_ok d" "set pkgs \<subseteq> set (packages d)"
  shows "map ps_name (summaries_of E d (with_org d pkgs)) = map p_name pkgs"
    and "length (summaries_of E d (with_org d pkgs)) = length pkgs"
proof -
  have some: "\<exists>o'. org_of d p = Some o'" if "p \<in> set pkgs" for p
  proof -
    have "p_org p \<in> o_id ` set (orgs d)" using assms that by (auto simp: db_ok_def fk_ok_def)
    then show ?thesis by (cases "org_of d p") (auto simp: org_of_def find_None)
  qed
  have one: "map ps_name (summary_item E d (p, org_of d p)) = [p_name p]" if "p \<in> set pkgs" for p
    using some [OF that] by (auto simp: summary_def)
  then show "map ps_name (summaries_of E d (with_org d pkgs)) = map p_name pkgs"
    by (induction pkgs) (simp_all add: summaries_of_def with_org_def)
  then show "length (summaries_of E d (with_org d pkgs)) = length pkgs"
    by (metis length_map)
qed

lemma newest_packages_mset:
  assumes "scans_ok E"
  shows "mset (newest_packages E d) = mset (packages d)" "set (newest_packages E d) = set (packages d)"
    "sorted (map (\<lambda>p. - p_created_at p) (newest_packages E d))"
  using assms scans_ok_sets(1) [OF assms]
  by (auto simp: newest_packages_def scans_ok_def)

text \<open>Unfiltered: a slice of all packages, newest first, and their exact number.\<close>

lemma list_unfiltered:
  assumes ok: "db_ok (db w)" and sc: "scans_ok E" and want: "parse_tag_filter tags = []"
    and run: "list_packages E tags l off w = (Inr (items, cnt), w')"
  shows "cnt = length (packages (db w))"
    and "map ps_name items = map p_name (take (clamp 1 200 l) (drop off (newest_packages E (db w))))"
    and "items = summaries_of E (db w) (with_org (db w) (take (clamp 1 200 l) (drop off (newest_packages E (db w)))))"
proof -
  let ?page = "take (clamp 1 200 l) (drop off (newest_packages E (db w)))"
  from run want obtain w2 where
    tot: "cnt = length (packages (db w))"
    and s: "summaries E (with_org (db w) ?page) w2 = (Inr items, w')" and d2: "db w2 = db w"
    by (auto simp: list_packages_def Let_def andThen_Inr select_Inr)
  show "cnt = length (packages (db w))" by (rule tot)
  have items: "items = summaries_of E (db w) (with_org (db w) ?page)"
    using summaries_Inr [OF s] d2 by simp
  then show "items = summaries_of E (db w) (with_org (db w) ?page)" .
  have "set ?page \<subseteq> set (packages (db w))"
    using newest_packages_mset(2) [OF sc] by (metis set_drop_subset set_take_subset subset_trans)
  with items summaries_of_with_org(1) [OF ok] show "map ps_name items = map p_name ?page" by simp
qed

text \<open>Filtered: the packages with all the tags, among the newest \<open>SCAN_CAP\<close>.\<close>

lemma list_filtered:
  assumes want: "parse_tag_filter tags = want" "want \<noteq> []"
    and run: "list_packages E tags l off w = (Inr (items, cnt), w')"
  defines "hits \<equiv> filter (\<lambda>p. set want \<subseteq> set (tags_of p)) (take SCAN_CAP (newest_packages E (db w)))"
  shows "cnt = length hits"
    and "items = summaries_of E (db w) (with_org (db w) (take (clamp 1 200 l) (drop off hits)))"
proof -
  have hits: "filter (\<lambda>(pkg, _). has_all_tags (tags_of pkg) want)
      (with_org (db w) (take SCAN_CAP (newest_packages E (db w)))) = with_org (db w) hits"
    by (simp only: with_org_filter hits_def has_all_tags_iff)
  from run want obtain w2 where
    tot: "cnt = length (with_org (db w) hits)"
    and s: "summaries E (take (clamp 1 200 l) (drop off (with_org (db w) hits))) w2 = (Inr items, w')"
    and d2: "db w2 = db w"
    by (auto simp: list_packages_def Let_def andThen_Inr select_Inr hits)
  show "cnt = length hits" using tot by (simp add: with_org_def)
  show "items = summaries_of E (db w) (with_org (db w) (take (clamp 1 200 l) (drop off hits)))"
    using summaries_Inr [OF s] d2 by (simp add: with_org_slice)
qed

text \<open>With at most \<open>SCAN_CAP\<close> packages the filtered total is exact.\<close>

lemma list_filtered_total:
  assumes sc: "scans_ok E" and want: "parse_tag_filter tags = want" "want \<noteq> []"
    and run: "list_packages E tags l off w = (Inr (items, cnt), w')"
    and small: "length (packages (db w)) \<le> SCAN_CAP"
  shows "cnt = length (filter (\<lambda>p. set want \<subseteq> set (tags_of p)) (packages (db w)))"
proof -
  have m: "mset (newest_packages E (db w)) = mset (packages (db w))"
    using newest_packages_mset(1) [OF sc] .
  then have "length (newest_packages E (db w)) \<le> SCAN_CAP" using small by (metis mset_eq_length)
  then have "take SCAN_CAP (newest_packages E (db w)) = newest_packages E (db w)" by simp
  moreover have "length (filter P (newest_packages E (db w))) = length (filter P (packages (db w)))" for P
    using m by (metis mset_filter size_mset)
  ultimately show ?thesis using list_filtered(1) [OF want run] by simp
qed

text \<open>Every hit of a search matches literally and carries every tag; at most fifty come back.\<close>

text \<open>
  C31: Every search hit is a package of a known org that carries all the wanted tags and whose name
  or description contains the query, summarised with its latest visible version.
\<close>

theorem search_sound:
  assumes sc: "scans_ok E" and run: "search E st q tags w = (Inr (q', items), w')" and it: "it \<in> set items"
  shows "\<exists>pkg org. pkg \<in> set (packages (db w)) \<and> org_of (db w) pkg = Some org \<and>
     it = summary E pkg org (versions_of E (p_id pkg) (db w)) \<and>
     set (parse_tag_filter tags) \<subseteq> set (ps_tags it) \<and>
     (str_contains (map (like_fold st) q) (map (like_fold st) (ps_name it)) \<or>
      (\<exists>desc. ps_description it = Some desc \<and>
         str_contains (map (like_fold st) q) (map (like_fold st) desc)))"
proof -
  let ?rows = "take 50 (filter (search_matches st q) (scan_packages E (packages (db w))))"
  let ?hits = "filter (\<lambda>p. has_all_tags (tags_of p) (parse_tag_filter tags)) ?rows"
  from run have "\<exists>w2. summaries E (with_org (db w) ?hits) w2 = (Inr items, w') \<and> db w2 = db w"
    by (auto simp: search_def Let_def andThen_Inr select_Inr with_org_filter)
  then have items: "items = summaries_of E (db w) (with_org (db w) ?hits)"
    using summaries_Inr by metis
  then have "it \<in> set (summaries_of E (db w) (with_org (db w) ?hits))" using it by simp
  then obtain pkg org where p: "pkg \<in> set ?hits" "org_of (db w) pkg = Some org"
    "it = summary E pkg org (versions_of E (p_id pkg) (db w))"
    unfolding summaries_of_member by blast
  have "pkg \<in> set (filter (search_matches st q) (scan_packages E (packages (db w))))"
    using p(1) by (auto dest: in_set_takeD)
  then have in_db: "pkg \<in> set (packages (db w))" and m: "search_matches st q pkg"
    using scans_ok_sets(1) [OF sc] by auto
  have "set (parse_tag_filter tags) \<subseteq> set (ps_tags it)"
    using p by (simp add: has_all_tags_iff summary_def)
  with in_db m p show ?thesis
    by (intro exI [of _ pkg] exI [of _ org])
      (auto simp: search_matches_def like_contains summary_def split: option.splits)
qed

text \<open>
  C37: The \<open>LIKE\<close> pattern built from a query matches exactly the strings that contain the query
  literally, whatever wildcards it holds.
\<close>

theorem like_pattern_is_containment:
  "like f (contains_escaped q) t \<longleftrightarrow> str_contains (map f q) (map f t)"
  by (rule like_contains)

end
