(* ===== verification/Semantic.thy ===== *)
theory Semantic
  imports Listing
begin

text \<open>
  \<open>src/embeddings.rs\<close> and \<open>src/routes/semantic.rs\<close>: one embedding per package and model, padded
  to the fixed width of the column, and the search over them. The ranking is pgvector's: an
  external that is given the query literal, the limit and the rows of the model.

  An \<open>f32\<close> is what the code uses of it: whether it is finite, and its \<open>Display\<close> text.
\<close>

datatype f32 = Finite string | NonFinite string

fun f32_text :: "f32 \<Rightarrow> string" where
  "f32_text (Finite t) = t"
| "f32_text (NonFinite t) = t"

fun is_finite :: "f32 \<Rightarrow> bool" where
  "is_finite (Finite _) = True"
| "is_finite (NonFinite _) = False"

definition VECTOR_DIM :: nat where
  "VECTOR_DIM = 2050"

definition pad_to_dim :: "f32 list \<Rightarrow> string + f32 list" where
  "pad_to_dim embedding =
     (if embedding = [] then Inl ''embedding must be non-empty''
      else if VECTOR_DIM < length embedding then
        Inl (''embedding has '' @ nat_str (length embedding) @ '' dims, which exceeds the ''
             @ nat_str VECTOR_DIM @ ''-dim column'')
      else
        (case find (\<lambda>v. \<not> is_finite v) embedding of
           Some bad \<Rightarrow> Inl (''embedding contains a non-finite value ('' @ f32_text bad @ '')'')
         | None \<Rightarrow> Inr (embedding @ replicate (VECTOR_DIM - length embedding) (Finite ''0''))))"

fun literal_items :: "bool \<Rightarrow> f32 list \<Rightarrow> string" where
  "literal_items first [] = []"
| "literal_items first (v # vs) = (if first then [] else '','') @ f32_text v @ literal_items False vs"

definition to_pgvector_literal :: "f32 list \<Rightarrow> string" where
  "to_pgvector_literal embedding = ''['' @ literal_items True embedding @ '']''"

definition model_char :: "char \<Rightarrow> bool" where
  "model_char b \<longleftrightarrow>
     (let n = (of_char b :: nat)
      in (48 \<le> n \<and> n \<le> 57) \<or> (65 \<le> n \<and> n \<le> 90) \<or> (97 \<le> n \<and> n \<le> 122)) \<or>
     b \<in> {CHR ''.'', CHR ''_'', CHR '':'', CHR ''/'', CHR ''-''}"

definition valid_model :: "string \<Rightarrow> bool" where
  "valid_model m \<longleftrightarrow> m \<noteq> [] \<and> length m \<le> 120 \<and> list_all model_char m"

definition invalid_model_msg :: "string \<Rightarrow> string" where
  "invalid_model_msg m = ''invalid embedding model name `'' @ m @ ''`''"

section \<open>The upsert\<close>

definition refresh_embedding :: "embedding_row \<Rightarrow> embedding_row \<Rightarrow> embedding_row" where
  "refresh_embedding new old =
     old\<lparr>e_native_dim := e_native_dim new, e_vector := e_vector new, e_content := e_content new,
         e_content_sha := e_content_sha new, e_created_at := e_created_at new\<rparr>"

definition upsert_embedding_row :: "embedding_row \<Rightarrow> database \<Rightarrow> db_err + database" where
  "upsert_embedding_row r d =
     (if embedding_key r \<in> embedding_key ` set (embeddings d) then
        Inr (d\<lparr>embeddings := map_where (\<lambda>e. embedding_key e = embedding_key r) (refresh_embedding r)
                             (embeddings d)\<rparr>)
      else map_sum id (\<lambda>rs. d\<lparr>embeddings := rs\<rparr>)
             (insert_unique e_id embedding_key (has_package d (e_package r)) r (embeddings d)))"

definition embeddings_upsert ::
    "externals \<Rightarrow> uuid \<Rightarrow> string \<Rightarrow> f32 list \<Rightarrow> string \<Rightarrow> (string, unit) io" where
  "embeddings_upsert E package_id m embedding content =
     (if \<not> valid_model m then fail (invalid_model_msg m)
      else
        andThen (lift (pad_to_dim embedding)) (\<lambda>padded.
        andThen new_uuid (\<lambda>i.
        andThen utc_now (\<lambda>now.
        andThen (map_err (db_err_text E) (insert_stmt upsert_embedding_row
          \<lparr>e_id = i, e_package = package_id, e_model = m, e_native_dim = int (length embedding),
           e_vector = to_pgvector_literal padded, e_content = content,
           e_content_sha = sha256_hex E content, e_created_at = now\<rparr>)) (\<lambda>_. ret ())))))"

definition embeddings_search ::
    "externals \<Rightarrow> string \<Rightarrow> f32 list \<Rightarrow> nat \<Rightarrow> (string, (uuid \<times> real) list) io" where
  "embeddings_search E m query limit =
     (if \<not> valid_model m then fail (invalid_model_msg m)
      else
        andThen (lift (pad_to_dim query)) (\<lambda>padded.
          map_err (db_err_text E) (select (\<lambda>d.
            nearest E (to_pgvector_literal padded) (clamp 1 100 limit)
              (filter (\<lambda>e. e_model e = m) (embeddings d))))))"

section \<open>The handlers\<close>

definition require_pg :: "app_state \<Rightarrow> api_err + unit" where
  "require_pg st =
     (if backend st = Postgres then Inr ()
      else Inl (err_bad_request ''vector_unsupported''
                  ''embedding search requires a Postgres (pgvector) backend''))"

definition invalid_embedding :: "string \<Rightarrow> api_err" where
  "invalid_embedding e = err_bad_request ''invalid_embedding'' e"

definition upsert_embedding ::
    "externals \<Rightarrow> app_state \<Rightarrow> string option \<Rightarrow> string \<Rightarrow> string \<Rightarrow> string \<Rightarrow> f32 list \<Rightarrow> string \<Rightarrow>
     (api_err, string \<times> string \<times> string) io" where
  "upsert_embedding E st header org_slug name m embedding content =
     andThen (lift (require_pg st)) (\<lambda>_.
     andThen (require_token E st header) (\<lambda>token.
     andThen (find_org org_slug) (\<lambda>org.
     andThen (lift (authorize_publish (t_org token) (role_parse (t_role token)) (o_id org))) (\<lambda>_.
     andThen (find_package org name) (\<lambda>pkg.
     andThen (map_err invalid_embedding (embeddings_upsert E (p_id pkg) m embedding content)) (\<lambda>_.
       ret (org_slug, name, m)))))))"

record semantic_hit =
  sh_org :: string
  sh_name :: string
  sh_description :: "string option"
  sh_distance :: real
  sh_tags :: "string list"

definition package_by_id :: "uuid \<Rightarrow> database \<Rightarrow> (package_row \<times> org_row option) option" where
  "package_by_id i d =
     map_option (\<lambda>p. (p, org_of d p)) (find (\<lambda>p. p_id p = i) (packages d))"

text \<open>The loop over the neighbours: \<open>items\<close> is what was pushed, and a full page stops it.\<close>

fun collect_hits ::
    "string list \<Rightarrow> nat \<Rightarrow> (uuid \<times> real) list \<Rightarrow> semantic_hit list \<Rightarrow> (api_err, semantic_hit list) io" where
  "collect_hits want limit [] items = ret items"
| "collect_hits want limit ((i, dst) # ns) items =
     andThen (dbq (select (package_by_id i))) (\<lambda>found.
       case found of
         Some (pkg, Some org) \<Rightarrow>
           if \<not> has_all_tags (tags_of pkg) want then collect_hits want limit ns items
           else
             (let items' = items @ [\<lparr>sh_org = o_slug org, sh_name = p_name pkg,
                 sh_description = p_description pkg, sh_distance = dst, sh_tags = tags_of pkg\<rparr>]
              in if length items' \<ge> limit then ret items' else collect_hits want limit ns items')
       | _ \<Rightarrow> collect_hits want limit ns items)"

definition semantic_search ::
    "externals \<Rightarrow> app_state \<Rightarrow> string \<Rightarrow> f32 list \<Rightarrow> string list \<Rightarrow> nat \<Rightarrow>
     (api_err, semantic_hit list) io" where
  "semantic_search E st m embedding tags limit =
     andThen (lift (require_pg st)) (\<lambda>_.
       let want = parse_tag_filter (Some (join_with '','' tags));
           raw_limit = clamp 1 100 limit;
           fetch = (if want = [] then raw_limit else min (raw_limit * 4) 100)
       in andThen (map_err invalid_embedding (embeddings_search E m embedding fetch)) (\<lambda>neighbors.
            collect_hits want raw_limit neighbors []))"

section \<open>Padding\<close>

lemma pad_to_dim_Inr:
  "pad_to_dim v = Inr p \<longleftrightarrow>
     v \<noteq> [] \<and> length v \<le> VECTOR_DIM \<and> (\<forall>x\<in>set v. is_finite x) \<and>
     p = v @ replicate (VECTOR_DIM - length v) (Finite ''0'')"
  by (auto simp: pad_to_dim_def find_None split: option.splits dest: find_SomeD)

lemma pad_to_dim_length: "pad_to_dim v = Inr p \<Longrightarrow> length p = VECTOR_DIM \<and> take (length v) p = v"
  by (auto simp: pad_to_dim_Inr)

text \<open>
  The padding is invisible to a cosine: neither the inner product of two padded vectors nor
  their norms depend on it.
\<close>

fun dot :: "real list \<Rightarrow> real list \<Rightarrow> real" where
  "dot (x # xs) (y # ys) = x * y + dot xs ys"
| "dot _ _ = 0"

lemma dot_zeros: "dot (replicate n 0) ys = 0" "dot ys (replicate n 0) = 0"
proof -
  show "dot (replicate n 0) ys = 0"
  proof (induction n arbitrary: ys)
    case (Suc n)
    then show ?case by (cases ys) simp_all
  qed simp
  show "dot ys (replicate n 0) = 0"
  proof (induction n arbitrary: ys)
    case (Suc n)
    then show ?case by (cases ys) simp_all
  next
    case 0
    show ?case by (cases ys) simp_all
  qed
qed

lemma dot_padded:
  assumes "length xs = length ys"
  shows "dot (xs @ replicate m 0) (ys @ replicate n 0) = dot xs ys"
  using assms by (induction xs ys rule: list_induct2) (simp_all add: dot_zeros)

section \<open>The literal\<close>

lemma literal_items_join: "vs \<noteq> [] \<Longrightarrow> literal_items True vs = join_with '','' (map f32_text vs)"
proof (induction vs)
  case (Cons v vs)
  have "literal_items False us = (if us = [] then [] else '','' @ literal_items True us)" for us
    by (cases us) auto
  with Cons show ?case by (cases vs) auto
qed simp

text \<open>Splitting the literal at its commas gives back the texts of the components.\<close>

lemma literal_components:
  assumes "vs \<noteq> []" "\<forall>v\<in>set vs. CHR '','' \<notin> set (f32_text v)"
  shows "to_pgvector_literal vs = ''['' @ join_with '','' (map f32_text vs) @ '']''"
    and "split_on CHR '','' (join_with '','' (map f32_text vs)) = map f32_text vs"
proof -
  show "to_pgvector_literal vs = ''['' @ join_with '','' (map f32_text vs) @ '']''"
    using assms(1) by (simp add: to_pgvector_literal_def literal_items_join)
  have sp: "split_on c (a @ c # b) = a # split_on c b" if "c \<notin> set a" for a b c
    using that by (induction a) auto
  have one: "split_on c a = [a]" if "c \<notin> set a" for a c
    using that by (induction a) auto
  have "split_on c (join_with [c] ps) = ps" if "ps \<noteq> []" "\<forall>p\<in>set ps. c \<notin> set p" for ps c
    using that by (induction "[c]" ps rule: join_with.induct) (auto simp: sp one)
  then show "split_on CHR '','' (join_with '','' (map f32_text vs)) = map f32_text vs"
    using assms by auto
qed

section \<open>One embedding per package and model\<close>

definition embeddings_ok :: "database \<Rightarrow> bool" where
  "embeddings_ok d \<longleftrightarrow>
     distinct (map embedding_key (embeddings d)) \<and>
     (\<forall>e\<in>set (embeddings d). valid_model (e_model e) \<and> 1 \<le> e_native_dim e \<and> e_native_dim e \<le> int VECTOR_DIM)"

lemma refresh_key [simp]: "embedding_key (refresh_embedding n e) = embedding_key e"
  by (simp add: refresh_embedding_def embedding_key_def)

lemma upsert_embedding_row_ok:
  assumes ok: "embeddings_ok d" and ins: "upsert_embedding_row r d = Inr d'"
    and r: "valid_model (e_model r)" "1 \<le> e_native_dim r" "e_native_dim r \<le> int VECTOR_DIM"
  shows "embeddings_ok d'"
proof (cases "embedding_key r \<in> embedding_key ` set (embeddings d)")
  case True
  then have d': "embeddings d' = map_where (\<lambda>e. embedding_key e = embedding_key r) (refresh_embedding r) (embeddings d)"
    using ins by (auto simp: upsert_embedding_row_def)
  have "distinct (map embedding_key (embeddings d'))"
    using ok unfolding d' by (simp add: map_map_where embeddings_ok_def)
  moreover have "valid_model (e_model e) \<and> 1 \<le> e_native_dim e \<and> e_native_dim e \<le> int VECTOR_DIM"
    if e: "e \<in> set (embeddings d')" for e
    using e ok r unfolding d' set_map_where by (auto simp: embeddings_ok_def refresh_embedding_def)
  ultimately show ?thesis by (simp add: embeddings_ok_def)
next
  case False
  with ins have "embeddings d' = embeddings d @ [r]"
    by (auto simp: upsert_embedding_row_def map_sum_Inr_iff insert_unique_Inr)
  with False ok r show ?thesis by (auto simp: embeddings_ok_def)
qed

lemma embeddings_upsert_keeps_ok: "keeps embeddings_ok (embeddings_upsert E i m v c)"
proof (cases "pad_to_dim v")
  case (Inl e)
  then show ?thesis by (auto simp: keeps_def embeddings_upsert_def andThen_def)
next
  case (Inr p)
  then have len: "Suc 0 \<le> length v" "length v \<le> VECTOR_DIM"
    by (cases v; simp add: pad_to_dim_Inr)+
  show ?thesis
  proof (cases "valid_model m")
    case True
    then show ?thesis
      unfolding embeddings_upsert_def
      by (intro keeps_intro) (rule upsert_embedding_row_ok, assumption, assumption, simp_all add: len)
  qed (simp add: embeddings_upsert_def keeps_def)
qed

lemma upsert_embedding_row_frame:
  "upsert_embedding_row r d = Inr d' \<Longrightarrow> \<exists>es. d' = d\<lparr>embeddings := es\<rparr>"
  by (auto simp: upsert_embedding_row_def map_sum_Inr_iff split: if_splits)

lemma upsert_embedding_keeps_store [keeps_intro]: "keeps_store (upsert_embedding E st h s n m v c)"
  unfolding upsert_embedding_def embeddings_upsert_def by (intro keeps_intro)

section \<open>A page of hits\<close>

definition hit_of :: "database \<Rightarrow> string list \<Rightarrow> uuid \<times> real \<Rightarrow> semantic_hit list" where
  "hit_of d want = (\<lambda>(i, dst).
     case package_by_id i d of
       Some (pkg, Some org) \<Rightarrow>
         if has_all_tags (tags_of pkg) want
         then [\<lparr>sh_org = o_slug org, sh_name = p_name pkg, sh_description = p_description pkg,
                sh_distance = dst, sh_tags = tags_of pkg\<rparr>]
         else []
     | _ \<Rightarrow> [])"

text \<open>The loop with its early exit is a prefix of the filtered neighbours, in their order.\<close>

lemma collect_hits_pure: "pure_read (collect_hits want limit ns items)"
proof (induction ns arbitrary: items)
  case (Cons n ns)
  obtain i dst where "n = (i, dst)" by (cases n)
  with Cons.IH show ?case
    by (auto intro!: keeps_intro simp: Let_def split: option.splits prod.splits)
qed (simp add: pure_read_intros)

lemma collect_hits_Inr:
  assumes "collect_hits want limit ns items w = (Inr hits, w')" "length items < limit"
  shows "hits = items @ take (limit - length items) (concat (map (hit_of (db w) want) ns))"
  using assms
proof (induction ns arbitrary: items w)
  case (Cons x ns)
  obtain i dst where x: "x = (i, dst)" by (cases x)
  let ?rest = "concat (map (hit_of (db w) want) ns)"
  from Cons.prems(1) x have
    step: "(case package_by_id i (db w) of
         Some (pkg, Some org) \<Rightarrow>
           if \<not> has_all_tags (tags_of pkg) want then collect_hits want limit ns items
           else
             (let items' = items @ [\<lparr>sh_org = o_slug org, sh_name = p_name pkg,
                 sh_description = p_description pkg, sh_distance = dst, sh_tags = tags_of pkg\<rparr>]
              in if length items' \<ge> limit then ret items' else collect_hits want limit ns items')
       | _ \<Rightarrow> collect_hits want limit ns items) (next_call w) = (Inr hits, w')"
    by (auto simp: andThen_Inr select_Inr)
  have skip: ?case if "hit_of (db w) want (i, dst) = []" "collect_hits want limit ns items (next_call w) = (Inr hits, w')"
    using Cons.IH [OF that(2) Cons.prems(2)] that(1) x by simp
  show ?case
  proof (cases "package_by_id i (db w)")
    case None
    with step skip show ?thesis by (simp add: hit_of_def)
  next
    case (Some po)
    obtain pkg oo where po: "po = (pkg, oo)" by (cases po)
    show ?thesis
    proof (cases oo)
      case None
      with step skip Some po show ?thesis by (simp add: hit_of_def)
    next
      case org: (Some org)
      let ?h = "\<lparr>sh_org = o_slug org, sh_name = p_name pkg, sh_description = p_description pkg,
         sh_distance = dst, sh_tags = tags_of pkg\<rparr>"
      show ?thesis
      proof (cases "has_all_tags (tags_of pkg) want")
        case False
        with step skip Some po org show ?thesis by (simp add: hit_of_def)
      next
        case True
        have hit: "hit_of (db w) want (i, dst) = [?h]" using Some po org True by (simp add: hit_of_def)
        show ?thesis
        proof (cases "limit \<le> length (items @ [?h])")
          case full: True
          then have "hits = items @ [?h]" using step Some po org True by (simp add: Let_def)
          moreover have "limit - length items = 1" using full Cons.prems(2) by simp
          ultimately show ?thesis using hit x by simp
        next
          case room: False
          then have run: "collect_hits want limit ns (items @ [?h]) (next_call w) = (Inr hits, w')"
            using step Some po org True by (simp add: Let_def)
          have "hits = (items @ [?h]) @ take (limit - length (items @ [?h])) ?rest"
            using Cons.IH [OF run] room by simp
          moreover have "limit - length items = Suc (limit - length (items @ [?h]))" using room by simp
          ultimately show ?thesis using hit x by simp
        qed
      qed
    qed
  qed
qed simp

lemma semantic_search_sound:
  assumes "semantic_search E st m v tags limit w = (Inr hits, w')"
  shows "length hits \<le> clamp 1 100 limit"
    and "\<And>h. h \<in> set hits \<Longrightarrow> set (parse_tag_filter (Some (join_with '','' tags))) \<subseteq> set (sh_tags h)"
proof -
  let ?want = "parse_tag_filter (Some (join_with '','' tags))"
  from assms obtain ns w1 where c: "collect_hits ?want (clamp 1 100 limit) ns [] w1 = (Inr hits, w')"
    by (auto simp: semantic_search_def Let_def andThen_Inr split: if_splits)
  have pos: "1 \<le> clamp 1 100 limit" using clamp_bounds [of 1 "100::nat" limit] by simp
  have hits: "hits = take (clamp 1 100 limit) (concat (map (hit_of (db w1) ?want) ns))"
    using collect_hits_Inr [OF c] pos by simp
  then show "length hits \<le> clamp 1 100 limit" by simp
  fix h assume "h \<in> set hits"
  then obtain i dst where "h \<in> set (hit_of (db w1) ?want (i, dst))"
    unfolding hits by (auto dest!: in_set_takeD)
  then show "set ?want \<subseteq> set (sh_tags h)"
    by (auto simp: hit_of_def has_all_tags_iff split: option.splits if_splits)
qed

text \<open>
  A database failure of the vector statement comes back as the caller's mistake, with the
  database's own text.
\<close>

lemma embedding_db_error:
  assumes "valid_model m" "pad_to_dim v = Inr p" "faults w (calls w) = Some e"
  shows "fst (map_err invalid_embedding (embeddings_search E m v l) w) =
    Inl (err_bad_request ''invalid_embedding'' (db_err_text E e))"
  using assms by (simp add: embeddings_search_def run_simps invalid_embedding_def)

end
