(* ===== verification/F64.thy ===== *)
theory F64
  imports Prelude
begin

text \<open>
  The \<open>f64\<close> of the Rust standard library, as far as the rate limiter computes with it: IEEE 754
  binary64 with rounding to nearest, ties to even, gradual underflow, overflow to infinity, and
  NaN. A finite value is the real number it denotes; the sign of zero is not kept, since nothing
  divides by a zero. The lemmas are the few facts on rounding that error bounds rest on.
\<close>

section \<open>Rounding\<close>

text \<open>The exponent of the last place of a binary64 number of the size of \<open>x\<close>.\<close>

definition last_place :: "real \<Rightarrow> int" where
  "last_place x = max (\<lfloor>log 2 \<bar>x\<bar>\<rfloor> - 52) (-1074)"

definition half_even :: "real \<Rightarrow> int" where
  "half_even x =
     (let n = \<lfloor>x\<rfloor>; d = x - of_int n
      in if d < 1 / 2 then n else if 1 / 2 < d then n + 1 else if even n then n else n + 1)"

definition rnd :: "real \<Rightarrow> real" where
  "rnd x = (if x = 0 then 0 else of_int (half_even (x / 2 powi last_place x)) * 2 powi last_place x)"

lemma half_even_near: "\<bar>of_int (half_even x) - x\<bar> \<le> 1 / 2"
proof -
  have "of_int \<lfloor>x\<rfloor> \<le> x" "x < of_int \<lfloor>x\<rfloor> + 1" by linarith+
  then show ?thesis unfolding half_even_def Let_def by (simp split: if_split)
qed

lemma half_even_int [simp]: "half_even (of_int n) = n"
  by (simp add: half_even_def)

lemma half_even_mono:
  assumes "x \<le> y"
  shows "half_even x \<le> half_even y"
proof (cases "\<lfloor>x\<rfloor> = \<lfloor>y\<rfloor>")
  case True
  with assms show ?thesis unfolding half_even_def Let_def by simp
next
  case False
  with assms have less: "\<lfloor>x\<rfloor> + 1 \<le> \<lfloor>y\<rfloor>" using floor_mono [OF assms] by linarith
  have "half_even x \<le> \<lfloor>x\<rfloor> + 1" "\<lfloor>y\<rfloor> \<le> half_even y" by (simp_all add: half_even_def Let_def)
  with less show ?thesis by linarith
qed

lemma half_even_ge: "of_int n \<le> x \<Longrightarrow> n \<le> half_even x"
  using half_even_mono [of "of_int n" x] by simp

lemma half_even_le: "x \<le> of_int n \<Longrightarrow> half_even x \<le> n"
  using half_even_mono [of x "of_int n"] by simp

lemma rnd_0 [simp]: "rnd 0 = 0"
  by (simp add: rnd_def)

lemma rnd_nonneg: "0 \<le> x \<Longrightarrow> 0 \<le> rnd x"
  using half_even_ge [of 0 "x / 2 powi last_place x"] by (simp add: rnd_def)

text \<open>Where the binary logarithm lies.\<close>

lemma powr_powi: "2 powr of_int n = (2 :: real) powi n"
  by (rule powr_real_of_int') simp_all

lemma log_bracket:
  assumes "0 < x"
  shows "2 powi \<lfloor>log 2 x\<rfloor> \<le> x" "x < 2 powi (\<lfloor>log 2 x\<rfloor> + 1)"
proof -
  let ?k = "\<lfloor>log 2 x\<rfloor>"
  have "2 powr of_int ?k \<le> x \<and> x < 2 powr (of_int ?k + 1)"
    using floor_log_eq_powr_iff [of x 2 ?k] assms by simp
  with powr_powi [of ?k] powr_powi [of "?k + 1"] show "2 powi ?k \<le> x" "x < 2 powi (?k + 1)"
    by simp_all
qed

lemma last_place_eq:
  assumes "2 powi k \<le> x" "x < 2 powi (k + 1)" "-1022 \<le> k"
  shows "last_place x = k - 52"
proof -
  have "0 < x" using less_le_trans [OF zero_less_power_int assms(1)] by simp
  moreover from this have "\<lfloor>log 2 x\<rfloor> = k"
    using assms(1,2) floor_log_eq_powr_iff [of x 2 k] powr_powi [of k] powr_powi [of "k + 1"] by simp
  ultimately show ?thesis using assms(3) by (simp add: last_place_def)
qed

lemma last_place_mono:
  assumes "0 < x" "x \<le> y"
  shows "last_place x \<le> last_place y"
proof -
  have "log 2 x \<le> log 2 y" using assms by simp
  from floor_mono [OF this] show ?thesis using assms unfolding last_place_def by simp
qed

section \<open>Rounding is monotone, exact on integers, and close\<close>

text \<open>A multiple of its last place is where it is.\<close>

lemma rnd_scaled: "x \<noteq> 0 \<Longrightarrow> x = of_int n * 2 powi last_place x \<Longrightarrow> rnd x = x"
proof -
  assume "x \<noteq> 0" and x: "x = of_int n * 2 powi last_place x"
  let ?u = "2 powi last_place x :: real"
  have "x / ?u = of_int n" by (subst x) simp
  then have "rnd x = of_int n * ?u" using \<open>x \<noteq> 0\<close> by (simp add: rnd_def)
  with x show "rnd x = x" by simp
qed

lemma rnd_nat:
  assumes "n < 2 ^ 53"
  shows "rnd (real n) = real n"
proof (cases "n = 0")
  case False
  let ?x = "real n"
  have lt: "?x < 2 powi 53"
  proof -
    have "real n < real (2 ^ 53)" using assms by (simp only: of_nat_less_iff)
    then show ?thesis by simp
  qed
  have "2 powi \<lfloor>log 2 ?x\<rfloor> < (2 :: real) powi 53" using log_bracket(1) [of ?x] lt False by simp
  then have "\<lfloor>log 2 ?x\<rfloor> < 53" using power_int_le_imp_less_exp [of 2 "\<lfloor>log 2 ?x\<rfloor>" 53] by simp
  then have "last_place ?x \<le> 0" using False by (simp add: last_place_def)
  then have "(2 :: real) powi last_place ?x * 2 powi (- last_place ?x) = 1"
    by (simp flip: power_int_add)
  moreover have "(2 :: real) powi (- last_place ?x) = of_int (2 ^ nat (- last_place ?x))"
    using \<open>last_place ?x \<le> 0\<close> by (simp add: power_int_nonneg_exp)
  ultimately have "?x = of_int (int n * 2 ^ nat (- last_place ?x)) * 2 powi last_place ?x"
    by (simp add: mult.commute mult.left_commute)
  then show ?thesis using False by (intro rnd_scaled [of _ "int n * 2 ^ nat (- last_place ?x)"]) simp_all
qed simp

lemma powi_split: "a \<le> c \<Longrightarrow> 2 powi c = real_of_int (2 ^ nat (c - a)) * 2 powi a"
proof -
  assume "a \<le> c"
  then have "real_of_int (2 ^ nat (c - a)) = 2 powi (c - a)" by (simp add: power_int_nonneg_exp)
  moreover have "2 powi (c - a) * 2 powi a = (2 :: real) powi c" by (simp flip: power_int_add)
  ultimately show ?thesis by simp
qed

lemma rnd_mono:
  assumes "0 \<le> x" "x \<le> y"
  shows "rnd x \<le> rnd y"
proof (cases "x = 0")
  case True
  with assms show ?thesis using rnd_nonneg [of y] by simp
next
  case False
  with assms have pos: "0 < x" "0 < y" by simp_all
  let ?a = "last_place x" and ?b = "last_place y"
  have ab: "?a \<le> ?b" using last_place_mono [OF pos(1) assms(2)] .
  have r: "rnd x = of_int (half_even (x / 2 powi ?a)) * 2 powi ?a"
    "rnd y = of_int (half_even (y / 2 powi ?b)) * 2 powi ?b"
    using pos by (simp_all add: rnd_def)
  show ?thesis
  proof (cases "?a = ?b")
    case True
    have "x / 2 powi ?a \<le> y / 2 powi ?a" using assms(2) by (simp add: divide_right_mono)
    from half_even_mono [OF this] show ?thesis unfolding r True by (simp add: mult_right_mono)
  next
    case False
    with ab have less: "?a + 1 \<le> ?b" by simp
    moreover have la: "?a = max (\<lfloor>log 2 x\<rfloor> - 52) (-1074)" "?b = max (\<lfloor>log 2 y\<rfloor> - 52) (-1074)"
      using pos by (simp_all add: last_place_def)
    ultimately have "\<lfloor>log 2 x\<rfloor> + 1 \<le> ?a + 53" and b: "?b = \<lfloor>log 2 y\<rfloor> - 52" by linarith+
    define z :: real where "z = 2 powi (?b + 52)"
    have zy: "z \<le> y" using log_bracket(1) [OF pos(2)] by (simp add: z_def b)
    have "x < 2 powi (\<lfloor>log 2 x\<rfloor> + 1)" by (rule log_bracket(2) [OF pos(1)])
    also have "\<dots> \<le> z"
      unfolding z_def using less \<open>\<lfloor>log 2 x\<rfloor> + 1 \<le> ?a + 53\<close> by (intro power_int_increasing) auto
    finally have xz: "x \<le> z" by simp
    have split: "z = of_int (2 ^ nat (?b + 52 - ?a)) * 2 powi ?a" "z = of_int (2 ^ 52) * 2 powi ?b"
      using less powi_split [of ?a "?b + 52"] powi_split [of ?b "?b + 52"] by (simp_all add: z_def)
    have "x / 2 powi ?a \<le> of_int (2 ^ nat (?b + 52 - ?a))"
      using xz unfolding split(1) by (simp add: pos_divide_le_eq)
    from half_even_le [OF this] have "rnd x \<le> z"
      unfolding r split(1) by (intro mult_right_mono) (simp_all only: of_int_le_iff zero_le_power_int zero_le_numeral)
    moreover have "of_int (2 ^ 52) \<le> y / 2 powi ?b"
      using zy unfolding split(2) by (simp add: pos_le_divide_eq)
    from half_even_ge [OF this] have "z \<le> rnd y"
      unfolding r split(2) by (intro mult_right_mono) (simp_all only: of_int_le_iff zero_le_power_int zero_le_numeral)
    ultimately show ?thesis by simp
  qed
qed


text \<open>Half an ulp of 1, and half of the smallest positive number.\<close>

definition eps :: real where
  "eps = 1 / 2 ^ 53"

definition tiny :: real where
  "tiny = 1 / 2 ^ 1075"

lemma eps_bounds: "0 < eps" "eps \<le> 1 / 2 ^ 50" "eps \<le> 1"
  by (simp_all add: eps_def)

lemma tiny_bounds: "0 < tiny" "tiny \<le> eps / 2 ^ 40" "tiny \<le> eps"
proof -
  show "0 < tiny" by (simp add: tiny_def)
  have "(2 :: real) ^ 93 \<le> 2 ^ 1075" by (intro power_increasing) simp_all
  then have "1 / 2 ^ 1075 \<le> 1 / (2 :: real) ^ 93" by (intro divide_left_mono) simp_all
  moreover have "eps / 2 ^ 40 = 1 / 2 ^ 93" by (simp add: eps_def)
  ultimately show le: "tiny \<le> eps / 2 ^ 40" unfolding tiny_def by linarith
  have "eps / 2 ^ 40 \<le> eps" using eps_bounds(1) by (simp add: field_simps)
  with le show "tiny \<le> eps" by linarith
qed

lemma rnd_half_place: "\<bar>rnd x - x\<bar> \<le> 2 powi last_place x / 2"
proof (cases "x = 0")
  case False
  let ?u = "2 powi last_place x :: real"
  have u: "0 < ?u" by simp
  have "rnd x - x = (of_int (half_even (x / ?u)) - x / ?u) * ?u"
    using False u by (simp add: rnd_def left_diff_distrib)
  then have "\<bar>rnd x - x\<bar> = \<bar>of_int (half_even (x / ?u)) - x / ?u\<bar> * ?u"
    using u by (simp add: abs_mult)
  also have "\<dots> \<le> 1 / 2 * ?u" by (intro mult_right_mono half_even_near) simp
  finally show ?thesis by simp
qed simp

lemma place_cases:
  assumes "0 < x"
  obtains (normal) "2 powi last_place x / 2 \<le> x * eps" | (subnormal) "x < 2 powi (-1022)" "2 powi last_place x / 2 = tiny"
proof (cases "-1022 \<le> \<lfloor>log 2 x\<rfloor>")
  case True
  let ?k = "\<lfloor>log 2 x\<rfloor>"
  have "last_place x = max (?k - 52) (-1074)" using assms by (simp add: last_place_def)
  with True have "last_place x = ?k - 52" by linarith
  then have "(2 :: real) powi last_place x * 2 ^ 52 = 2 powi ?k"
    using powi_split [of "last_place x" ?k] by simp
  with log_bracket(1) [OF assms] have "2 powi last_place x / 2 \<le> x * eps" by (simp add: eps_def)
  then show thesis by (rule normal)
next
  case False
  let ?k = "\<lfloor>log 2 x\<rfloor>"
  have "last_place x = max (?k - 52) (-1074)" using assms by (simp add: last_place_def)
  with False have "last_place x = -1074" by linarith
  moreover have "(2 :: real) powi (-1074) / 2 = tiny"
    by (simp add: tiny_def power_int_minus field_simps flip: power_Suc)
  moreover have "x < 2 powi (-1022)"
    using log_bracket(2) [OF assms] power_int_increasing [of "?k + 1" "-1022" "2 :: real"] False by linarith
  ultimately show thesis using subnormal by simp
qed

lemma rnd_close: "0 \<le> x \<Longrightarrow> \<bar>rnd x - x\<bar> \<le> x * eps + tiny"
proof (cases "x = 0")
  case False
  assume "0 \<le> x"
  with False have "0 < x" by simp
  then show ?thesis
  proof (cases rule: place_cases)
    case normal
    with rnd_half_place [of x] tiny_bounds(1) show ?thesis by linarith
  next
    case subnormal
    have "0 \<le> x * eps" using \<open>0 < x\<close> eps_bounds(1) by simp
    with subnormal rnd_half_place [of x] show ?thesis by linarith
  qed
qed (use tiny_bounds(1) in simp)

lemma rnd_rel: "x = 0 \<or> 2 powi (-1022) \<le> x \<Longrightarrow> \<bar>rnd x - x\<bar> \<le> x * eps"
proof (cases "x = 0")
  case False
  assume "x = 0 \<or> 2 powi (-1022) \<le> x"
  with False have x: "2 powi (-1022) \<le> x" by simp
  then have "0 < x" using less_le_trans [OF zero_less_power_int x] by simp
  then show ?thesis
  proof (cases rule: place_cases)
    case normal
    with rnd_half_place [of x] show ?thesis by linarith
  next
    case subnormal
    with x show ?thesis by linarith
  qed
qed simp

section \<open>Numbers and operations\<close>

datatype f64 = Fnum real | PosInf | NegInf | NaN

text \<open>The result of an operation whose exact value is \<open>x\<close>; what rounds to \<open>2 ^ 1024\<close> or more overflows.\<close>

definition f64_of :: "real \<Rightarrow> f64" where
  "f64_of x = (if rnd x \<ge> 2 ^ 1024 then PosInf else if rnd x \<le> - (2 ^ 1024) then NegInf else Fnum (rnd x))"

text \<open>\<open>f64::from(u32)\<close> and the cast of an integer.\<close>

definition f64_nat :: "nat \<Rightarrow> f64" where
  "f64_nat n = f64_of (real n)"

fun f64_add :: "f64 \<Rightarrow> f64 \<Rightarrow> f64" where
  "f64_add (Fnum x) (Fnum y) = f64_of (x + y)"
| "f64_add NaN _ = NaN"
| "f64_add _ NaN = NaN"
| "f64_add PosInf NegInf = NaN"
| "f64_add NegInf PosInf = NaN"
| "f64_add PosInf _ = PosInf"
| "f64_add _ PosInf = PosInf"
| "f64_add NegInf _ = NegInf"
| "f64_add _ NegInf = NegInf"

fun f64_neg :: "f64 \<Rightarrow> f64" where
  "f64_neg (Fnum x) = Fnum (- x)"
| "f64_neg PosInf = NegInf"
| "f64_neg NegInf = PosInf"
| "f64_neg NaN = NaN"

definition f64_sub :: "f64 \<Rightarrow> f64 \<Rightarrow> f64" where
  "f64_sub x y = f64_add x (f64_neg y)"

text \<open>An infinity times a number takes the sign of the number; times zero it is NaN.\<close>

definition inf_times :: "real \<Rightarrow> f64" where
  "inf_times s = (if s > 0 then PosInf else if s < 0 then NegInf else NaN)"

fun f64_mul :: "f64 \<Rightarrow> f64 \<Rightarrow> f64" where
  "f64_mul (Fnum x) (Fnum y) = f64_of (x * y)"
| "f64_mul NaN _ = NaN"
| "f64_mul _ NaN = NaN"
| "f64_mul (Fnum x) PosInf = inf_times x"
| "f64_mul (Fnum x) NegInf = inf_times (- x)"
| "f64_mul PosInf (Fnum x) = inf_times x"
| "f64_mul NegInf (Fnum x) = inf_times (- x)"
| "f64_mul PosInf PosInf = PosInf"
| "f64_mul PosInf NegInf = NegInf"
| "f64_mul NegInf PosInf = NegInf"
| "f64_mul NegInf NegInf = PosInf"

text \<open>A zero divisor is taken as the positive zero.\<close>

fun f64_div :: "f64 \<Rightarrow> f64 \<Rightarrow> f64" where
  "f64_div (Fnum x) (Fnum y) = (if y = 0 then inf_times x else f64_of (x / y))"
| "f64_div NaN _ = NaN"
| "f64_div _ NaN = NaN"
| "f64_div (Fnum _) _ = Fnum 0"
| "f64_div PosInf (Fnum y) = (if y \<ge> 0 then PosInf else NegInf)"
| "f64_div NegInf (Fnum y) = (if y \<ge> 0 then NegInf else PosInf)"
| "f64_div _ _ = NaN"

text \<open>Comparisons are false on NaN; \<open>min\<close> and \<open>max\<close> return the other argument.\<close>

fun f64_le :: "f64 \<Rightarrow> f64 \<Rightarrow> bool" where
  "f64_le (Fnum x) (Fnum y) = (x \<le> y)"
| "f64_le NaN _ = False"
| "f64_le _ NaN = False"
| "f64_le NegInf _ = True"
| "f64_le _ PosInf = True"
| "f64_le _ _ = False"

definition f64_less :: "f64 \<Rightarrow> f64 \<Rightarrow> bool" where
  "f64_less x y = (f64_le x y \<and> \<not> f64_le y x)"

definition f64_min :: "f64 \<Rightarrow> f64 \<Rightarrow> f64" where
  "f64_min x y = (if x = NaN then y else if y = NaN then x else if f64_le x y then x else y)"

definition f64_max :: "f64 \<Rightarrow> f64 \<Rightarrow> f64" where
  "f64_max x y = (if x = NaN then y else if y = NaN then x else if f64_le y x then x else y)"

fun f64_ceil :: "f64 \<Rightarrow> f64" where
  "f64_ceil (Fnum x) = Fnum (of_int \<lceil>x\<rceil>)"
| "f64_ceil x = x"

text \<open>\<open>as u64\<close>: truncated and saturating, and 0 for NaN.\<close>

fun f64_as_u64 :: "f64 \<Rightarrow> nat" where
  "f64_as_u64 (Fnum x) = min U64_MAX (nat \<lfloor>x\<rfloor>)"
| "f64_as_u64 PosInf = U64_MAX"
| "f64_as_u64 _ = 0"

text \<open>\<open>Duration::as_secs_f64\<close> of a duration in nanoseconds.\<close>

definition as_secs_f64 :: "nat \<Rightarrow> f64" where
  "as_secs_f64 ns = f64_add (f64_nat (ns div 10 ^ 9)) (f64_div (f64_nat (ns mod 10 ^ 9)) (Fnum (10 ^ 9)))"

section \<open>Facts on the operations\<close>

lemma rnd_ge_nat: "real n \<le> x \<Longrightarrow> n < 2 ^ 53 \<Longrightarrow> real n \<le> rnd x"
  using rnd_mono [of "real n" x] rnd_nat [of n] by simp

lemma rnd_le_nat: "0 \<le> x \<Longrightarrow> x \<le> real n \<Longrightarrow> n < 2 ^ 53 \<Longrightarrow> rnd x \<le> real n"
  using rnd_mono [of x "real n"] rnd_nat [of n] by simp

lemma max_finite: "real n < 2 ^ 1024" if "n < 2 ^ 53" for n
proof -
  have "real n < 2 ^ 53" using that by (metis of_nat_less_iff of_nat_numeral of_nat_power)
  also have "\<dots> \<le> (2 :: real) ^ 1024" by (intro power_increasing) simp_all
  finally show ?thesis .
qed

lemma f64_of_nonneg: "0 \<le> x \<Longrightarrow> f64_of x = (if rnd x \<ge> 2 ^ 1024 then PosInf else Fnum (rnd x))"
proof -
  assume "0 \<le> x"
  have "(0 :: real) < 2 ^ 1024" by (rule zero_less_power) simp
  with rnd_nonneg [OF \<open>0 \<le> x\<close>] have "\<not> rnd x \<le> - (2 ^ 1024)" by linarith
  then show ?thesis by (simp only: f64_of_def if_False)
qed

lemma f64_of_finite: "0 \<le> x \<Longrightarrow> x \<le> real n \<Longrightarrow> n < 2 ^ 53 \<Longrightarrow> f64_of x = Fnum (rnd x)"
proof -
  assume x: "0 \<le> x" "x \<le> real n" "n < 2 ^ 53"
  from rnd_le_nat [OF x] max_finite [OF x(3)] have "\<not> rnd x \<ge> 2 ^ 1024" by linarith
  then show ?thesis using f64_of_nonneg [OF x(1)] by (simp only: if_False)
qed

lemma f64_nat_exact: "n < 2 ^ 53 \<Longrightarrow> f64_nat n = Fnum (real n)"
  using f64_of_finite [of "real n" n] rnd_nat [of n] by (simp add: f64_nat_def)

text \<open>A sum capped at a whole number, whether or not it overflows.\<close>

lemma capped_sum:
  assumes t: "0 \<le> t" and x: "0 \<le> x" and n: "n < 2 ^ 53"
  shows "f64_min (f64_add (Fnum t) (f64_of x)) (Fnum (real n)) = Fnum (min (rnd (t + rnd x)) (real n))"
proof -
  have sum: "f64_min (f64_of y) (Fnum (real n)) = Fnum (min (rnd y) (real n))" if "0 \<le> y" for y
    using f64_of_nonneg [OF that] max_finite [OF n] by (auto simp: f64_min_def)
  show ?thesis
  proof (cases "rnd x \<ge> 2 ^ 1024")
    case True
    then have "real n \<le> t + rnd x" using max_finite [OF n] t by linarith
    then have "real n \<le> rnd (t + rnd x)" using n by (rule rnd_ge_nat)
    then show ?thesis using True f64_of_nonneg [OF x] by (simp add: f64_min_def)
  next
    case False
    then have "f64_of x = Fnum (rnd x)" using f64_of_nonneg [OF x] by (simp only: if_False)
    then show ?thesis using sum [of "t + rnd x"] t rnd_nonneg [OF x] by simp
  qed
qed

section \<open>Durations\<close>

text \<open>What \<open>as_secs_f64\<close> denotes when it is finite, which a duration of the library always is.\<close>

definition dur_secs :: "nat \<Rightarrow> real" where
  "dur_secs ns = rnd (rnd (real (ns div 10 ^ 9)) + rnd (real (ns mod 10 ^ 9) / 10 ^ 9))"

abbreviation DURATION_MAX :: nat where
  "DURATION_MAX \<equiv> U64_MAX * 10 ^ 9"

lemma dur_secs_0 [simp]: "dur_secs 0 = 0"
  by (simp add: dur_secs_def)

lemma dur_secs_nonneg [simp]: "0 \<le> dur_secs ns"
  by (simp add: dur_secs_def rnd_nonneg)

lemma second_normal: "2 powi (-1022) \<le> (1 / 10 ^ 9) * (1 - eps)"
proof -
  have "(2 :: real) powi (-1022) \<le> 2 powi (-40)" by (intro power_int_increasing) simp_all
  also have "\<dots> = 1 / 2 ^ 40" by (simp add: power_int_minus field_simps)
  also have "\<dots> \<le> (1 / 10 ^ 9) * (1 - eps)" by (simp add: eps_def)
  finally show ?thesis .
qed

lemma dur_secs_parts:
  fixes ns :: nat
  defines "q \<equiv> real (ns div 10 ^ 9)" and "y \<equiv> real (ns mod 10 ^ 9) / 10 ^ 9"
  shows "q + y = real ns / 10 ^ 9"
    and "\<bar>rnd q - q\<bar> \<le> q * eps" "\<bar>rnd y - y\<bar> \<le> y * eps"
    and "\<bar>dur_secs ns - (rnd q + rnd y)\<bar> \<le> (rnd q + rnd y) * eps"
proof -
  have "real (10 ^ 9 * (ns div 10 ^ 9) + ns mod 10 ^ 9) = real ns" by (simp only: mult_div_mod_eq)
  then have "10 ^ 9 * q + real (ns mod 10 ^ 9) = real ns"
    unfolding q_def by (simp only: of_nat_add of_nat_mult of_nat_power of_nat_numeral)
  then show "q + y = real ns / 10 ^ 9" unfolding y_def by simp
  have one: "2 powi (-1022) \<le> (1 / 10 ^ 9 :: real)"
    using second_normal eps_bounds(1) by (simp add: field_simps)
  have q: "q = 0 \<or> 1 \<le> q" by (simp add: q_def) linarith
  with one show rq: "\<bar>rnd q - q\<bar> \<le> q * eps" by (intro rnd_rel) auto
  have y: "y = 0 \<or> 1 / 10 ^ 9 \<le> y"
    by (cases "ns mod 10 ^ 9 = 0") (auto simp: y_def divide_right_mono)
  with one show ry: "\<bar>rnd y - y\<bar> \<le> y * eps" by (intro rnd_rel) linarith
  have low: "rnd z = 0 \<or> (1 / 10 ^ 9) * (1 - eps) \<le> rnd z"
    if "z = 0 \<or> 1 / 10 ^ 9 \<le> z" "\<bar>rnd z - z\<bar> \<le> z * eps" for z
  proof (cases "z = 0")
    case False
    with that have "1 / 10 ^ 9 \<le> z" by simp
    then have "(1 / 10 ^ 9) * (1 - eps) \<le> z * (1 - eps)"
      using eps_bounds(3) that by (intro mult_right_mono) linarith+
    moreover have "z * (1 - eps) \<le> rnd z" using that(2) by (simp add: algebra_simps)
    ultimately show ?thesis by linarith
  qed simp
  have "q = 0 \<or> 1 / 10 ^ 9 \<le> q" using q by auto
  from low [OF this rq] low [OF y ry] rnd_nonneg [of q] rnd_nonneg [of y]
  have "rnd q + rnd y = 0 \<or> 2 powi (-1022) \<le> rnd q + rnd y"
    using second_normal by (auto simp: q_def y_def)
  then show "\<bar>dur_secs ns - (rnd q + rnd y)\<bar> \<le> (rnd q + rnd y) * eps"
    using rnd_rel [of "rnd q + rnd y"] by (simp add: dur_secs_def q_def y_def)
qed

lemma scaled_up: "\<bar>a - x\<bar> \<le> x * e \<Longrightarrow> a \<le> x * (1 + e)" for a x e :: real
  by (simp add: distrib_left)

lemma dur_secs_le: "dur_secs ns \<le> real ns / 10 ^ 9 * ((1 + eps) * (1 + eps))"
proof -
  let ?q = "real (ns div 10 ^ 9)" and ?y = "real (ns mod 10 ^ 9) / 10 ^ 9"
  note p = dur_secs_parts [of ns]
  have "rnd ?q + rnd ?y \<le> (?q + ?y) * (1 + eps)" 
    using scaled_up [OF p(2)] scaled_up [OF p(3)] unfolding distrib_right by linarith
  then have "(rnd ?q + rnd ?y) * (1 + eps) \<le> (?q + ?y) * (1 + eps) * (1 + eps)"
    using eps_bounds(1) by (intro mult_right_mono) simp_all
  moreover have "dur_secs ns \<le> (rnd ?q + rnd ?y) * (1 + eps)" by (rule scaled_up [OF p(4)])
  ultimately show ?thesis unfolding p(1) [symmetric] mult.assoc [symmetric] by linarith
qed

lemma scaled_down: "\<bar>a - x\<bar> \<le> x * e \<Longrightarrow> x * (1 - e) \<le> a" for a x e :: real
  by (simp add: right_diff_distrib)

lemma dur_secs_lower: "real ns / 10 ^ 9 * ((1 - eps) * (1 - eps)) \<le> dur_secs ns"
proof -
  let ?q = "real (ns div 10 ^ 9)" and ?y = "real (ns mod 10 ^ 9) / 10 ^ 9"
  note p = dur_secs_parts [of ns]
  have "(?q + ?y) * (1 - eps) \<le> rnd ?q + rnd ?y"
    using scaled_down [OF p(2)] scaled_down [OF p(3)] unfolding distrib_right by linarith
  then have "(?q + ?y) * (1 - eps) * (1 - eps) \<le> (rnd ?q + rnd ?y) * (1 - eps)"
    using eps_bounds(3) by (intro mult_right_mono) simp_all
  moreover have "(rnd ?q + rnd ?y) * (1 - eps) \<le> dur_secs ns" by (rule scaled_down [OF p(4)])
  ultimately show ?thesis unfolding p(1) [symmetric] mult.assoc [symmetric] by linarith
qed

lemma dur_secs_ge: "n * 10 ^ 9 \<le> ns \<Longrightarrow> n < 2 ^ 53 \<Longrightarrow> real n \<le> dur_secs ns"
proof -
  assume n: "n * 10 ^ 9 \<le> ns" "n < 2 ^ 53"
  from n(1) have "n \<le> ns div 10 ^ 9" by (metis div_le_mono nonzero_mult_div_cancel_right power_not_zero zero_neq_numeral)
  then have "real n \<le> rnd (real (ns div 10 ^ 9))" using n(2) by (intro rnd_ge_nat) simp_all
  moreover have "0 \<le> rnd (real (ns mod 10 ^ 9) / 10 ^ 9)" by (intro rnd_nonneg) simp
  ultimately show ?thesis using n(2) unfolding dur_secs_def by (intro rnd_ge_nat) simp_all
qed

lemma f64_of_moderate:
  assumes "0 \<le> x" "x \<le> 2 ^ 100"
  shows "f64_of x = Fnum (rnd x)" "rnd x \<le> 2 * x + 1"
proof -
  have "x * eps \<le> x * 1" using assms(1) eps_bounds(3) by (intro mult_left_mono)
  then show le: "rnd x \<le> 2 * x + 1"
    using rnd_close [OF assms(1)] tiny_bounds(3) eps_bounds(3) by linarith
  have "(2 :: real) ^ 102 \<le> 2 ^ 1024" by (intro power_increasing) simp_all
  moreover have "2 * x + 1 < 2 ^ 102" using assms(2) by simp
  ultimately have "\<not> rnd x \<ge> 2 ^ 1024" using le by linarith
  then show "f64_of x = Fnum (rnd x)" using f64_of_nonneg [OF assms(1)] by (simp only: if_False)
qed

lemma as_secs_f64_eq: "ns \<le> DURATION_MAX \<Longrightarrow> as_secs_f64 ns = Fnum (dur_secs ns)"
proof -
  assume ns: "ns \<le> DURATION_MAX"
  let ?q = "real (ns div 10 ^ 9)" and ?y = "real (ns mod 10 ^ 9) / 10 ^ 9"
  have m: "ns mod 10 ^ 9 < 2 ^ 53"
    using mod_less_divisor [of "10 ^ 9" ns] by (rule less_trans) simp_all
  have "ns div 10 ^ 9 \<le> U64_MAX" using div_le_mono [OF ns, of "10 ^ 9"] by simp
  then have "?q \<le> real U64_MAX" by (rule of_nat_mono)
  then have q: "0 \<le> ?q" "?q \<le> 2 ^ 64" by simp_all
  have y: "0 \<le> ?y" "?y \<le> 1" using mod_less_divisor [of "10 ^ 9" ns] by simp_all
  have q': "f64_of ?q = Fnum (rnd ?q)" "rnd ?q \<le> 2 * ?q + 1"
    using q by (intro f64_of_moderate; simp)+
  have y': "f64_of ?y = Fnum (rnd ?y)" "rnd ?y \<le> 2 * ?y + 1"
    using y by (intro f64_of_moderate; simp)+
  have "f64_of (rnd ?q + rnd ?y) = Fnum (rnd (rnd ?q + rnd ?y))"
    using q q' y y' rnd_nonneg [OF q(1)] rnd_nonneg [OF y(1)] by (intro f64_of_moderate) simp_all
  then show ?thesis
    using q'(1) y'(1) f64_nat_exact [OF m] by (simp add: as_secs_f64_def f64_nat_def dur_secs_def)
qed

text \<open>Beyond that range too, a duration is no NaN and not negative.\<close>

lemma as_secs_f64_nonneg: "as_secs_f64 ns = PosInf \<or> (\<exists>s \<ge> 0. as_secs_f64 ns = Fnum s)"
proof -
  have m: "ns mod 10 ^ 9 < 2 ^ 53"
    using mod_less_divisor [of "10 ^ 9" ns] by (rule less_trans) simp_all
  have *: "f64_of x = PosInf \<or> (\<exists>s \<ge> 0. f64_of x = Fnum s)" if "0 \<le> x" for x
    using f64_of_nonneg [OF that] rnd_nonneg [OF that] by auto
  have "f64_div (f64_nat (ns mod 10 ^ 9)) (Fnum (10 ^ 9)) = f64_of (real (ns mod 10 ^ 9) / 10 ^ 9)"
    using f64_nat_exact [OF m] by simp
  then have eq: "as_secs_f64 ns = f64_add (f64_of (real (ns div 10 ^ 9))) (f64_of (real (ns mod 10 ^ 9) / 10 ^ 9))"
    by (simp add: as_secs_f64_def f64_nat_def)
  have "f64_of (real (ns div 10 ^ 9)) = PosInf \<or> (\<exists>s \<ge> 0. f64_of (real (ns div 10 ^ 9)) = Fnum s)"
    "f64_of (real (ns mod 10 ^ 9) / 10 ^ 9) = PosInf \<or> (\<exists>s \<ge> 0. f64_of (real (ns mod 10 ^ 9) / 10 ^ 9) = Fnum s)"
    by (rule *; simp)+
  then show ?thesis unfolding eq by (elim disjE exE conjE) (simp_all add: *)
qed

end
