(* ===== verification/Rate_Limit.thy ===== *)
theory Rate_Limit
  imports Selection F64
begin

text \<open>
  \<open>src/ratelimit.rs\<close>: the token bucket per credential. Times are nanoseconds of the monotonic
  clock, token counts and rates are the \<open>f64\<close> of theory \<open>F64\<close>, rounding included. The mutex
  makes a run of the limiter a sequence of charges and sweeps; a charge reads the clock before it
  takes the lock, so the times in the sequence need not ascend.
\<close>

definition IDLE_EVICTION :: nat where
  "IDLE_EVICTION = 600 * 10 ^ 9"

record bucket =
  bk_tokens :: f64
  bk_last_seen :: nat

record limiter =
  buckets :: "string \<Rightarrow> bucket option"
  burst :: f64
  per_second :: f64

datatype decision = Allow | Deny nat

definition limiter_new :: "nat \<Rightarrow> f64 \<Rightarrow> limiter" where
  "limiter_new b rate =
     \<lparr>buckets = (\<lambda>_. None), burst = f64_nat (max b 1),
      per_second = (if f64_less (Fnum 0) rate then rate else Fnum 1)\<rparr>"

definition limiter_from_env :: "(string \<Rightarrow> f64 option) \<Rightarrow> app_state \<Rightarrow> limiter" where
  "limiter_from_env parse_f64 st =
     limiter_new
       (case Option.bind (environ st ''ZED_RATE_LIMIT_BURST'') parse_u32 of None \<Rightarrow> 60 | Some b \<Rightarrow> b)
       (case Option.bind (environ st ''ZED_RATE_LIMIT_PER_SECOND'') parse_f64 of None \<Rightarrow> Fnum 10 | Some r \<Rightarrow> r)"

text \<open>\<open>saturating_duration_since\<close>, in seconds.\<close>

definition elapsed_secs :: "nat \<Rightarrow> nat \<Rightarrow> f64" where
  "elapsed_secs now earlier = as_secs_f64 (now - earlier)"

definition retry_secs :: "f64 \<Rightarrow> nat" where
  "retry_secs x = f64_as_u64 (f64_max (f64_ceil x) (Fnum 1))"

definition check_at :: "string \<Rightarrow> nat \<Rightarrow> limiter \<Rightarrow> decision \<times> limiter" where
  "check_at key now l =
     (let b = (case buckets l key of
                 None \<Rightarrow> \<lparr>bk_tokens = burst l, bk_last_seen = now\<rparr>
               | Some b \<Rightarrow> b);
          elapsed = elapsed_secs now (bk_last_seen b);
          tokens = f64_min (f64_add (bk_tokens b) (f64_mul elapsed (per_second l))) (burst l)
      in if f64_le (Fnum 1) tokens then
           (Allow, l\<lparr>buckets := (buckets l)
              (key \<mapsto> \<lparr>bk_tokens = f64_sub tokens (Fnum 1), bk_last_seen = now\<rparr>)\<rparr>)
         else
           (Deny (retry_secs (f64_div (f64_sub (Fnum 1) tokens) (per_second l))),
            l\<lparr>buckets := (buckets l)(key \<mapsto> \<lparr>bk_tokens = tokens, bk_last_seen = now\<rparr>)\<rparr>))"

definition sweep_at :: "nat \<Rightarrow> limiter \<Rightarrow> limiter" where
  "sweep_at now l =
     l\<lparr>buckets := (\<lambda>k. case buckets l k of
                         None \<Rightarrow> None
                       | Some b \<Rightarrow> if now - bk_last_seen b < IDLE_EVICTION then Some b else None)\<rparr>"

section \<open>The middleware\<close>

definition jstr :: "string \<Rightarrow> string" where
  "jstr s = [CHR 0x22] @ s @ [CHR 0x22]"

definition rate_limited :: "nat \<Rightarrow> response" where
  "rate_limited retry =
     \<lparr>resp_status = TOO_MANY_REQUESTS, resp_headers = [(''retry-after'', nat_str retry)],
      resp_body = ''{'' @ jstr ''error'' @ '':'' @ jstr ''rate_limited'' @ '','' @ jstr ''message'' @ '':''
        @ jstr (''too many requests for this token; retry in '' @ nat_str retry @ ''s'') @ ''}''\<rparr>"

text \<open>\<open>Inl\<close> the rejection, \<open>Inr\<close> that the request goes on to its handler.\<close>

definition rate_layer ::
    "externals \<Rightarrow> string option \<Rightarrow> nat \<Rightarrow> limiter option \<Rightarrow> (response + unit) \<times> limiter option" where
  "rate_layer E header now lm =
     (case lm of
        None \<Rightarrow> (Inr (), None)
      | Some l \<Rightarrow>
          (case bearer_token header of
             None \<Rightarrow> (Inr (), Some l)
           | Some token \<Rightarrow>
               (case check_at (hash_token E token) now l of
                  (Allow, l') \<Rightarrow> (Inr (), Some l')
                | (Deny retry, l') \<Rightarrow> (Inl (rate_limited retry), Some l'))))"

section \<open>The invariant\<close>

fun num_of :: "f64 \<Rightarrow> real" where
  "num_of (Fnum x) = x"
| "num_of _ = 0"

definition limiter_ok :: "limiter \<Rightarrow> bool" where
  "limiter_ok l \<longleftrightarrow> (\<exists>c. burst l = Fnum (real c) \<and> 1 \<le> c \<and> c < 2 ^ 53) \<and> f64_less (Fnum 0) (per_second l) \<and>
     (\<forall>k b. buckets l k = Some b \<longrightarrow> (\<exists>t. bk_tokens b = Fnum t \<and> 0 \<le> t \<and> t \<le> num_of (burst l)))"

lemma limiter_okE:
  assumes "limiter_ok l"
  obtains c where "burst l = Fnum (real c)" "1 \<le> c" "c < 2 ^ 53" "f64_less (Fnum 0) (per_second l)"
    "\<And>k b. buckets l k = Some b \<Longrightarrow> \<exists>t. bk_tokens b = Fnum t \<and> 0 \<le> t \<and> t \<le> real c"
proof -
  from assms obtain c where c: "burst l = Fnum (real c)" "1 \<le> c" "c < 2 ^ 53"
    unfolding limiter_ok_def by blast
  show thesis using assms c(1) unfolding limiter_ok_def by (intro that [OF c]) auto
qed

text \<open>The tokens of a bucket after the refill, which is what a caller could spend.\<close>

definition refilled :: "limiter \<Rightarrow> string \<Rightarrow> nat \<Rightarrow> f64" where
  "refilled l key now =
     (let b = (case buckets l key of None \<Rightarrow> \<lparr>bk_tokens = burst l, bk_last_seen = now\<rparr> | Some b \<Rightarrow> b)
      in f64_min (f64_add (bk_tokens b) (f64_mul (elapsed_secs now (bk_last_seen b)) (per_second l))) (burst l))"

definition avail :: "limiter \<Rightarrow> string \<Rightarrow> nat \<Rightarrow> real" where
  "avail l key now = num_of (refilled l key now)"

lemma f64_less_0: "f64_less (Fnum 0) r \<longleftrightarrow> r = PosInf \<or> (\<exists>x > 0. r = Fnum x)"
  by (cases r) (auto simp: f64_less_def)

text \<open>Whatever the elapsed time and the rate, the product is a rounded number, infinite or NaN.\<close>

lemma refill_product:
  assumes "f64_less (Fnum 0) r"
  shows "f64_mul (as_secs_f64 d) r \<in> {PosInf, NaN} \<union> f64_of ` {0..}"
proof -
  from as_secs_f64_nonneg [of d] show ?thesis
  proof (elim disjE exE conjE)
    assume "as_secs_f64 d = PosInf"
    with assms show ?thesis by (auto simp: f64_less_0 inf_times_def)
  next
    fix s assume s: "0 \<le> s" "as_secs_f64 d = Fnum s"
    from assms show ?thesis
      unfolding f64_less_0 using s by (cases "s = 0") (auto simp: inf_times_def)
  qed
qed

lemma capped_any:
  assumes "p \<in> {PosInf, NaN} \<union> f64_of ` {0..}" "0 \<le> t" "c < 2 ^ 53"
  shows "\<exists>a. f64_min (f64_add (Fnum t) p) (Fnum (real c)) = Fnum a \<and> 0 \<le> a \<and> a \<le> real c"
  using assms(1)
proof (elim UnE)
  assume "p \<in> {PosInf, NaN}"
  then show ?thesis by (auto simp: f64_min_def)
next
  assume "p \<in> f64_of ` {0..}"
  then obtain x where "p = f64_of x" "0 \<le> x" by auto
  then show ?thesis using capped_sum [OF assms(2) _ assms(3), of x] assms(2) rnd_nonneg by simp
qed

lemma refilled_num:
  assumes "limiter_ok l"
  shows "refilled l key now = Fnum (avail l key now)" "0 \<le> avail l key now" "avail l key now \<le> num_of (burst l)"
proof -
  obtain c where c: "burst l = Fnum (real c)" "1 \<le> c" "c < 2 ^ 53" "f64_less (Fnum 0) (per_second l)"
    and tok: "\<And>k b. buckets l k = Some b \<Longrightarrow> \<exists>t. bk_tokens b = Fnum t \<and> 0 \<le> t \<and> t \<le> real c"
    using limiter_okE [OF assms] by blast
  have "\<exists>a. refilled l key now = Fnum a \<and> 0 \<le> a \<and> a \<le> real c"
  proof (cases "buckets l key")
    case None
    then show ?thesis
      using capped_any [OF refill_product [OF c(4), of "now - now"] _ c(3), of "real c"] c(1)
      by (simp add: refilled_def elapsed_secs_def)
  next
    case (Some b)
    from tok [OF Some] obtain t where "bk_tokens b = Fnum t" "0 \<le> t" by blast
    with Some show ?thesis
      using capped_any [OF refill_product [OF c(4), of "now - bk_last_seen b"] _ c(3), of t] c(1)
      by (simp add: refilled_def elapsed_secs_def)
  qed
  then show "refilled l key now = Fnum (avail l key now)" "0 \<le> avail l key now"
    "avail l key now \<le> num_of (burst l)"
    using c(1) by (auto simp: avail_def)
qed

lemmas avail_bounds = refilled_num(2,3)

text \<open>With a finite rate, what the bucket of a known caller holds.\<close>

lemma avail_eq:
  assumes ok: "limiter_ok l" and r: "per_second l = Fnum r" and b: "buckets l key = Some b"
    and d: "now - bk_last_seen b \<le> DURATION_MAX"
  shows "avail l key now = min (rnd (num_of (bk_tokens b) + rnd (dur_secs (now - bk_last_seen b) * r))) (num_of (burst l))"
proof -
  obtain c where c: "burst l = Fnum (real c)" "c < 2 ^ 53" "f64_less (Fnum 0) (per_second l)"
    and tok: "\<exists>t. bk_tokens b = Fnum t \<and> 0 \<le> t \<and> t \<le> real c"
    using limiter_okE [OF ok] b by metis
  from tok obtain t where t: "bk_tokens b = Fnum t" "0 \<le> t" by blast
  have "0 < r" using c(3) r by (simp add: f64_less_0)
  then have "0 \<le> dur_secs (now - bk_last_seen b) * r" by simp
  from capped_sum [OF t(2) this c(2)] show ?thesis
    using b r t c(1) as_secs_f64_eq [OF d] by (simp add: avail_def refilled_def elapsed_secs_def)
qed

lemma avail_new:
  assumes ok: "limiter_ok l" and b: "buckets l key = None"
  shows "avail l key now = num_of (burst l)"
proof -
  obtain c where c: "burst l = Fnum (real c)" "1 \<le> c" "c < 2 ^ 53" "f64_less (Fnum 0) (per_second l)"
    using limiter_okE [OF ok] by metis
  have z: "as_secs_f64 0 = Fnum 0" using as_secs_f64_eq [of 0] by simp
  show ?thesis
  proof (cases "per_second l = PosInf")
    case True
    then show ?thesis using b c(1) z by (simp add: avail_def refilled_def elapsed_secs_def inf_times_def f64_min_def)
  next
    case False
    then obtain r where "per_second l = Fnum r" using c(4) by (auto simp: f64_less_0)
    then show ?thesis using b c(1) z capped_sum [of "real c" 0 c] c(3) rnd_nat [OF c(3)]
      by (simp add: avail_def refilled_def elapsed_secs_def)
  qed
qed

text \<open>A charge, over the reals.\<close>

lemma f64_minus_1:
  assumes "1 \<le> a" "a \<le> real c" "c < 2 ^ 53"
  shows "f64_sub (Fnum a) (Fnum 1) = Fnum (rnd (a - 1))" "0 \<le> rnd (a - 1)" "rnd (a - 1) \<le> real c"
proof -
  have "0 \<le> a - 1" "a - 1 \<le> real c" using assms by linarith+
  from f64_of_finite [OF this assms(3)] rnd_nonneg [OF this(1)] rnd_le_nat [OF this assms(3)]
  show "f64_sub (Fnum a) (Fnum 1) = Fnum (rnd (a - 1))" "0 \<le> rnd (a - 1)" "rnd (a - 1) \<le> real c"
    by (simp_all add: f64_sub_def)
qed

lemma check_at_eq:
  assumes "limiter_ok l"
  shows "check_at key now l =
     (if 1 \<le> avail l key now then
        (Allow, l\<lparr>buckets := (buckets l)(key \<mapsto> \<lparr>bk_tokens = Fnum (rnd (avail l key now - 1)), bk_last_seen = now\<rparr>)\<rparr>)
      else
        (Deny (retry_secs (f64_div (f64_of (1 - avail l key now)) (per_second l))),
         l\<lparr>buckets := (buckets l)(key \<mapsto> \<lparr>bk_tokens = Fnum (avail l key now), bk_last_seen = now\<rparr>)\<rparr>))"
proof -
  let ?a = "avail l key now"
  obtain c where c: "burst l = Fnum (real c)" "c < 2 ^ 53" using limiter_okE [OF assms] by metis
  have "check_at key now l =
     (if f64_le (Fnum 1) (refilled l key now) then
        (Allow, l\<lparr>buckets := (buckets l)
           (key \<mapsto> \<lparr>bk_tokens = f64_sub (refilled l key now) (Fnum 1), bk_last_seen = now\<rparr>)\<rparr>)
      else
        (Deny (retry_secs (f64_div (f64_sub (Fnum 1) (refilled l key now)) (per_second l))),
         l\<lparr>buckets := (buckets l)(key \<mapsto> \<lparr>bk_tokens = refilled l key now, bk_last_seen = now\<rparr>)\<rparr>))"
    by (simp add: check_at_def refilled_def Let_def)
  also note refilled_num(1) [OF assms, of key now]
  finally show ?thesis
    using f64_minus_1(1) [of ?a c] refilled_num(3) [OF assms, of key now] c by (simp add: f64_sub_def)
qed

lemma limiter_new_ok: "b < 2 ^ 32 \<Longrightarrow> limiter_ok (limiter_new b r)"
proof -
  assume "b < 2 ^ 32"
  then have "max b 1 < 2 ^ 32" by simp
  then have "max b 1 < 2 ^ 53" by (rule less_trans) simp
  then show ?thesis
    using f64_nat_exact [of "max b 1"]
    by (auto simp: limiter_ok_def limiter_new_def f64_less_0 intro!: exI [of _ "max b 1"])
qed

lemma check_at_ok:
  assumes ok: "limiter_ok l" and run: "check_at key now l = (dec, l')"
  shows "limiter_ok l'" "burst l' = burst l" "per_second l' = per_second l"
proof -
  show same: "burst l' = burst l" "per_second l' = per_second l"
    using run by (auto simp: check_at_eq [OF ok] split: if_splits)
  let ?a = "avail l key now"
  obtain c where c: "burst l = Fnum (real c)" "c < 2 ^ 53" using limiter_okE [OF ok] by metis
  obtain t where "0 \<le> t" "t \<le> num_of (burst l)" "buckets l' = (buckets l)(key \<mapsto> \<lparr>bk_tokens = Fnum t, bk_last_seen = now\<rparr>)"
    using run refilled_num(2,3) [OF ok, of key now] f64_minus_1(2,3) [of ?a c] c
    by (auto simp: check_at_eq [OF ok] split: if_splits)
  with ok same show "limiter_ok l'" unfolding limiter_ok_def by auto
qed

lemma sweep_ok: "limiter_ok l \<Longrightarrow> limiter_ok (sweep_at now l)"
  by (auto simp: limiter_ok_def sweep_at_def split: option.splits if_splits)

lemma check_at_others: "check_at key now l = (dec, l') \<Longrightarrow> k \<noteq> key \<Longrightarrow> buckets l' k = buckets l k"
  by (auto simp: check_at_def Let_def split: if_splits)

section \<open>Any sequence of charges and sweeps\<close>

text \<open>A call of \<open>check\<close> with the clock it has read, and a tick of the sweeper.\<close>

datatype event = Charge string nat | Sweep nat

fun event_time :: "event \<Rightarrow> nat" where
  "event_time (Charge _ t) = t"
| "event_time (Sweep t) = t"

text \<open>The number of charges of \<open>key\<close> that were allowed, and the limiter afterwards.\<close>

fun run_events :: "string \<Rightarrow> event list \<Rightarrow> limiter \<Rightarrow> nat \<times> limiter" where
  "run_events key [] l = (0, l)"
| "run_events key (Charge k t # es) l =
     (case check_at k t l of
        (dec, l') \<Rightarrow>
          (case run_events key es l' of
             (n, l'') \<Rightarrow> (if k = key \<and> dec = Allow then Suc n else n, l'')))"
| "run_events key (Sweep t # es) l = run_events key es (sweep_at t l)"

text \<open>How far the clock readings move forward, from one event to the next; and the charges of a key.\<close>

fun forward :: "nat \<Rightarrow> nat list \<Rightarrow> nat" where
  "forward t [] = 0"
| "forward t (u # us) = (u - t) + forward u us"

definition charges :: "string \<Rightarrow> event list \<Rightarrow> nat" where
  "charges key es = length (filter (\<lambda>e. \<exists>t. e = Charge key t) es)"

lemma charges_simps [simp]:
  "charges key [] = 0"
  "charges key (Charge k t # es) = (if k = key then Suc (charges key es) else charges key es)"
  "charges key (Sweep t # es) = charges key es"
  by (simp_all add: charges_def)

lemma forward_sorted: "sorted (t # ts) \<Longrightarrow> forward t ts = last (t # ts) - t"
proof (induction ts arbitrary: t)
  case (Cons u us)
  then have "forward u us = last (u # us) - u" "t \<le> u" "\<forall>x\<in>set (u # us). u \<le> x" by auto
  moreover have "last (u # us) \<in> set (u # us)" by (rule last_in_set) simp
  ultimately have "u \<le> last (u # us)" by blast
  with \<open>forward u us = _\<close> \<open>t \<le> u\<close> show ?case by simp
qed simp

text \<open>
  The potential: what the bucket would hold with exact arithmetic and a rate that makes up for
  the rounding of three operations.
\<close>

definition slack :: real where
  "slack = 4 * eps"

definition potential :: "real \<Rightarrow> limiter \<Rightarrow> string \<Rightarrow> nat \<Rightarrow> real" where
  "potential r l key t =
     (case buckets l key of
        None \<Rightarrow> num_of (burst l)
      | Some b \<Rightarrow> min (num_of (bk_tokens b) + real (t - bk_last_seen b) / 10 ^ 9 * (r * (1 + slack))) (num_of (burst l)))"

lemma potential_le: "potential r l key t \<le> num_of (burst l)"
  by (simp add: potential_def split: option.split)

lemma potential_cong:
  "buckets l' k = buckets l k \<Longrightarrow> burst l' = burst l \<Longrightarrow> potential r l' k t = potential r l k t"
  by (simp add: potential_def split: option.split)

lemma potential_nonneg:
  assumes "limiter_ok l" "0 < r"
  shows "0 \<le> potential r l key t"
proof -
  have "0 \<le> r * (1 + slack)" using assms(2) eps_bounds(1) by (simp add: slack_def)
  then have e: "0 \<le> real d / 10 ^ 9 * (r * (1 + slack))" for d by simp
  obtain c where c: "burst l = Fnum (real c)" using limiter_okE [OF assms(1)] by metis
  show ?thesis
  proof (cases "buckets l key")
    case None
    then show ?thesis by (simp add: potential_def c)
  next
    case (Some b)
    then obtain t0 where "bk_tokens b = Fnum t0" "0 \<le> t0" using assms(1) unfolding limiter_ok_def by blast
    with Some e show ?thesis by (simp add: potential_def c)
  qed
qed

text \<open>It grows with the forward movement of the clock only.\<close>

lemma potential_refill:
  assumes "0 < r"
  shows "potential r l key t' \<le> potential r l key t + real (t' - t) / 10 ^ 9 * (r * (1 + slack))"
proof -
  let ?R = "r * (1 + slack)"
  have R: "0 \<le> ?R" using assms eps_bounds(1) by (simp add: slack_def)
  have mono: "real d / 10 ^ 9 * ?R \<le> (real d1 + real d2) / 10 ^ 9 * ?R" if "d \<le> d1 + d2" for d d1 d2 :: nat
  proof -
    have "real d \<le> real d1 + real d2" using that by linarith
    then show ?thesis using R by (intro mult_right_mono divide_right_mono) simp_all
  qed
  have z: "0 \<le> real (t' - t) / 10 ^ 9 * ?R" using R by simp
  show ?thesis
  proof (cases "buckets l key")
    case None
    with z show ?thesis by (simp add: potential_def)
  next
    case (Some b)
    have "t' - bk_last_seen b \<le> (t - bk_last_seen b) + (t' - t)" by linarith
    from mono [OF this] have "real (t' - bk_last_seen b) / 10 ^ 9 * ?R \<le>
      real (t - bk_last_seen b) / 10 ^ 9 * ?R + real (t' - t) / 10 ^ 9 * ?R"
      by (simp only: add_divide_distrib distrib_right)
    with z show ?thesis unfolding potential_def Some option.case by linarith
  qed
qed

text \<open>A sweep is invisible when an idle bucket has refilled by the time it is dropped.\<close>

lemma potential_sweep:
  assumes ok: "limiter_ok l" and r: "0 < r" and slow: "num_of (burst l) \<le> 600 * r"
  shows "potential r (sweep_at t l) key t = potential r l key t"
proof (cases "buckets l key")
  case None
  then show ?thesis by (simp add: potential_def sweep_at_def)
next
  case (Some b)
  show ?thesis
  proof (cases "t - bk_last_seen b < IDLE_EVICTION")
    case True
    with Some show ?thesis by (simp add: potential_def sweep_at_def)
  next
    case False
    let ?R = "r * (1 + slack)"
    have "r * 1 \<le> ?R" using r eps_bounds(1) by (intro mult_left_mono) (simp_all add: slack_def)
    moreover have "real IDLE_EVICTION \<le> real (t - bk_last_seen b)" using False by (intro of_nat_mono) simp
    then have "600 \<le> real (t - bk_last_seen b) / 10 ^ 9" by (simp add: IDLE_EVICTION_def)
    ultimately have "600 * r \<le> real (t - bk_last_seen b) / 10 ^ 9 * ?R"
      using r by (intro mult_mono) simp_all
    moreover have "0 \<le> num_of (bk_tokens b)" using ok Some unfolding limiter_ok_def by force
    ultimately have "num_of (burst l) \<le> num_of (bk_tokens b) + real (t - bk_last_seen b) / 10 ^ 9 * ?R"
      using slow by linarith
    with Some False show ?thesis by (simp add: potential_def sweep_at_def)
  qed
qed

lemma min_shift: "a \<le> b + k \<Longrightarrow> 0 \<le> k \<Longrightarrow> min a c \<le> min b c + k" for a b c k :: real
  by (simp add: min_def)

text \<open>Rounding adds to a bucket a fraction of its burst at most.\<close>

lemma refill_rounding:
  assumes r: "0 < r" and t: "0 \<le> t" and c: "1 \<le> c"
  shows "min (rnd (t + rnd (dur_secs d * r))) c \<le>
    min (t + real d / 10 ^ 9 * (r * (1 + slack))) c + c * (2 * eps)"
proof -
  let ?D = "real d / 10 ^ 9" and ?x = "dur_secs d * r"
  have x: "0 \<le> ?x" using r by simp
  have "?x \<le> ?D * ((1 + eps) * (1 + eps)) * r" using dur_secs_le [of d] r by (intro mult_right_mono) simp_all
  then have "?x * (1 + eps) \<le> ?D * ((1 + eps) * (1 + eps)) * r * (1 + eps)"
    by (rule mult_right_mono) (use eps_bounds(1) in simp)
  also have "\<dots> = ?D * (r * ((1 + eps) * (1 + eps) * (1 + eps)))" by (simp add: mult_ac)
  also have "\<dots> \<le> ?D * (r * (1 + slack))"
    using r by (intro mult_left_mono) (simp_all add: slack_def eps_def)
  finally have p: "rnd ?x \<le> ?D * (r * (1 + slack)) + tiny"
    using rnd_close [OF x] by (simp add: distrib_left)
  have ce: "eps \<le> c * eps" using c eps_bounds(1) by simp
  have two: "c * (2 * eps) = c * eps + c * eps" by simp
  have "2 * tiny \<le> eps" using tiny_bounds(2) eps_bounds(1) by simp
  with ce have ts: "2 * tiny \<le> c * eps" by linarith
  show ?thesis
  proof (cases "t + rnd ?x \<le> c")
    case True
    have s: "0 \<le> t + rnd ?x" using t rnd_nonneg [OF x] by simp
    have "(t + rnd ?x) * eps \<le> c * eps" using True eps_bounds(1) by (intro mult_right_mono) simp_all
    then have "rnd (t + rnd ?x) \<le> t + rnd ?x + c * eps + tiny"
      using rnd_close [OF s] by linarith
    with p ts two have "rnd (t + rnd ?x) \<le> t + ?D * (r * (1 + slack)) + c * (2 * eps)" by linarith
    moreover have "0 \<le> c * (2 * eps)" using ts tiny_bounds(1) two by linarith
    ultimately show ?thesis by (rule min_shift)
  next
    case False
    with p ts tiny_bounds(1) ce eps_bounds(1) two show ?thesis by linarith
  qed
qed

lemma avail_potential:
  assumes ok: "limiter_ok l" and r: "per_second l = Fnum r" and now: "now \<le> DURATION_MAX"
  shows "avail l key now \<le> potential r l key now + num_of (burst l) * (2 * eps)"
proof -
  obtain c where c: "burst l = Fnum (real c)" "1 \<le> c" "f64_less (Fnum 0) (per_second l)"
    using limiter_okE [OF ok] by metis
  have rp: "0 < r" using c(3) r by (simp add: f64_less_0)
  show ?thesis
  proof (cases "buckets l key")
    case None
    have "0 \<le> num_of (burst l) * (2 * eps)" using c(1) eps_bounds(1) by simp
    with avail_new [OF ok None] None show ?thesis by (simp add: potential_def)
  next
    case (Some b)
    then obtain t where t: "bk_tokens b = Fnum t" "0 \<le> t" using ok unfolding limiter_ok_def by blast
    have "now - bk_last_seen b \<le> DURATION_MAX" using now by linarith
    from avail_eq [OF ok r Some this] refill_rounding [OF rp t(2), of "real c" "now - bk_last_seen b"]
    show ?thesis using Some t(1) c(1,2) by (simp add: potential_def)
  qed
qed

lemma charge_potential:
  assumes ok: "limiter_ok l" and r: "per_second l = Fnum r" and now: "now \<le> DURATION_MAX"
    and run: "check_at key now l = (dec, l')"
  shows "potential r l' key now \<le>
    potential r l key now - (if dec = Allow then 1 else 0) + num_of (burst l) * slack"
proof -
  let ?a = "avail l key now"
  obtain c where c: "burst l = Fnum (real c)" "1 \<le> c" "c < 2 ^ 53" using limiter_okE [OF ok] by metis
  have a: "?a \<le> potential r l key now + real c * (2 * eps)"
    using avail_potential [OF ok r now, of key] c(1) by simp
  have "2 * tiny \<le> eps" using tiny_bounds(2) eps_bounds(1) by simp
  moreover have "eps \<le> real c * eps" using c(2) eps_bounds(1) by simp
  ultimately have small: "tiny \<le> real c * eps" using tiny_bounds(1) by linarith
  have sl: "real c * slack = real c * eps + real c * eps + real c * (2 * eps)"
    by (simp add: slack_def)
  show ?thesis
  proof (cases "1 \<le> ?a")
    case True
    with run have l': "dec = Allow"
      "l' = l\<lparr>buckets := (buckets l)(key \<mapsto> \<lparr>bk_tokens = Fnum (rnd (?a - 1)), bk_last_seen = now\<rparr>)\<rparr>"
      by (simp_all add: check_at_eq [OF ok])
    have "?a - 1 \<le> real c" using refilled_num(3) [OF ok, of key now] c(1) by simp
    then have "(?a - 1) * eps \<le> real c * eps" using eps_bounds(1) by (intro mult_right_mono) simp_all
    then have "rnd (?a - 1) \<le> ?a - 1 + real c * eps + tiny" using rnd_close [of "?a - 1"] True by linarith
    moreover have "potential r l' key now \<le> rnd (?a - 1)" using l' by (simp add: potential_def)
    ultimately show ?thesis unfolding c(1) num_of.simps l'(1) unfolding sl if_P [OF refl] using a small by linarith
  next
    case False
    with run have l': "dec \<noteq> Allow"
      "l' = l\<lparr>buckets := (buckets l)(key \<mapsto> \<lparr>bk_tokens = Fnum ?a, bk_last_seen = now\<rparr>)\<rparr>"
      by (auto simp: check_at_eq [OF ok])
    have "potential r l' key now \<le> ?a" using l' by (simp add: potential_def)
    moreover have "0 \<le> real c * eps" using eps_bounds(1) by simp
    ultimately show ?thesis unfolding c(1) num_of.simps sl if_not_P [OF l'(1)] using a by linarith
  qed
qed

lemma run_events_bound:
  assumes "limiter_ok l" "per_second l = Fnum r" "num_of (burst l) \<le> 600 * r"
    and "\<forall>e\<in>set es. event_time e \<le> DURATION_MAX"
    and "run_events key es l = (n, l')"
  shows "real n \<le> potential r l key t0
    + real (forward t0 (map event_time es)) / 10 ^ 9 * (r * (1 + slack))
    + real (charges key es) * (num_of (burst l) * slack)"
  using assms
proof (induction es arbitrary: l t0 n)
  case Nil
  have "0 < r" using Nil.prems(1,2) by (simp add: limiter_ok_def f64_less_0)
  with potential_nonneg [OF Nil.prems(1)] Nil.prems(5) show ?case by simp
next
  case (Cons e es)
  let ?t = "event_time e" and ?R = "r * (1 + slack)" and ?S = "num_of (burst l) * slack"
  have r: "0 < r" using Cons.prems(1,2) by (simp add: limiter_ok_def f64_less_0)
  have b: "0 \<le> ?S" using Cons.prems(1) eps_bounds(1) by (auto simp: limiter_ok_def slack_def)
  have step: "potential r l key ?t + real (forward ?t (map event_time es)) / 10 ^ 9 * ?R
      \<le> potential r l key t0 + real (forward t0 (map event_time (e # es))) / 10 ^ 9 * ?R"
    using potential_refill [OF r, of l key ?t t0] by (simp add: add_divide_distrib distrib_right)
  show ?case
  proof (cases e)
    case (Sweep s)
    then have run: "run_events key es (sweep_at s l) = (n, l')" using Cons.prems(5) by simp
    have same: "burst (sweep_at s l) = burst l" "per_second (sweep_at s l) = per_second l"
      by (simp_all add: sweep_at_def)
    note IH = Cons.IH [OF sweep_ok [OF Cons.prems(1)] _ _ _ run, of ?t]
    have "potential r (sweep_at s l) key ?t = potential r l key ?t"
      using Sweep potential_sweep [OF Cons.prems(1) r Cons.prems(3), of s key] by simp
    with IH step Cons.prems(2-4) same Sweep show ?thesis by simp
  next
    case (Charge k s)
    obtain dec l1 where c: "check_at k s l = (dec, l1)" by (metis prod.collapse)
    obtain m where m: "run_events key es l1 = (m, l')" "n = (if k = key \<and> dec = Allow then Suc m else m)"
      using Cons.prems(5) Charge c by (auto split: prod.splits)
    note ok1 = check_at_ok [OF Cons.prems(1) c]
    have s: "s \<le> DURATION_MAX" "?t = s" using Cons.prems(4) Charge by simp_all
    have IH: "real m \<le> potential r l1 key s + real (forward s (map event_time es)) / 10 ^ 9 * ?R
        + real (charges key es) * ?S"
      using Cons.IH [OF ok1(1) _ _ _ m(1), of s] Cons.prems(2-4) ok1(2,3) by simp
    show ?thesis
    proof (cases "k = key")
      case True
      have "real (charges key (e # es)) * ?S = real (charges key es) * ?S + ?S"
        using Charge True by (simp add: distrib_right)
      moreover have "potential r l1 key s \<le> potential r l key s - (if dec = Allow then 1 else 0) + ?S"
        using charge_potential [OF Cons.prems(1,2) s(1) c] True by simp
      moreover have "real n = real m + (if dec = Allow then 1 else 0)" using m(2) True by simp
      ultimately show ?thesis using IH step [unfolded s(2)] by linarith
    next
      case False
      have "potential r l1 key s = potential r l key s"
        using False check_at_others [OF c] ok1(2) by (intro potential_cong) auto
      moreover have "real n = real m" "real (charges key (e # es)) * ?S = real (charges key es) * ?S"
        using m(2) False Charge by simp_all
      ultimately show ?thesis using IH step [unfolded s(2)] by linarith
    qed
  qed
qed

text \<open>
  C29: No credential is admitted more often than its burst plus the refill of the time the clock
  moved forward, up to a relative rounding error of \<open>2 ^ -51\<close> in the rate and in the burst for
  each charge, however its requests, those of others and the sweeps interleave, when the burst
  refills within the eviction time.
\<close>

theorem rate_bound:
  assumes "limiter_ok l" "burst l = Fnum b" "per_second l = Fnum r" "b \<le> 600 * r"
    and "\<forall>e\<in>set es. event_time e \<le> DURATION_MAX"
    and "run_events key es l = (n, l')"
  shows "real n \<le> b + real (forward t0 (map event_time es)) / 10 ^ 9 * r * (1 + 1 / 2 ^ 51)
    + real (charges key es) * b / 2 ^ 51"
proof -
  have "num_of (burst l) \<le> 600 * r" using assms(2,4) by simp
  from run_events_bound [OF assms(1,3) this assms(5,6), of t0] potential_le [of r l key t0]
  show ?thesis using assms(2) by (simp add: slack_def eps_def mult.assoc)
qed

section \<open>Retry-After\<close>

lemma retry_secs_bounds: "1 \<le> retry_secs (Fnum x)" "retry_secs (Fnum x) < U64_MAX \<Longrightarrow> x \<le> real (retry_secs (Fnum x))"
proof -
  have "f64_max (Fnum a) (Fnum 1) = Fnum (max a 1)" for a by (auto simp: f64_max_def max_def)
  then have max: "f64_max (f64_ceil (Fnum x)) (Fnum 1) = Fnum (of_int (max \<lceil>x\<rceil> 1))"
    unfolding f64_ceil.simps of_int_max of_int_1 by this
  have eq: "retry_secs (Fnum x) = min U64_MAX (nat (max \<lceil>x\<rceil> 1))"
    unfolding retry_secs_def max f64_as_u64.simps floor_of_int ..
  have one: "1 \<le> nat (max \<lceil>x\<rceil> 1)" by linarith
  then show "1 \<le> retry_secs (Fnum x)" unfolding eq by simp
  assume "retry_secs (Fnum x) < U64_MAX"
  then have "retry_secs (Fnum x) = nat (max \<lceil>x\<rceil> 1)" unfolding eq by linarith
  then show "x \<le> real (retry_secs (Fnum x))" by linarith
qed

text \<open>What a refused caller lacks, bounded by what the answer asks it to wait.\<close>

lemma deficit_bound:
  assumes a: "0 \<le> a" "a < 1" and R: "1 / 2 ^ 40 \<le> R"
    and r: "retry_secs (f64_div (f64_of (1 - a)) (Fnum R)) = r" "r \<le> 10 ^ 6"
  shows "(1 - a) * ((1 - eps) * (1 - eps)) \<le> (real r + tiny) * R + tiny"
proof -
  let ?d = "1 - a"
  have R0: "0 < R" using R by (rule less_le_trans [rotated]) simp
  have d: "0 \<le> ?d" "?d \<le> real (1 :: nat)" using a by simp_all
  have f: "f64_of ?d = Fnum (rnd ?d)" by (rule f64_of_finite [OF d]) simp
  have e: "0 \<le> rnd ?d" "rnd ?d \<le> 1" using rnd_nonneg [OF d(1)] rnd_le_nat [OF d] by simp_all
  let ?x = "rnd ?d / R"
  have x: "0 \<le> ?x" using e R0 by simp
  have "1 \<le> 2 ^ 40 * R" using R by simp
  also have "\<dots> \<le> 2 ^ 100 * R" using R0 by (intro mult_right_mono power_increasing) simp_all
  finally have "1 \<le> 2 ^ 100 * R" .
  then have "rnd ?d \<le> 2 ^ 100 * R" using e(2) by linarith
  then have "?x \<le> 2 ^ 100" using R0 by (simp add: pos_divide_le_eq)
  from f64_of_moderate(1) [OF x this] have q: "f64_div (f64_of ?d) (Fnum R) = Fnum (rnd ?x)"
    using f R0 by simp
  have "r < U64_MAX" using r(2) by simp
  then have "rnd ?x \<le> real r" using retry_secs_bounds(2) [of "rnd ?x"] r(1) q by simp
  then have "?x * (1 - eps) \<le> real r + tiny" using rnd_close [OF x] by (simp add: right_diff_distrib)
  then have "?x * (1 - eps) * R \<le> (real r + tiny) * R" using R0 by (intro mult_right_mono) simp_all
  moreover have "?x * (1 - eps) * R = rnd ?d * (1 - eps)" using R0 by simp
  ultimately have 1: "rnd ?d * (1 - eps) \<le> (real r + tiny) * R" by simp
  have "?d * (1 - eps) - tiny \<le> rnd ?d" using rnd_close [OF d(1)] by (simp add: right_diff_distrib)
  then have "(?d * (1 - eps) - tiny) * (1 - eps) \<le> rnd ?d * (1 - eps)"
    using eps_bounds(3) by (intro mult_right_mono) simp_all
  moreover have "(?d * (1 - eps) - tiny) * (1 - eps) = ?d * ((1 - eps) * (1 - eps)) - tiny * (1 - eps)"
    by (simp add: left_diff_distrib mult.assoc)
  moreover have "tiny * (1 - eps) \<le> tiny" using tiny_bounds(1) eps_bounds(1) by simp
  ultimately show ?thesis using 1 by linarith
qed

lemma regroup: "(D * (e * e) * R * e - y) * (e * e) = D * (e * e * e * e * e) * R - y * (e * e)" for D :: real
  by (simp add: algebra_simps)

lemma gain_arith:
  fixes X :: real
  assumes "r * R + 300 * u \<le> X" "y * R \<le> u" "z \<le> y" "y \<le> u" "0 < u"
  shows "(r + y) * R + y \<le> X - z"
  using assms unfolding distrib_right by linarith

lemma wait_suffices:
  assumes R: "1 / 2 ^ 40 \<le> R" and r: "r \<le> 10 ^ 6" and d: "r * 10 ^ 9 + 1 \<le> d"
    and need: "x * ((1 - eps) * (1 - eps)) \<le> (real r + tiny) * R + tiny"
  shows "x \<le> rnd (dur_secs d * R)"
proof -
  let ?e = "1 - eps" and ?D = "real r + 1 / 10 ^ 9"
  have R0: "0 < R" using R by (rule less_le_trans [rotated]) simp
  have e: "0 < ?e" "?e \<le> 1" by (simp_all add: eps_def)
  have "real (r * 10 ^ 9 + 1) \<le> real d" using d by (rule of_nat_mono)
  then have "?D \<le> real d / 10 ^ 9" by simp
  then have "?D * (?e * ?e) \<le> dur_secs d"
    using dur_secs_lower [of d] e by (meson mult_right_mono order_trans less_imp_le mult_pos_pos)
  then have "?D * (?e * ?e) * R * ?e \<le> dur_secs d * R * ?e"
    using R0 e by (intro mult_right_mono) simp_all
  moreover have s: "0 \<le> dur_secs d * R" using R0 by simp
  then have "dur_secs d * R * ?e - tiny \<le> rnd (dur_secs d * R)"
    using rnd_close [OF s] by (simp add: right_diff_distrib)
  ultimately have got: "?D * (?e * ?e) * R * ?e - tiny \<le> rnd (dur_secs d * R)" by linarith
  have gain: "(real r + tiny) * R + tiny \<le> (?D * (?e * ?e) * R * ?e - tiny) * (?e * ?e)"
  proof -
    have small: "tiny \<le> R / 10 ^ 12"
    proof -
      have "tiny \<le> eps / 2 ^ 40" by (rule tiny_bounds(2))
      also have "\<dots> \<le> 1 / 2 ^ 40 / 10 ^ 12" by (simp add: eps_def)
      also have "\<dots> \<le> R / 10 ^ 12" using R by (intro divide_right_mono) simp_all
      finally show ?thesis .
    qed
    have p5: "1 - 5 * eps \<le> ?e * ?e * ?e * ?e * ?e" by (simp add: eps_def)
    have "real r \<le> real (10 ^ 6)" using r by (rule of_nat_mono)
    then have rr: "real r \<le> 10 ^ 6" by simp
    then have "5 * eps * ?D \<le> 6 / 10 ^ 10" by (simp add: eps_def)
    moreover have "?D * (1 - 5 * eps) = ?D - 5 * eps * ?D" by (simp add: right_diff_distrib)
    ultimately have "real r + 3 / 10 ^ 10 \<le> ?D * (1 - 5 * eps)" by simp
    also have "\<dots> \<le> ?D * (?e * ?e * ?e * ?e * ?e)" using p5 by (intro mult_left_mono) simp_all
    finally have "(real r + 3 / 10 ^ 10) * R \<le> ?D * (?e * ?e * ?e * ?e * ?e) * R"
      using R0 by (intro mult_right_mono) simp_all
    moreover have "tiny * R \<le> 1 / 10 ^ 12 * R"
      using tiny_bounds R0 by (intro mult_right_mono) (simp_all add: eps_def)
    then have "tiny * R \<le> R / 10 ^ 12" by simp
    moreover have "tiny * (?e * ?e) \<le> tiny * 1"
      using e tiny_bounds(1) by (intro mult_left_mono mult_le_one) simp_all
    ultimately show ?thesis
      unfolding regroup mult_1_right using small R0
      by (intro gain_arith [of _ _ "R / 10 ^ 12"]) (simp_all add: distrib_right)
  qed
  have "x * (?e * ?e) \<le> (?D * (?e * ?e) * R * ?e - tiny) * (?e * ?e)" using need gain by linarith
  then have "x \<le> ?D * (?e * ?e) * R * ?e - tiny" using e by (simp add: mult_le_cancel_right)
  with got show ?thesis by linarith
qed


section \<open>Where the sweep is not invisible\<close>

text \<open>
  With a burst of 60 and one request in 128 seconds, an idle bucket is dropped after ten minutes
  with fewer than six tokens refilled, and comes back with sixty.
\<close>

lemma sweep_resets:
  assumes ok: "limiter_ok l" and b: "buckets l key = Some \<lparr>bk_tokens = Fnum 0, bk_last_seen = 0\<rparr>"
    and c: "burst l = Fnum 60" "per_second l = Fnum (1 / 128)"
  shows "avail l key IDLE_EVICTION \<le> 5" "avail (sweep_at IDLE_EVICTION l) key IDLE_EVICTION = 60"
proof -
  have s: "dur_secs IDLE_EVICTION = 600"
    using rnd_nat [of 600] by (simp add: dur_secs_def IDLE_EVICTION_def)
  have "IDLE_EVICTION - bk_last_seen \<lparr>bk_tokens = Fnum 0, bk_last_seen = 0\<rparr> \<le> DURATION_MAX"
    by (simp add: IDLE_EVICTION_def)
  from avail_eq [OF ok c(2) b this]
  have "avail l key IDLE_EVICTION \<le> rnd (rnd (600 / 128))" using s c(1) by simp
  moreover have "rnd (600 / 128) \<le> 5" "0 \<le> rnd (600 / 128)"
    using rnd_le_nat [of "600 / 128" 5] rnd_nonneg [of "600 / 128"] by simp_all
  then have "rnd (rnd (600 / 128)) \<le> 5" using rnd_le_nat [of "rnd (600 / 128)" 5] by simp
  ultimately show "avail l key IDLE_EVICTION \<le> 5" by linarith
  have "buckets (sweep_at IDLE_EVICTION l) key = None" using b by (simp add: sweep_at_def)
  from avail_new [OF sweep_ok [OF ok] this] show "avail (sweep_at IDLE_EVICTION l) key IDLE_EVICTION = 60"
    using c(1) by (simp add: sweep_at_def)
qed

text \<open>
  A clock reading taken before the lock is used after a later one: the bucket's time goes back, and
  the same second is refilled twice. Three requests pass in two seconds at one per second.
\<close>

lemma whole_refill:
  assumes ok: "limiter_ok l" and b: "buckets l key = Some \<lparr>bk_tokens = Fnum (real t), bk_last_seen = u\<rparr>"
    and c: "burst l = Fnum 60" "per_second l = Fnum 1" and d: "now - u = n * 10 ^ 9" "t + n < 60"
  shows "avail l key now = real (t + n)"
proof -
  have n: "n < 2 ^ 53" "t + n < 2 ^ 53" using d(2) by simp_all
  have "dur_secs (n * 10 ^ 9) = real n" using rnd_nat [OF n(1)] by (simp add: dur_secs_def)
  moreover have "n * 10 ^ 9 \<le> DURATION_MAX" using d(2) by simp
  ultimately show ?thesis
    using avail_eq [OF ok c(2) b, of now] rnd_nat [OF n(1)] rnd_nat [OF n(2)] c(1) d by simp
qed

lemma out_of_order_refills:
  assumes ok: "limiter_ok l" and b: "buckets l key = Some \<lparr>bk_tokens = Fnum 0, bk_last_seen = 0\<rparr>"
    and c: "burst l = Fnum 60" "per_second l = Fnum 1"
  shows "fst (run_events key [Charge key (2 * 10 ^ 9), Charge key (10 ^ 9), Charge key (2 * 10 ^ 9)] l) = 3"
proof -
  have minus: "rnd (real (Suc k) - 1) = real k" if "k < 60" for k using rnd_nat [of k] that by simp
  have allow: "check_at key now m = (Allow, m\<lparr>buckets := (buckets m)(key \<mapsto> \<lparr>bk_tokens = Fnum (real k), bk_last_seen = now\<rparr>)\<rparr>)"
    if "limiter_ok m" "avail m key now = real (Suc k)" "k < 60" for m now k
    using that minus [of k] by (simp add: check_at_eq)
  let ?m = "\<lambda>k t. l\<lparr>buckets := (buckets l)(key \<mapsto> \<lparr>bk_tokens = Fnum (real k), bk_last_seen = t\<rparr>)\<rparr>"
  have 1: "check_at key (2 * 10 ^ 9) l = (Allow, ?m 1 (2 * 10 ^ 9))"
    using whole_refill [OF ok _ c, of key 0 0 "2 * 10 ^ 9" 2] b by (intro allow ok) simp_all
  note ok1 = check_at_ok(1) [OF ok 1]
  have 2: "check_at key (10 ^ 9) (?m 1 (2 * 10 ^ 9)) = (Allow, ?m 0 (10 ^ 9))"
    using whole_refill [OF ok1, of key 1 "2 * 10 ^ 9" "10 ^ 9" 0] c allow [OF ok1, of "10 ^ 9" 0] by simp
  note ok2 = check_at_ok(1) [OF ok1 2]
  have 3: "check_at key (2 * 10 ^ 9) (?m 0 (10 ^ 9)) = (Allow, ?m 0 (2 * 10 ^ 9))"
    using whole_refill [OF ok2, of key 0 "10 ^ 9" "2 * 10 ^ 9" 1] c allow [OF ok2, of "2 * 10 ^ 9" 0] by simp
  show ?thesis unfolding run_events.simps 1 2 3 prod.case by simp
qed

section \<open>The layer\<close>

lemma layer_isolated:
  assumes "rate_layer E header now (Some l) = (res, Some l')" "bearer_token header = Some p"
    and "k \<noteq> hash_token E p"
  shows "buckets l' k = buckets l k"
  using assms check_at_others [of "hash_token E p" now l _ l' k]
  by (auto simp: rate_layer_def split: prod.splits decision.splits)

lemma layer_anonymous: "bearer_token header = None \<Longrightarrow> rate_layer E header now lm = (Inr (), lm)"
  by (simp add: rate_layer_def split: option.split)

end
