(* ===== verification/Server.thy ===== *)
theory Server
  imports Config Verify Rate_Limit
begin

text \<open>
  \<open>src/server.rs\<close> and the construction of the store in \<open>src/storage.rs\<close>: the command line, the
  state the handlers share, the bounded wait for the database and the container health check.
\<close>

datatype ProcessCommand =
  CreateToken "string list" | Healthcheck | RevokeToken "string list" | Serve

definition process_command :: "string list \<Rightarrow> ProcessCommand" where
  "process_command args =
     (case args of
        _ # cmd # rest \<Rightarrow>
          if cmd = ''create-token'' then CreateToken rest
          else if cmd = ''revoke-token'' then RevokeToken rest
          else if cmd = ''healthcheck'' then Healthcheck
          else Serve
      | _ \<Rightarrow> Serve)"

text \<open>
  \<open>existing\<close> is what the directory or the bucket already holds; \<open>mkdir\<close> is the outcome of
  creating the directory.
\<close>

fun store_from_config ::
    "io_outcome \<Rightarrow> (string \<times> bytes) list \<Rightarrow> storage_config \<Rightarrow> string + artifact_store" where
  "store_from_config mkdir existing (CfgMemory max_bytes') = Inr (Memory [] max_bytes')"
| "store_from_config mkdir existing (CfgLocal d) =
     (case mkdir of IoErr e _ \<Rightarrow> Inl e | IoOk \<Rightarrow> Inr (Local d existing))"
| "store_from_config mkdir existing (CfgS3 b endpoint region path_style) = Inr (S3 b existing)"

definition server_state :: "env \<Rightarrow> db_backend \<Rightarrow> config \<Rightarrow> app_state" where
  "server_state env be cfg =
     \<lparr>backend = be, verify_tags = tag_check_policy cfg, github_token = env ''GITHUB_TOKEN'',
      public_base_url = trim_end_with [''/''] (base_url cfg),
      max_orgs_per_token = orgs_per_token cfg, environ = env\<rparr>"

definition server_limiter :: "(string \<Rightarrow> f64 option) \<Rightarrow> app_state \<Rightarrow> limiter option" where
  "server_limiter parse_f64 st =
     (if environ st ''ZED_RATE_LIMIT_DISABLED'' = Some ''1'' then None
      else Some (limiter_from_env parse_f64 st))"

section \<open>Waiting for the database\<close>

definition connect_max_wait :: "env \<Rightarrow> nat" where
  "connect_max_wait env =
     (case Option.bind (env ''DB_CONNECT_MAX_WAIT_SECS'') parse_u64 of None \<Rightarrow> 30 | Some n \<Rightarrow> n)"

definition connect_failed :: "nat \<Rightarrow> nat \<Rightarrow> string" where
  "connect_failed attempt secs =
     ''failed to connect to DATABASE_URL after '' @ nat_str attempt @ '' attempts over ''
     @ nat_str secs @ ''s (DB_CONNECT_MAX_WAIT_SECS)''"

text \<open>
  The loop, with fuel: attempt \<open>n\<close> succeeds or not (\<open>outcome n\<close>), and \<open>elapsed n\<close> seconds have
  passed since the start when it has failed. The result is the number of the attempt that
  connected; \<open>None\<close> is still waiting.
\<close>

fun connect_loop ::
    "(nat \<Rightarrow> bool) \<Rightarrow> (nat \<Rightarrow> nat) \<Rightarrow> nat \<Rightarrow> nat \<Rightarrow> nat \<Rightarrow> (string + nat) option" where
  "connect_loop outcome elapsed max_wait 0 attempt = None"
| "connect_loop outcome elapsed max_wait (Suc fuel) attempt =
     (let attempt' = attempt + 1
      in if outcome attempt' then Some (Inr attempt')
         else if max_wait \<le> elapsed attempt' then Some (Inl (connect_failed attempt' (elapsed attempt')))
         else connect_loop outcome elapsed max_wait fuel attempt')"

text \<open>The two seconds of sleep between attempts bound their number.\<close>

lemma connect_terminates:
  assumes "\<And>n. elapsed n + 2 \<le> elapsed (Suc n)" "max_wait < elapsed attempt + 2 * fuel"
  shows "connect_loop outcome elapsed max_wait fuel attempt \<noteq> None \<or> max_wait < elapsed attempt"
  using assms(2)
proof (induction fuel arbitrary: attempt)
  case (Suc fuel)
  have "elapsed attempt + 2 \<le> elapsed (Suc attempt)" by (rule assms(1))
  with Suc.prems have "max_wait < elapsed (Suc attempt) + 2 * fuel" by simp
  with Suc.IH [of "Suc attempt"] show ?case by (auto simp: Let_def)
qed simp

lemma connect_result:
  assumes "connect_loop outcome elapsed max_wait fuel attempt = Some r"
  shows "case r of Inr n \<Rightarrow> outcome n \<and> (\<forall>m. attempt < m \<and> m < n \<longrightarrow> \<not> outcome m \<and> elapsed m < max_wait)
                 | Inl e \<Rightarrow> \<exists>n>attempt. e = connect_failed n (elapsed n) \<and> max_wait \<le> elapsed n \<and>
                             (\<forall>m. attempt < m \<and> m \<le> n \<longrightarrow> \<not> outcome m)"
  using assms
proof (induction fuel arbitrary: attempt)
  case (Suc fuel)
  let ?a = "Suc attempt"
  have only: "attempt < m \<and> m \<le> ?a \<longleftrightarrow> m = ?a" for m by auto
  have next_or: "attempt < m \<longleftrightarrow> m = ?a \<or> ?a < m" for m by auto
  show ?case
  proof (cases "outcome ?a")
    case True
    with Suc.prems show ?thesis by auto
  next
    case fails: False
    show ?thesis
    proof (cases "max_wait \<le> elapsed ?a")
      case True
      then have r: "r = Inl (connect_failed ?a (elapsed ?a))" using Suc.prems fails by simp
      show ?thesis unfolding r sum.case
        by (intro exI [of _ ?a]) (simp add: True fails only)
    next
      case False
      then have run: "connect_loop outcome elapsed max_wait fuel ?a = Some r" using Suc.prems fails by simp
      show ?thesis
      proof (cases r)
        case (Inr n)
        with Suc.IH [OF run] fails False show ?thesis by (auto simp: next_or)
      next
        case (Inl e)
        with Suc.IH [OF run] obtain n where n: "?a < n" "e = connect_failed n (elapsed n)"
          "max_wait \<le> elapsed n" "\<forall>m. ?a < m \<and> m \<le> n \<longrightarrow> \<not> outcome m" by auto
        with fails have "\<forall>m. attempt < m \<and> m \<le> n \<longrightarrow> \<not> outcome m" by (auto simp: next_or)
        with n Inl show ?thesis by (auto intro!: exI [of _ n])
      qed
    qed
  qed
qed simp

section \<open>Health check\<close>

definition healthcheck_url :: "string \<Rightarrow> string" where
  "healthcheck_url bind =
     ''http://127.0.0.1:'' @ last (split_on CHR '':'' bind) @ ''/healthz''"

definition healthcheck :: "externals \<Rightarrow> env \<Rightarrow> string + unit" where
  "healthcheck E env =
     (case http_get E (healthcheck_url (env_or env ''BIND_ADDR'' ''0.0.0.0:8080'')) None of
        SendErr e \<Rightarrow> Inl ''healthcheck request failed''
      | Reply status _ \<Rightarrow>
          if 200 \<le> status \<and> status < 300 then Inr ()
          else Inl (''healthcheck returned HTTP '' @ nat_str status))"

lemma split_last: "CHR '':'' \<notin> set port \<Longrightarrow> last (split_on CHR '':'' (host @ '':'' @ port)) = port"
proof -
  assume p: "CHR '':'' \<notin> set port"
  have one: "split_on c a = [a]" if "c \<notin> set a" for a c
    using that by (induction a) auto
  have two: "split_on c (a @ c # b) = split_on c a @ split_on c b" for a b c
  proof (induction a)
    case (Cons x a)
    then show ?case by (cases "split_on c a") auto
  qed simp
  show ?thesis using two [of "CHR '':''" host port] one [OF p] by simp
qed

text \<open>Whatever interface the server is bound to, the probe asks the loopback on its port.\<close>

lemma healthcheck_url_port:
  "CHR '':'' \<notin> set port \<Longrightarrow>
     healthcheck_url (host @ '':'' @ port) = ''http://127.0.0.1:'' @ port @ ''/healthz''"
proof -
  assume p: "CHR '':'' \<notin> set port"
  show ?thesis unfolding healthcheck_url_def split_last [OF p] ..
qed

section \<open>The state the server starts with\<close>

lemma store_from_config_ok:
  "store_from_config mkdir existing cfg = Inr s \<Longrightarrow> store_ok s"
  by (cases cfg) (auto simp: held_bytes_def split: io_outcome.splits)

lemma limiter_from_env_ok: "limiter_ok (limiter_from_env parse st)"
proof (cases "Option.bind (environ st ''ZED_RATE_LIMIT_BURST'') parse_u32")
  case None
  then show ?thesis by (simp add: limiter_from_env_def limiter_new_ok)
next
  case (Some b)
  then obtain v where "parse_u32 v = Some b" by (auto simp: bind_eq_Some_conv)
  then have "b < 2 ^ 32" using parse_unsigned_bound [of "2 ^ 32 - 1" v b] by (simp add: parse_u32_def)
  with Some show ?thesis by (simp add: limiter_from_env_def limiter_new_ok)
qed

lemma server_limiter_ok: "server_limiter parse st = Some l \<Longrightarrow> limiter_ok l"
  by (auto simp: server_limiter_def limiter_from_env_ok split: if_splits)

text \<open>The limits the server starts with out of the box: a burst that refills in six seconds, well
  within the eviction time.\<close>

lemma server_limiter_default:
  assumes "environ st ''ZED_RATE_LIMIT_BURST'' = None" "environ st ''ZED_RATE_LIMIT_PER_SECOND'' = None"
    and "server_limiter parse st = Some l"
  shows "burst l = Fnum 60" "per_second l = Fnum 10"
  using assms f64_nat_exact [of 60]
  by (auto simp: server_limiter_def limiter_from_env_def limiter_new_def f64_less_def split: if_splits)

lemma server_state_auth: "auth_disabled (server_state env be cfg) \<longleftrightarrow> env ''ZED_AUTH_DISABLED'' = Some ''1''"
  by (simp add: auth_disabled_def server_state_def)

text \<open>A download URL has exactly one slash between the configured base and the path.\<close>

lemma base_url_trimmed: "\<not> suffix ''/'' (public_base_url (server_state env be cfg))"
proof
  let ?u = "base_url cfg"
  assume "suffix ''/'' (public_base_url (server_state env be cfg))"
  then obtain z where z: "trim_end_with [''/''] ?u = z @ ''/''"
    by (auto simp: server_state_def suffix_def)
  have "strip_any [''/''] (trim_start_with [''/''] (rev ?u)) = None"
    by (rule trim_start_with_fixed) simp
  moreover have "trim_start_with [''/''] (rev ?u) = CHR ''/'' # rev z"
    using arg_cong [OF z, of rev] by (simp add: trim_end_with_def)
  ultimately show False by simp
qed

section \<open>The retry loop returns\<close>

text \<open>One attempt per two seconds of the deadline, and the first.\<close>

definition connect_fuel :: "nat \<Rightarrow> nat" where
  "connect_fuel max_wait = Suc (max_wait div 2)"

lemma connect_settles:
  assumes "\<And>n. elapsed n + 2 \<le> elapsed (Suc n)"
  shows "connect_loop outcome elapsed max_wait (connect_fuel max_wait) 0 \<noteq> None"
proof -
  have "max_wait < elapsed 0 + 2 * connect_fuel max_wait" by (simp add: connect_fuel_def)
  from connect_terminates [OF assms this, of outcome] assms [of 0] show ?thesis
    by (auto simp: connect_fuel_def Let_def)
qed

text \<open>
  C40: The connection loop always returns, within one attempt per two seconds of the deadline:
  with the first attempt that connects, or with the error of a failed attempt once the deadline
  has passed, every earlier attempt having failed.
\<close>

theorem connect_returns:
  assumes "\<And>n. elapsed n + 2 \<le> elapsed (Suc n)"
  shows "\<exists>r. connect_loop outcome elapsed max_wait (connect_fuel max_wait) 0 = Some r \<and>
     (case r of
        Inr n \<Rightarrow> outcome n \<and> (\<forall>m. 0 < m \<and> m < n \<longrightarrow> \<not> outcome m \<and> elapsed m < max_wait)
      | Inl e \<Rightarrow> \<exists>n>0. e = connect_failed n (elapsed n) \<and> max_wait \<le> elapsed n \<and>
          (\<forall>m. 0 < m \<and> m \<le> n \<longrightarrow> \<not> outcome m))"
proof -
  obtain r where "connect_loop outcome elapsed max_wait (connect_fuel max_wait) 0 = Some r"
    using connect_settles [of elapsed outcome max_wait, OF assms] by blast
  from this connect_result [OF this] show ?thesis by blast
qed

end
