(* ===== verification/System.thy ===== *)
theory System
  imports Integrity Audit_Routes Tokens Semantic Server
begin

text \<open>
  The server as a whole: every endpoint of the router and the two administration commands as
  one dispatch function, and the rate limiter in front of it.
\<close>

section \<open>Dispatch\<close>

datatype request =
    ListPackages "string option" "string option" nat nat
  | GetPackage "string option" string string
  | GetVersion "string option" string string string
  | is_PutVersion: PutVersion "string option" string string string "form_event list"
  | is_PostYank: PostYank "string option" string string string bool
  | GetArtifact "string option" string
  | GetFile "string option" string string string string
  | GetSearch "string option" string "string option"
  | PostSemantic "string option" string "f32 list" "string list" nat
  | PutEmbedding "string option" string string string "f32 list" string
  | PostOrg "string option" lock_outcome string
  | GetAudit "string option" string audit_query
  | GetAuditVerify "string option" string

datatype command = CmdCreate "string list" | CmdRevoke "string list"

fun request_header :: "request \<Rightarrow> string option" where
  "request_header (ListPackages h _ _ _) = h"
| "request_header (GetPackage h _ _) = h"
| "request_header (GetVersion h _ _ _) = h"
| "request_header (PutVersion h _ _ _ _) = h"
| "request_header (PostYank h _ _ _ _) = h"
| "request_header (GetArtifact h _) = h"
| "request_header (GetFile h _ _ _ _) = h"
| "request_header (GetSearch h _ _) = h"
| "request_header (PostSemantic h _ _ _ _) = h"
| "request_header (PutEmbedding h _ _ _ _ _) = h"
| "request_header (PostOrg h _ _) = h"
| "request_header (GetAudit h _ _) = h"
| "request_header (GetAuditVerify h _) = h"

text \<open>The status a handler's result becomes.\<close>

definition answer :: "(api_err, 'a) io \<Rightarrow> world \<Rightarrow> nat \<times> world" where
  "answer m w = (case m w of (Inl e, w') \<Rightarrow> (err_status e, w') | (Inr _, w') \<Rightarrow> (200, w'))"

fun handle :: "externals \<Rightarrow> app_state \<Rightarrow> request \<Rightarrow> world \<Rightarrow> nat \<times> world" where
  "handle E st (ListPackages h tags limit offset) = answer (list_packages E tags limit offset)"
| "handle E st (GetPackage h org name) = answer (get_package E org name)"
| "handle E st (GetVersion h org name ver) = answer (get_version E st org name ver)"
| "handle E st (PutVersion h org name ver form) = answer (publish E st h org name ver form)"
| "handle E st (PostYank h org name ver yanked) = answer (yank E st h org name ver yanked)"
| "handle E st (GetArtifact h sha) = answer (get_artifact E sha)"
| "handle E st (GetFile h org name ver path) = answer (get_file E st org name ver path)"
| "handle E st (GetSearch h q tags) = answer (search E st q tags)"
| "handle E st (PostSemantic h m v tags limit) = answer (semantic_search E st m v tags limit)"
| "handle E st (PutEmbedding h org name m v c) = answer (upsert_embedding E st h org name m v c)"
| "handle E st (PostOrg h lk slug) = answer (claim_org E st lk h slug)"
| "handle E st (GetAudit h org q) = answer (get_audit_log E st h org q)"
| "handle E st (GetAuditVerify h org) = answer (verify_audit_log E st h org)"

fun run_command :: "externals \<Rightarrow> app_state \<Rightarrow> command \<Rightarrow> world \<Rightarrow> world" where
  "run_command E st (CmdCreate args) w = snd (create_token E st args w)"
| "run_command E st (CmdRevoke args) w = snd (revoke_token E st args w)"

text \<open>A request as the router serves it: the limiter decides first, and charges.\<close>

definition serve ::
    "externals \<Rightarrow> app_state \<Rightarrow> nat \<Rightarrow> request \<Rightarrow> limiter option \<Rightarrow> world \<Rightarrow> nat \<times> limiter option \<times> world" where
  "serve E st now req lm w =
     (case rate_layer E (request_header req) now lm of
        (Inl resp, lm') \<Rightarrow> (resp_status resp, lm', w)
      | (Inr _, lm') \<Rightarrow> (case handle E st req w of (status, w') \<Rightarrow> (status, lm', w')))"

lemma limited_request_has_no_effect:
  assumes "rate_layer E (request_header req) now lm = (Inl resp, lm')"
  shows "serve E st now req lm w = (resp_status resp, lm', w) \<and> resp_status resp = TOO_MANY_REQUESTS"
  using assms
  by (auto simp: serve_def rate_layer_def rate_limited_def split: option.splits prod.splits decision.splits)

end
