(* ===== verification/Catalog.thy ===== *)
theory Catalog
  imports System
begin

text \<open>
  The abstract registry: a map from coordinates (org, name, version) to the digest of the
  release and whether it is yanked. A step of it is a new release, a flag that changes, or nothing;
  this theory shows which of them each statement and each sequential handler makes, and \<open>Commits\<close>
  that nothing else ever happens to it.
\<close>

section \<open>The abstract registry\<close>

type_synonym catalogue = "string \<times> string \<times> string \<Rightarrow> (string \<times> bool) option"

inductive catalog_step :: "catalogue \<Rightarrow> catalogue \<Rightarrow> bool" where
  Release: "c k = None \<Longrightarrow> catalog_step c (c(k \<mapsto> (sha, False)))"
| Flag: "c k = Some (sha, y) \<Longrightarrow> catalog_step c (c(k \<mapsto> (sha, y')))"
| Stutter: "catalog_step c c"

inductive_cases catalog_stepE: "catalog_step c c'"

definition entry :: "version_row \<Rightarrow> string \<times> bool" where
  "entry r = (v_sha256 r, v_yanked r)"

text \<open>The coordinates a client can resolve, as the read handlers resolve them.\<close>

definition catalog :: "database \<Rightarrow> catalogue" where
  "catalog d = (\<lambda>(s, n, v).
     case org_by_slug s d of
       None \<Rightarrow> None
     | Some org \<Rightarrow>
         (case package_by_name (o_id org) n d of
            None \<Rightarrow> None
          | Some pkg \<Rightarrow> map_option entry (version_by_name (p_id pkg) v d)))"

section \<open>The relational reading\<close>

definition released :: "database \<Rightarrow> string \<Rightarrow> string \<Rightarrow> string \<Rightarrow> version_row \<Rightarrow> bool" where
  "released d s n v r \<longleftrightarrow>
     (\<exists>org\<in>set (orgs d). \<exists>pkg\<in>set (packages d). o_slug org = s \<and> p_org pkg = o_id org \<and>
        p_name pkg = n \<and> r \<in> set (versions d) \<and> v_package r = p_id pkg \<and> v_version r = v)"

lemma catalog_iff:
  assumes "db_ok d"
  shows "catalog d (s, n, v) = Some x \<longleftrightarrow> (\<exists>r. released d s n v r \<and> x = entry r)"
proof -
  have "catalog d (s, n, v) = Some x \<longleftrightarrow>
      (\<exists>org pkg r. org_by_slug s d = Some org \<and> package_by_name (o_id org) n d = Some pkg \<and>
         version_by_name (p_id pkg) v d = Some r \<and> x = entry r)"
    by (auto simp: catalog_def split: option.splits)
  then show ?thesis
    unfolding released_def org_by_slug_iff [OF assms] package_by_name_iff [OF assms]
      version_by_name_iff [OF assms] by blast
qed

lemma catalog_eqI:
  assumes "db_ok d" "db_ok d'" "\<And>s n v x. (\<exists>r. released d' s n v r \<and> x = entry r) \<longleftrightarrow> (\<exists>r. released d s n v r \<and> x = entry r)"
  shows "catalog d' = catalog d"
proof
  fix k :: "string \<times> string \<times> string"
  obtain s n v where k: "k = (s, n, v)" by (cases k)
  have "catalog d' k = Some x \<longleftrightarrow> catalog d k = Some x" for x
    unfolding k catalog_iff [OF assms(1)] catalog_iff [OF assms(2)] by (rule assms(3))
  then show "catalog d' k = catalog d k" by (metis not_Some_eq)
qed

lemma catalog_cong:
  assumes "orgs d' = orgs d" "packages d' = packages d" "versions d' = versions d"
  shows "catalog d' = catalog d"
  unfolding catalog_def org_by_slug_def package_by_name_def version_by_name_def assms ..

section \<open>The statements\<close>

lemma catalog_insert_org:
  assumes ok: "db_ok d" and ins: "insert_org r d = Inr d'"
  shows "catalog d' = catalog d"
proof (rule catalog_eqI [OF ok insert_org_ok [OF ok ins]])
  have fk: "\<And>p. p \<in> set (packages d) \<Longrightarrow> p_org p \<in> o_id ` set (orgs d)"
    using ok by (simp add: db_ok_def fk_ok_def)
  have d': "orgs d' = orgs d @ [r]" "packages d' = packages d" "versions d' = versions d"
    and fresh: "o_id r \<notin> o_id ` set (orgs d)"
    using ins by (auto simp: insert_org_Inr)
  have "p_org p \<noteq> o_id r" if "p \<in> set (packages d)" for p using fk [OF that] fresh by metis
  then have "released d' s n v q \<longleftrightarrow> released d s n v q" for s n v q
    unfolding released_def d' by auto
  then show "(\<exists>q. released d' s n v q \<and> x = entry q) \<longleftrightarrow> (\<exists>q. released d s n v q \<and> x = entry q)" for s n v x
    by simp
qed

text \<open>What a package contributes to a coordinate; the upsert never changes it.\<close>

definition locator :: "package_row \<Rightarrow> uuid \<times> uuid \<times> string" where
  "locator p = (p_id p, p_org p, p_name p)"

lemma released_locator:
  "released d s n v r \<longleftrightarrow>
     (\<exists>org\<in>set (orgs d). o_slug org = s \<and> (v_package r, o_id org, n) \<in> set (map locator (packages d)) \<and>
        r \<in> set (versions d) \<and> v_version r = v)"
proof -
  have "(v_package r, i, n) \<in> set (map locator (packages d)) \<longleftrightarrow>
      (\<exists>p\<in>set (packages d). p_id p = v_package r \<and> p_org p = i \<and> p_name p = n)" for i
    by (simp add: locator_def image_iff) metis
  then show ?thesis unfolding released_def by metis
qed

lemma upsert_locators:
  assumes "upsert_package_row r d = Inr d'"
  shows "map locator (packages d') = map locator (packages d) \<or>
     (map locator (packages d') = map locator (packages d) @ [locator r] \<and> p_id r \<notin> p_id ` set (packages d))"
  using assms
  by (auto simp: upsert_package_row_def update_packages_def insert_package_Inr map_map_where
      locator_def refresh_package_def split: if_splits)

lemma catalog_upsert:
  assumes ok: "db_ok d" and ups: "upsert_package_row r d = Inr d'"
  shows "catalog d' = catalog d"
proof (rule catalog_eqI [OF ok upsert_package_row_ok [OF ok ups]])
  have fk: "\<And>q. q \<in> set (versions d) \<Longrightarrow> v_package q \<in> p_id ` set (packages d)"
    using ok by (simp add: db_ok_def fk_ok_def)
  have d': "orgs d' = orgs d" "versions d' = versions d"
    using upsert_package_row_frame [OF ups] by auto
  have "(v_package q, i, n) \<in> set (map locator (packages d')) \<longleftrightarrow>
      (v_package q, i, n) \<in> set (map locator (packages d))" if "q \<in> set (versions d)" for q i n
    using upsert_locators [OF ups] fk [OF that] by (elim disjE) (auto simp: locator_def)
  then have "released d' s n v q \<longleftrightarrow> released d s n v q" for s n v q
    unfolding released_locator d' by metis
  then show "(\<exists>q. released d' s n v q \<and> x = entry q) \<longleftrightarrow> (\<exists>q. released d s n v q \<and> x = entry q)" for s n v x
    by simp
qed

text \<open>A package id is reached through one org and one name only.\<close>

lemma coordinate_unique:
  assumes ok: "db_ok d" and o': "org_by_slug s d = Some org" "package_by_name (o_id org) n d = Some pkg"
    and p: "org_by_slug t d = Some org'" "package_by_name (o_id org') m d = Some q" "p_id q = p_id pkg"
  shows "org' = org \<and> t = s \<and> m = n"
proof -
  have q: "q = pkg"
    using p(2,3) o'(2) db_okD(6) [OF ok]
    by (auto simp: package_by_name_iff [OF ok] intro: distinct_map_unique)
  then have "o_id org' = o_id org" and m: "m = n"
    using p(2) o'(2) by (auto simp: package_by_name_iff [OF ok])
  then have "org' = org"
    using p(1) o'(1) db_okD(7) [OF ok]
    by (auto simp: org_by_slug_iff [OF ok] intro: distinct_map_unique)
  with p(1) o'(1) m show ?thesis by (auto simp: org_by_slug_iff [OF ok])
qed

lemma catalog_insert_version:
  assumes ok: "db_ok d" and ins: "insert_version r d = Inr d'"
    and org: "org_by_slug s d = Some org" and pkg: "package_by_name (o_id org) n d = Some pkg"
    and r: "v_package r = p_id pkg"
  shows "catalog d (s, n, v_version r) = None"
    and "catalog d' = (catalog d)((s, n, v_version r) \<mapsto> entry r)"
proof -
  have d': "orgs d' = orgs d" "packages d' = packages d" "versions d' = versions d @ [r]"
    and fresh: "version_key r \<notin> version_key ` set (versions d)"
    using ins by (auto simp: insert_version_Inr)
  have none: "version_by_name (p_id pkg) (v_version r) d = None"
    using fresh r by (auto simp: version_by_name_def find_None version_key_def image_iff)
  have look: "version_by_name i v d' = (if (i, v) = version_key r then Some r else version_by_name i v d)" for i v
    using none r by (auto simp: version_by_name_def find_append d' version_key_def split: option.splits)
  have same: "org_by_slug t d' = org_by_slug t d" "package_by_name j m d' = package_by_name j m d" for t j m
    by (simp_all add: org_by_slug_def package_by_name_def d')
  note uniq = coordinate_unique [OF ok org pkg]
  show "catalog d (s, n, v_version r) = None" using org pkg none by (simp add: catalog_def)
  show "catalog d' = (catalog d)((s, n, v_version r) \<mapsto> entry r)"
  proof
    fix k :: "string \<times> string \<times> string"
    obtain t m v where k: "k = (t, m, v)" by (cases k)
    show "catalog d' k = ((catalog d)((s, n, v_version r) \<mapsto> entry r)) k"
      using org pkg r
      by (auto simp: k catalog_def same look version_key_def split: option.splits dest: uniq)
  qed
qed

lemma catalog_yank:
  assumes ok: "db_ok d" and org: "org_by_slug s d = Some org"
    and pkg: "package_by_name (o_id org) n d = Some pkg" and row: "version_by_name (p_id pkg) v d = Some row"
    and d': "orgs d' = orgs d" "packages d' = packages d"
      "versions d' = map_where (\<lambda>r. r = row) (\<lambda>r. r\<lparr>v_yanked := y\<rparr>) (versions d)"
  shows "catalog d' = (catalog d)((s, n, v) \<mapsto> (v_sha256 row, y))"
proof -
  have look: "version_by_name i u d' =
      map_option (\<lambda>r. if r = row then r\<lparr>v_yanked := y\<rparr> else r) (version_by_name i u d)" for i u
    unfolding version_by_name_def d' by (rule find_map_where) simp
  have same: "org_by_slug t d' = org_by_slug t d" "package_by_name j m d' = package_by_name j m d" for t j m
    by (simp_all add: org_by_slug_def package_by_name_def d')
  have uniq: "(t, m, u) = (s, n, v)"
    if "org_by_slug t d = Some org'" "package_by_name (o_id org') m d = Some p"
      "version_by_name (p_id p) u d = Some row" for t m u p org'
  proof -
    have "p_id p = p_id pkg" "u = v" using that(3) row by (auto simp: version_by_name_iff [OF ok])
    with coordinate_unique [OF ok org pkg that(1,2)] show ?thesis by simp
  qed
  have keep: "z \<noteq> Some row \<Longrightarrow> map_option (\<lambda>r. if r = row then r\<lparr>v_yanked := y\<rparr> else r) z = z" for z
    by (cases z) auto
  show ?thesis
  proof
    fix k :: "string \<times> string \<times> string"
    obtain t m u where k: "k = (t, m, u)" by (cases k)
    show "catalog d' k = ((catalog d)((s, n, v) \<mapsto> (v_sha256 row, y))) k"
    proof (cases "k = (s, n, v)")
      case True
      with org pkg row show ?thesis by (simp add: catalog_def same look entry_def)
    next
      case False
      have "catalog d' (t, m, u) = catalog d (t, m, u)"
      proof (cases "org_by_slug t d")
        case (Some org')
        show ?thesis
        proof (cases "package_by_name (o_id org') m d")
          case (Some p)
          with uniq \<open>org_by_slug t d = Some org'\<close> False k
          have "version_by_name (p_id p) u d \<noteq> Some row" by blast
          from keep [OF this] Some \<open>org_by_slug t d = Some org'\<close> show ?thesis
            by (simp add: catalog_def same look)
        qed (simp add: Some catalog_def same)
      qed (simp add: catalog_def same)
      with False k show ?thesis by auto
    qed
  qed
qed

section \<open>The handlers\<close>

lemma same_but_tokens_catalog: "same_but_tokens d d' \<Longrightarrow> catalog d' = catalog d"
  by (rule catalog_cong) (simp_all add: same_but_tokens_simps)

lemma same_but_audits_catalog: "same_but_audits d d' \<Longrightarrow> catalog d' = catalog d"
  by (rule catalog_cong) (simp_all add: same_but_audits_simps)

lemma publish_back_catalog:
  assumes ok: "db_ok (db w)" and o': "org_by_slug s (db w) = Some org"
    and run: "publish_back E st s n v token org meta artifact w = (Inr resp, w')"
  shows "catalog (db w) (s, n, v) = None"
    and "catalog (db w') = (catalog (db w))((s, n, v) \<mapsto> (pub_sha256 resp, False))"
proof -
  from publish_back_Inr [OF run] obtain d1 d2 pkg i now j now' where
    up: "upsert_package_row (manifest_package i now org n (meta_manifest meta)) (db w) = Inr d1"
    and pkg: "package_by_name (o_id org) n d1 = Some pkg"
    and ins: "insert_version (new_version E j now' pkg v meta (sha256_hex E artifact)
      (int (length artifact)) (artifact_key (sha256_hex E artifact) (format_extension E (meta_format meta)))) d1 = Inr d2"
    and aud: "same_but_audits d2 (db w')" and resp: "pub_sha256 resp = sha256_hex E artifact" by auto
  have ok2: "db_ok d1" by (rule upsert_package_row_ok [OF ok up])
  have org: "org_by_slug s d1 = Some org"
    using o' upsert_package_row_frame [OF up] by (auto simp: org_by_slug_def)
  note v = catalog_insert_version [OF ok2 ins org pkg] catalog_upsert [OF ok up]
  show "catalog (db w) (s, n, v) = None" using v(1,3) by (simp add: new_version_def)
  show "catalog (db w') = (catalog (db w))((s, n, v) \<mapsto> (pub_sha256 resp, False))"
    using v(2,3) same_but_audits_catalog [OF aud] resp by (simp add: new_version_def entry_def)
qed

lemma publish_catalog:
  assumes ok: "db_ok (db w)" and run: "publish E st h s n v form w = (Inr resp, w')"
  shows "catalog (db w) (s, n, v) = None"
    and "catalog (db w') = (catalog (db w))((s, n, v) \<mapsto> (pub_sha256 resp, False))"
proof -
  from run obtain token org meta artifact w1 where
    front: "publish_front E st h s n v form w = (Inr (token, org, meta, artifact), w1)"
    and bk: "publish_back E st s n v token org meta artifact w1 = (Inr resp, w')"
    by (auto simp: publish_split andThen_Inr split: prod.splits)
  have same: "same_but_tokens (db w) (db w1)"
    using keepsD [OF publish_front_frame front] by simp
  have ok1: "db_ok (db w1)" using keepsD [OF publish_front_keeps_db_ok front ok] .
  have org: "org_by_slug s (db w1) = Some org"
    using publish_front_Inr(6) [OF front] same_but_tokens_simps [OF same] by (simp add: org_by_slug_def)
  show "catalog (db w) (s, n, v) = None"
    and "catalog (db w') = (catalog (db w))((s, n, v) \<mapsto> (pub_sha256 resp, False))"
    using publish_back_catalog [OF ok1 org bk] same_but_tokens_catalog [OF same] by simp_all
qed

lemma yank_catalog:
  assumes ok: "db_ok (db w)" and run: "yank E st h s n v y w = (Inr resp, w')"
  shows "\<exists>sha y0. catalog (db w) (s, n, v) = Some (sha, y0) \<and>
     catalog (db w') = (catalog (db w))((s, n, v) \<mapsto> (sha, y))"
proof -
  from yank_Inr [OF assms] obtain org pkg row where
    org: "org_by_slug s (db w) = Some org" and pkg: "package_by_name (o_id org) n (db w) = Some pkg"
    and row: "version_by_name (p_id pkg) v (db w) = Some row"
    and d': "orgs (db w') = orgs (db w)" "packages (db w') = packages (db w)"
      "versions (db w') = map_where (\<lambda>r. r = row) (\<lambda>r. r\<lparr>v_yanked := y\<rparr>) (versions (db w))" by blast
  have "catalog (db w) (s, n, v) = Some (v_sha256 row, v_yanked row)"
    using org pkg row by (simp add: catalog_def entry_def)
  with catalog_yank [OF ok org pkg row d'] show ?thesis by blast
qed

text \<open>What the abstract registry promises: a coordinate, once taken, keeps its digest.\<close>

lemma catalog_step_keeps: "catalog_step c c' \<Longrightarrow> c k = Some (sha, y) \<Longrightarrow> \<exists>y'. c' k = Some (sha, y')"
  by (erule catalog_stepE) (auto split: if_splits)

lemma catalog_steps_keep: "catalog_step\<^sup>*\<^sup>* c c' \<Longrightarrow> c k = Some (sha, y) \<Longrightarrow> \<exists>y'. c' k = Some (sha, y')"
  by (induction arbitrary: y rule: rtranclp_induct) (auto dest: catalog_step_keeps)

end
