(* ===== verification/Commits.thy ===== *)
theory Commits
  imports Catalog
begin

text \<open>
  What one committed statement or transaction of the server may do to the shared state, the
  database and the store, whoever runs it: the abstract machine that the concurrent handlers
  refine. Its invariants are those of the statement contract \<open>database_invariant\<close>; its effect on
  the catalogue, on the audit chains and on the artifacts is proved here once.
\<close>

section \<open>The machine\<close>

type_synonym shared = "database \<times> artifact_store"

definition shared :: "world \<Rightarrow> shared" where
  "shared w = (db w, store w)"

lemma shared_simps [simp]: "fst (shared w) = db w" "snd (shared w) = store w"
  by (simp_all add: shared_def)

text \<open>
  The object a version row names is there; where writes never stop half way (\<open>whole\<close>), its bytes
  have the row's digest.
\<close>

definition held :: "externals \<Rightarrow> bool \<Rightarrow> string \<Rightarrow> string \<Rightarrow> artifact_store \<Rightarrow> bool" where
  "held E whole sha ext s \<longleftrightarrow>
     stored s (artifact_key sha ext) \<noteq> None \<and>
     (whole \<longrightarrow> (\<exists>b. stored s (artifact_key sha ext) = Some b \<and> sha256_hex E b = sha))"

definition backed :: "externals \<Rightarrow> bool \<Rightarrow> version_row \<Rightarrow> artifact_store \<Rightarrow> bool" where
  "backed E whole row s \<longleftrightarrow>
     v_artifact_key row = artifact_key (v_sha256 row) (v_format row) \<and>
     held E whole (v_sha256 row) (v_format row) s"

inductive commit :: "externals \<Rightarrow> bool \<Rightarrow> shared \<Rightarrow> shared \<Rightarrow> bool" for E whole where
  New_Token: "insert_token t d = Inr d' \<Longrightarrow> commit E whole (d, s) (d', s)"
| New_Org: "insert_org r d = Inr d' \<Longrightarrow> commit E whole (d, s) (d', s)"
| Revoked: "commit E whole (d, s) (update_token i (\<lambda>x. x\<lparr>t_revoked_at := Some now\<rparr>) d, s)"
| Embedded: "commit E whole (d, s) (d\<lparr>embeddings := es\<rparr>, s)"
| Flagged: "commit E whole (d, s) (update_version i (\<lambda>x. x\<lparr>v_yanked := y\<rparr>) d, s)"
| Appended: "insert_audit (append_row E org tok act sub det (audit_tip org d) now i) d = Inr d' \<Longrightarrow>
    commit E whole (d, s) (d', s)"
| Released: "upsert_package_row p d = Inr d1 \<Longrightarrow> insert_version row d1 = Inr d2 \<Longrightarrow>
    \<not> v_yanked row \<Longrightarrow> backed E whole row s \<Longrightarrow> commit E whole (d, s) (d2, s)"
| Uploaded: "store_put io (artifact_key (sha256_hex E bs) ext) bs s = (r, s') \<Longrightarrow>
    (whole \<longrightarrow> clean_io io) \<Longrightarrow> commit E whole (d, s) (d, s')"

inductive_cases commitE: "commit E whole (d, s) (d', s')"

abbreviation commits :: "externals \<Rightarrow> bool \<Rightarrow> shared \<Rightarrow> shared \<Rightarrow> bool" where
  "commits E whole \<equiv> (commit E whole)\<^sup>*\<^sup>*"

section \<open>Invariants of the statements are invariants of the machine\<close>

text \<open>
  What a property of the database needs in order to survive every request and command: to
  survive each statement the handlers run.
\<close>

locale database_invariant =
  fixes E :: externals and P :: "database \<Rightarrow> bool"
  assumes token_inserted: "P d \<Longrightarrow> insert_token t d = Inr d' \<Longrightarrow> P d'"
    and org_inserted: "P d \<Longrightarrow> insert_org r d = Inr d' \<Longrightarrow> P d'"
    and token_revoked: "P d \<Longrightarrow> P (update_token i (\<lambda>x. x\<lparr>t_revoked_at := Some now\<rparr>) d)"
    and embeddings_changed: "P d \<Longrightarrow> P (d\<lparr>embeddings := es\<rparr>)"
    and appended: "P d \<Longrightarrow> insert_audit (append_row E org tok act sub det (audit_tip org d) now i) d = Inr d' \<Longrightarrow> P d'"
    and version_yanked: "P d \<Longrightarrow> P (update_version i (\<lambda>x. x\<lparr>v_yanked := y\<rparr>) d)"
    and version_inserted: "P d \<Longrightarrow> insert_version v d = Inr d' \<Longrightarrow> P d'"
    and package_upserted: "P d \<Longrightarrow> upsert_package_row p d = Inr d' \<Longrightarrow> P d'"
begin

lemma commit_keeps: "commit E whole (d, s) (d', s') \<Longrightarrow> P d \<Longrightarrow> P d'"
  by (erule commitE)
    (auto intro: token_inserted org_inserted token_revoked embeddings_changed version_yanked appended
      version_inserted package_upserted)

lemma commits_keep: "commits E whole x y \<Longrightarrow> P (fst x) \<Longrightarrow> P (fst y)"
  by (induction rule: rtranclp_induct) (auto dest: commit_keeps)

end

text \<open>Integrity and chains; the history of versions; the history of orgs; revocation.\<close>

definition orgs_extend :: "org_row list \<Rightarrow> database \<Rightarrow> bool" where
  "orgs_extend os d \<longleftrightarrow> prefix os (orgs d)"

definition token_le :: "token_row \<Rightarrow> token_row \<Rightarrow> bool" where
  "token_le r r' \<longleftrightarrow> (\<exists>x. r' = r\<lparr>t_revoked_at := x\<rparr> \<and> (t_revoked_at r \<noteq> None \<longrightarrow> x \<noteq> None))"

definition tokens_extend :: "token_row list \<Rightarrow> database \<Rightarrow> bool" where
  "tokens_extend ts d \<longleftrightarrow> (\<exists>pre suf. tokens d = pre @ suf \<and> list_all2 token_le ts pre)"

lemma token_le_refl: "token_le r r"
  unfolding token_le_def by (rule exI [of _ "t_revoked_at r"]) simp

lemma token_le_revoke: "token_le r r' \<Longrightarrow> token_le r (r'\<lparr>t_revoked_at := Some now\<rparr>)"
  by (auto simp: token_le_def)

lemma tokens_extend_refl: "tokens_extend (tokens d) d"
  unfolding tokens_extend_def
  by (rule exI [of _ "tokens d"], rule exI [of _ "[]"]) (simp add: list_all2_refl token_le_refl)

lemma tokens_extend_insert: "tokens_extend ts d \<Longrightarrow> insert_token r d = Inr d' \<Longrightarrow> tokens_extend ts d'"
proof -
  assume "tokens_extend ts d" "insert_token r d = Inr d'"
  then obtain pre suf where "tokens d' = pre @ (suf @ [r])" "list_all2 token_le ts pre"
    by (auto simp: tokens_extend_def insert_token_Inr)
  then show "tokens_extend ts d'" unfolding tokens_extend_def by blast
qed

lemma tokens_extend_revoke:
  assumes "tokens_extend ts d"
  shows "tokens_extend ts (update_token i (\<lambda>x. x\<lparr>t_revoked_at := Some now\<rparr>) d)"
proof -
  let ?f = "\<lambda>r. if t_id r = i then r\<lparr>t_revoked_at := Some now\<rparr> else r"
  from assms obtain pre suf where d: "tokens d = pre @ suf" "list_all2 token_le ts pre"
    by (auto simp: tokens_extend_def)
  have "list_all2 token_le ts (map ?f pre)"
    using d(2) by (induction ts pre rule: list_all2_induct) (auto intro: token_le_revoke)
  moreover have "tokens (update_token i (\<lambda>x. x\<lparr>t_revoked_at := Some now\<rparr>) d) = map ?f pre @ map ?f suf"
    using d(1) by (simp add: update_token_def map_where_def)
  ultimately show ?thesis unfolding tokens_extend_def by blast
qed

lemma tokens_extend_same: "tokens d' = tokens d \<Longrightarrow> tokens_extend ts d \<Longrightarrow> tokens_extend ts d'"
  by (simp add: tokens_extend_def)

lemma changed_ok:
  "db_ok d \<Longrightarrow> db_ok (d\<lparr>embeddings := es\<rparr>)"
  "db_ok d \<Longrightarrow> db_ok (update_version i (\<lambda>x. x\<lparr>v_yanked := y\<rparr>) d)"
  "db_ok d \<Longrightarrow> db_ok (update_token i (\<lambda>x. x\<lparr>t_revoked_at := Some now\<rparr>) d)"
  by (simp add: db_ok_def unique_ok_def fk_ok_def indexed_defs, rule update_yanked_ok, assumption,
      rule revoked_ok)

lemmas inserted_ok = insert_token_ok insert_org_ok insert_version_ok upsert_package_row_ok insert_audit_ok

interpretation wellformed: database_invariant E db_ok for E
  by unfold_locales (auto intro: changed_ok inserted_ok)

interpretation integrity: database_invariant E "\<lambda>d. hex_digests E \<longrightarrow> chain_inv E d" for E
proof unfold_locales
  fix d i now es
  assume P: "hex_digests E \<longrightarrow> chain_inv E d"
  have same: "chain_inv E d'" if "hex_digests E" "db_ok d \<Longrightarrow> db_ok d'" "audits d' = audits d" for d'
    using chain_inv_same_audits [of E d d'] that P by (auto simp: chain_inv_def)
  show "hex_digests E \<longrightarrow> chain_inv E (update_token i (\<lambda>x. x\<lparr>t_revoked_at := Some now\<rparr>) d)"
    using same [OF _ changed_ok(3)] by (simp add: update_token_def)
  show "hex_digests E \<longrightarrow> chain_inv E (d\<lparr>embeddings := es\<rparr>)"
    using same [OF _ changed_ok(1)] by simp
qed (blast intro: chain_inv_inserts chain_inv_append)+

interpretation hashed: database_invariant E "\<lambda>d. hex_digests E \<longrightarrow> all_hashed d" for E
proof unfold_locales
  fix d d' org tok act sub det now i
  assume "hex_digests E \<longrightarrow> all_hashed d"
    and "insert_audit (append_row E org tok act sub det (audit_tip org d) now i) d = Inr d'"
  then show "hex_digests E \<longrightarrow> all_hashed d'" using all_hashed_append by blast
qed (auto simp: all_hashed_def insert_token_Inr insert_org_Inr insert_version_Inr update_version_def
    update_token_def dest!: upsert_package_row_frame)

interpretation log_history: database_invariant E "\<lambda>d. prefix as (audits d)" for E as
  by unfold_locales
    (auto simp: insert_token_Inr insert_org_Inr insert_version_Inr insert_audit_Inr update_version_def
      update_token_def dest!: upsert_package_row_frame)

interpretation namespaces: database_invariant E "orgs_extend os" for E os
  by unfold_locales
    (auto simp: orgs_extend_def insert_token_Inr insert_org_Inr insert_version_Inr insert_audit_Inr
      update_version_def update_token_def dest!: upsert_package_row_frame)

interpretation history: database_invariant E "extends vs" for E vs
proof unfold_locales
  fix d d' t r v p i y now es org tok act sub det
  assume P: "extends vs d"
  show "insert_version v d = Inr d' \<Longrightarrow> extends vs d'" using P by (rule extends_insert_version)
  show "extends vs (update_version i (\<lambda>x. x\<lparr>v_yanked := y\<rparr>) d)" using P by (rule extends_update_yanked)
qed (auto simp: insert_token_Inr insert_org_Inr insert_audit_Inr update_token_def
    dest!: upsert_package_row_frame elim: extends_same [rotated])

interpretation credentials: database_invariant E "tokens_extend ts" for E ts
proof unfold_locales
  fix d d' t i now
  assume P: "tokens_extend ts d"
  show "insert_token t d = Inr d' \<Longrightarrow> tokens_extend ts d'" using P by (rule tokens_extend_insert)
  show "tokens_extend ts (update_token i (\<lambda>x. x\<lparr>t_revoked_at := Some now\<rparr>) d)"
    using P by (rule tokens_extend_revoke)
qed (auto simp: insert_org_Inr insert_version_Inr insert_audit_Inr update_version_def
    dest!: upsert_package_row_frame intro: tokens_extend_same)

section \<open>What every run keeps\<close>

lemma commits_db_ok: "commits E whole x y \<Longrightarrow> db_ok (fst x) \<Longrightarrow> db_ok (fst y)"
  by (rule wellformed.commits_keep)

lemma commits_chain_inv:
  "commits E whole x y \<Longrightarrow> hex_digests E \<Longrightarrow> chain_inv E (fst x) \<Longrightarrow> chain_inv E (fst y)"
  using integrity.commits_keep by blast

lemma commits_hashed:
  "commits E whole x y \<Longrightarrow> hex_digests E \<Longrightarrow> all_hashed (fst x) \<Longrightarrow> all_hashed (fst y)"
  using hashed.commits_keep by blast

lemma commits_audits: "commits E whole x y \<Longrightarrow> prefix (audits (fst x)) (audits (fst y))"
  by (erule log_history.commits_keep) simp

lemma commits_tokens: "commits E whole x y \<Longrightarrow> tokens_extend (tokens (fst x)) (fst y)"
  by (erule credentials.commits_keep) (rule tokens_extend_refl)

lemma commits_org:
  assumes "commits E whole x y" "org_by_slug s (fst x) = Some org"
  shows "org_by_slug s (fst y) = Some org"
proof -
  have "orgs_extend (orgs (fst x)) (fst y)"
    by (rule namespaces.commits_keep [OF assms(1)]) (simp add: orgs_extend_def)
  then obtain new where "orgs (fst y) = orgs (fst x) @ new"
    by (auto simp: orgs_extend_def prefix_def)
  with assms(2) show ?thesis by (simp add: org_by_slug_def find_append)
qed

section \<open>The catalogue\<close>

text \<open>A version row of an intact database has the coordinate its package and org give it.\<close>

lemma row_coordinate:
  assumes ok: "db_ok d" and row: "v_package row \<in> p_id ` set (packages d)"
  shows "\<exists>s n org pkg. org_by_slug s d = Some org \<and> package_by_name (o_id org) n d = Some pkg \<and>
     v_package row = p_id pkg"
proof -
  from row obtain pkg where pkg: "pkg \<in> set (packages d)" "v_package row = p_id pkg" by auto
  with ok have "p_org pkg \<in> o_id ` set (orgs d)" by (simp add: db_ok_def fk_ok_def)
  then obtain org where org: "org \<in> set (orgs d)" "p_org pkg = o_id org" by auto
  have "org_by_slug (o_slug org) d = Some org" "package_by_name (o_id org) (p_name pkg) d = Some pkg"
    using org pkg by (simp_all add: org_by_slug_iff [OF ok] package_by_name_iff [OF ok])
  with pkg(2) show ?thesis by blast
qed

lemma released_catalog:
  assumes ok: "db_ok d" and up: "upsert_package_row p d = Inr d1"
    and ins: "insert_version row d1 = Inr d2" and new: "\<not> v_yanked row"
  shows "catalog_step (catalog d) (catalog d2)"
proof -
  have ok1: "db_ok d1" by (rule upsert_package_row_ok [OF ok up])
  have "v_package row \<in> p_id ` set (packages d1)" using ins by (simp add: insert_version_Inr)
  from row_coordinate [OF ok1 this] obtain s n org pkg where
    o': "org_by_slug s d1 = Some org" "package_by_name (o_id org) n d1 = Some pkg" "v_package row = p_id pkg"
    by blast
  from catalog_insert_version [OF ok1 ins o'] catalog_upsert [OF ok up] new show ?thesis
    by (auto simp: entry_def intro: catalog_step.Release)
qed

lemma flagged_catalog:
  assumes ok: "db_ok d"
  shows "catalog_step (catalog d) (catalog (update_version i (\<lambda>x. x\<lparr>v_yanked := y\<rparr>) d))"
proof (cases "i \<in> v_id ` set (versions d)")
  case True
  then obtain row where row: "row \<in> set (versions d)" "v_id row = i" by auto
  with ok have "v_package row \<in> p_id ` set (packages d)" by (simp add: db_ok_def fk_ok_def)
  from row_coordinate [OF ok this] obtain s n org pkg where
    o': "org_by_slug s d = Some org" "package_by_name (o_id org) n d = Some pkg" "v_package row = p_id pkg"
    by blast
  have v: "version_by_name (p_id pkg) (v_version row) d = Some row"
    using row o'(3) by (simp add: version_by_name_iff [OF ok])
  have "v_id r = i \<longleftrightarrow> r = row" if "r \<in> set (versions d)" for r
    using that row db_okD(9) [OF ok] by (auto dest: distinct_map_unique)
  then have vs: "versions (update_version i (\<lambda>x. x\<lparr>v_yanked := y\<rparr>) d) =
      map_where (\<lambda>r. r = row) (\<lambda>r. r\<lparr>v_yanked := y\<rparr>) (versions d)"
    by (auto simp: update_version_def map_where_def)
  have "catalog d (s, n, v_version row) = Some (v_sha256 row, v_yanked row)"
    using o' v by (simp add: catalog_def entry_def)
  with catalog_yank [OF ok o'(1,2) v _ _ vs] show ?thesis
    by (auto simp: update_version_def intro: catalog_step.Flag)
next
  case False
  then have "v_id r \<noteq> i" if "r \<in> set (versions d)" for r using that by auto
  then have "update_version i (\<lambda>x. x\<lparr>v_yanked := y\<rparr>) d = d"
    by (simp add: update_version_def map_where_def cong: map_cong)
  then show ?thesis by (simp add: catalog_step.Stutter)
qed

lemma commit_catalog:
  assumes "commit E whole (d, s) (d', s')" "db_ok d"
  shows "catalog_step (catalog d) (catalog d')"
  using assms(1)
proof cases
  case New_Token
  with catalog_cong [of d' d] show ?thesis by (simp add: insert_token_Inr) (metis catalog_step.Stutter)
next
  case New_Org
  with catalog_insert_org [OF assms(2)] show ?thesis by (metis catalog_step.Stutter)
next
  case (Revoked i now)
  with catalog_cong [of d' d] show ?thesis by (simp add: update_token_def catalog_step.Stutter)
next
  case (Embedded es)
  with catalog_cong [of d' d] show ?thesis by (simp add: catalog_step.Stutter)
next
  case Appended
  with catalog_cong [of d' d] show ?thesis by (simp add: insert_audit_Inr) (metis catalog_step.Stutter)
qed (auto intro: released_catalog [OF assms(2)] flagged_catalog [OF assms(2)] catalog_step.Stutter)

lemma commits_catalog:
  assumes "commits E whole x y" "db_ok (fst x)"
  shows "catalog_step\<^sup>*\<^sup>* (catalog (fst x)) (catalog (fst y))"
  using assms
proof (induction rule: rtranclp_induct)
  case (step y z)
  have "db_ok (fst y)" by (rule commits_db_ok [OF step.hyps(1) step.prems])
  with step.hyps(2) have "catalog_step (catalog (fst y)) (catalog (fst z))"
    by (cases y; cases z) (auto intro: commit_catalog)
  with step.IH [OF step.prems] show ?case by (metis rtranclp.rtrancl_into_rtrancl)
qed simp

section \<open>The audit chains under concurrency\<close>

text \<open>
  The tip an append read is either still the tip, or the position after it has been taken, in
  which case the unique index refuses the insert: a stale read never forks the chain.
\<close>

lemma audit_tip_cong: "org_rows org d' = org_rows org d \<Longrightarrow> audit_tip org d' = audit_tip org d"
  by (simp add: audit_tip_def org_rows_def)

definition tip_current :: "uuid \<Rightarrow> audit_row option \<Rightarrow> database \<Rightarrow> bool" where
  "tip_current org tip d \<longleftrightarrow> audit_tip org d = tip \<or> (org, tip_seq tip + 1) \<in> audit_key ` set (audits d)"

lemma commit_audits:
  assumes "commit E whole (d, s) (d', s')"
  shows "audits d' = audits d \<or>
     (\<exists>org x. a_org x = org \<and> a_seq x = tip_seq (audit_tip org d) + 1 \<and> audits d' = audits d @ [x])"
  using assms
  by cases (auto simp: insert_token_Inr insert_org_Inr update_token_def update_version_def
      insert_audit_Inr insert_version_Inr dest!: upsert_package_row_frame)

lemma tip_current_commit:
  assumes "commit E whole (d, s) (d', s')" "tip_current org tip d"
  shows "tip_current org tip d'"
proof (cases "audits d' = audits d")
  case True
  with assms(2) show ?thesis by (simp add: tip_current_def audit_tip_def)
next
  case False
  with commit_audits [OF assms(1)] obtain x where
    x: "a_seq x = tip_seq (audit_tip (a_org x) d) + 1" "audits d' = audits d @ [x]" by blast
  show ?thesis
  proof (cases "audit_tip org d = tip")
    case True
    show ?thesis
    proof (cases "a_org x = org")
      case True
      then have "audit_key x = (org, tip_seq tip + 1)"
        using x(1) \<open>audit_tip org d = tip\<close> by (simp only: audit_key_def)
      moreover have "x \<in> set (audits d')" by (simp add: x(2))
      ultimately show ?thesis unfolding tip_current_def by force
    next
      case False
      then have "org_rows org d' = org_rows org d" by (simp add: org_rows_def x(2))
      from audit_tip_cong [OF this] True show ?thesis by (simp only: tip_current_def) simp
    qed
  next
    case False
    with assms(2) x(2) show ?thesis by (auto simp: tip_current_def)
  qed
qed

lemma tip_current_commits: "commits E whole x y \<Longrightarrow> tip_current org tip (fst x) \<Longrightarrow> tip_current org tip (fst y)"
proof (induction rule: rtranclp_induct)
  case (step y z)
  then show ?case by (cases y; cases z) (auto intro: tip_current_commit)
qed

lemma stale_append:
  assumes "tip_current org tip d"
    and ins: "insert_audit (append_row E org tok act sub det tip now i) d = Inr d'"
  shows "commit E whole (d, s) (d', s)"
proof -
  have "(org, tip_seq tip + 1) \<notin> audit_key ` set (audits d)"
    using ins by (auto simp: insert_audit_Inr audit_key_def)
  with assms have "audit_tip org d = tip" by (simp add: tip_current_def)
  with ins show ?thesis by (auto intro: commit.Appended)
qed

section \<open>The artifacts\<close>

lemma uploaded_held:
  assumes "store_put io (artifact_key (sha256_hex E bs) ext) bs s = (Inr (), s')"
  shows "held E whole (sha256_hex E bs) ext s'"
  using any_store.put_ok [OF assms] by (simp add: held_def)

lemma held_put:
  assumes put: "store_put io (artifact_key (sha256_hex E bs) ext') bs s = (r, s')"
    and clean: "whole \<longrightarrow> clean_io io" and hex: "whole \<longrightarrow> hex_digests E" and h: "held E whole sha ext s"
    and addr: "whole \<longrightarrow> (\<exists>b. sha = sha256_hex E b)"
  shows "held E whole sha ext s'"
proof -
  let ?key = "artifact_key (sha256_hex E bs) ext'"
  have keep: "stored s' (artifact_key sha ext) \<noteq> None"
    using any_store.put_available [of ?key "artifact_key sha ext" s io bs] put h by (simp add: held_def)
  show ?thesis
  proof (cases whole)
    case False
    with keep show ?thesis by (simp add: held_def)
  next
    case True
    with clean have io: "clean_io io" and hex: "hex_digests E" using hex by auto
    have cput: "store_put_clean io ?key bs s = (r, s')" using put store_put_clean_eq [OF io] by simp
    from h True obtain b where b: "stored s (artifact_key sha ext) = Some b" "sha256_hex E b = sha"
      by (auto simp: held_def)
    have "\<exists>b. stored s' (artifact_key sha ext) = Some b \<and> sha256_hex E b = sha"
    proof (cases "artifact_key sha ext = ?key")
      case True
      then have "sha256_hex E bs = sha" using artifact_key_sha [OF hex] b(2) by metis
      with clean_store.put_result [OF cput] True b show ?thesis by auto
    next
      case False
      with any_store.put_other [OF put] b show ?thesis by simp
    qed
    with keep show ?thesis by (simp add: held_def)
  qed
qed

lemma held_commit:
  assumes "commit E whole (d, s) (d', s')" "whole \<longrightarrow> hex_digests E" "held E whole sha ext s"
  shows "held E whole sha ext s'"
  using assms(1)
proof cases
  case (Uploaded io bs ext' r)
  from assms(3) have "whole \<longrightarrow> (\<exists>b. sha = sha256_hex E b)" by (auto simp: held_def)
  with held_put [OF Uploaded(2)] Uploaded assms show ?thesis by blast
qed (use assms in auto)

lemma held_commits:
  assumes "commits E whole x y" "whole \<longrightarrow> hex_digests E" "held E whole sha ext (snd x)"
  shows "held E whole sha ext (snd y)"
  using assms
proof (induction rule: rtranclp_induct)
  case (step y z)
  then show ?case by (cases y; cases z) (auto intro: held_commit)
qed

text \<open>Every version row is backed, in every state the machine reaches from one where it was so.\<close>

definition all_backed :: "externals \<Rightarrow> bool \<Rightarrow> shared \<Rightarrow> bool" where
  "all_backed E whole x \<longleftrightarrow> (\<forall>row\<in>set (versions (fst x)). backed E whole row (snd x))"

lemma backed_frozen: "frozen r = frozen r' \<Longrightarrow> backed E whole r s = backed E whole r' s"
proof -
  assume "frozen r = frozen r'"
  then have "v_artifact_key r = v_artifact_key r' \<and> v_sha256 r = v_sha256 r' \<and> v_format r = v_format r'"
    by (metis (no_types) frozen_eq version_row.select_convs version_row.surjective version_row.update_convs(10))
  then show ?thesis by (simp add: backed_def)
qed

lemma commit_versions:
  assumes "commit E whole (d, s) (d', s')"
  shows "map frozen (versions d') = map frozen (versions d) \<or>
     (\<exists>row. versions d' = versions d @ [row] \<and> backed E whole row s')"
  using assms
  by cases (auto simp: insert_token_Inr insert_org_Inr update_token_def update_version_def
      insert_audit_Inr insert_version_Inr map_map_where frozen_def dest!: upsert_package_row_frame)

lemma all_backed_commit:
  assumes "commit E whole (d, s) (d', s')" "whole \<longrightarrow> hex_digests E" "all_backed E whole (d, s)"
  shows "all_backed E whole (d', s')"
proof -
  have old: "backed E whole r s'" if "r \<in> set (versions d)" for r
    using that assms held_commit [OF assms(1,2)] by (auto simp: all_backed_def backed_def)
  from commit_versions [OF assms(1)] show ?thesis
  proof
    assume eq: "map frozen (versions d') = map frozen (versions d)"
    have "backed E whole r s'" if "r \<in> set (versions d')" for r
    proof -
      have "frozen r \<in> frozen ` set (versions d)" using that eq by (metis image_eqI set_map)
      then obtain q where "q \<in> set (versions d)" "frozen r = frozen q" by auto
      with old backed_frozen show ?thesis by metis
    qed
    then show ?thesis by (simp add: all_backed_def)
  qed (use old in \<open>auto simp: all_backed_def\<close>)
qed

lemma all_backed_commits:
  assumes "commits E whole x y" "whole \<longrightarrow> hex_digests E" "all_backed E whole x"
  shows "all_backed E whole y"
  using assms
proof (induction rule: rtranclp_induct)
  case (step y z)
  then show ?case by (cases y; cases z) (auto intro: all_backed_commit)
qed

end
