(* ===== verification/Process.thy ===== *)
theory Process
  imports Commits
begin

text \<open>
  Handlers as processes. An \<open>async\<close> handler gives way to others at every \<open>.await\<close>, so it is a
  resumption: it is done, or it performs one atomic action on the world (one statement, one
  committed transaction tail, one store operation, one clock read) and goes on. Running a process
  without interruption gives back the sequential handler; \<open>safe\<close> is the rely-guarantee judgement
  under which processes are composed, both the rely and the guarantee being any number of steps
  of the machine of \<open>Commits\<close>.
\<close>

section \<open>Resumptions\<close>

datatype 'a proc = Done 'a | Act "world \<Rightarrow> 'a proc \<times> world"

primrec run_proc :: "'a proc \<Rightarrow> world \<Rightarrow> 'a \<times> world" where
  "run_proc (Done x) = (\<lambda>w. (x, w))"
| "run_proc (Act f) = (\<lambda>w. case (map_prod run_proc id \<circ> f) w of (go, w') \<Rightarrow> go w')"

primrec bind_proc :: "'a proc \<Rightarrow> ('a \<Rightarrow> 'b proc) \<Rightarrow> 'b proc" where
  "bind_proc (Done x) k = k x"
| "bind_proc (Act f) k = Act (map_prod (\<lambda>p. bind_proc p k) id \<circ> f)"

definition atomic :: "(world \<Rightarrow> 'a \<times> world) \<Rightarrow> 'a proc" where
  "atomic m = Act (map_prod Done id \<circ> m)"

definition thenP :: "('e + 'a) proc \<Rightarrow> ('a \<Rightarrow> ('e + 'b) proc) \<Rightarrow> ('e + 'b) proc" where
  "thenP p k = bind_proc p (\<lambda>r. case r of Inl e \<Rightarrow> Done (Inl e) | Inr x \<Rightarrow> k x)"

text \<open>
  The tail of a transaction: its writes become visible at the commit, and only then; a failure of
  the writes or of the commit leaves nothing.
\<close>

definition and_commit :: "(db_err \<Rightarrow> 'e) \<Rightarrow> ('e, 'a) io \<Rightarrow> ('e, 'a) io" where
  "and_commit conv writes w =
     (case writes w of
        (Inl e, w1) \<Rightarrow> (Inl e, w1\<lparr>db := db w\<rparr>)
      | (Inr x, w1) \<Rightarrow>
          (case select (\<lambda>_. ()) w1 of
             (Inl e, w2) \<Rightarrow> (Inl (conv e), w2\<lparr>db := db w\<rparr>)
           | (Inr _, w2) \<Rightarrow> (Inr x, w2)))"

lemma run_bind: "run_proc (bind_proc p k) w = (case run_proc p w of (x, w') \<Rightarrow> run_proc (k x) w')"
proof (induction p arbitrary: w)
  case (Act f)
  obtain p w' where f: "f w = (p, w')" by (cases "f w")
  have "run_proc (bind_proc p k) w' = (case run_proc p w' of (x, w'') \<Rightarrow> run_proc (k x) w'')"
    by (rule Act.IH [of "f w" p]) (metis f rangeI, simp add: f)
  then show ?case by (simp add: f)
qed simp

lemma run_atomic [simp]: "run_proc (atomic m) = m"
proof
  show "run_proc (atomic m) w = m w" for w by (cases "m w") (simp add: atomic_def)
qed

lemma run_thenP [simp]: "run_proc (thenP p k) = andThen (run_proc p) (\<lambda>x. run_proc (k x))"
  by (rule ext) (simp add: thenP_def run_bind andThen_def split: prod.split sum.split)

lemma run_bind_inspect: "run_proc (bind_proc p k) = inspect (run_proc p) (\<lambda>r. run_proc (k r))"
  by (rule ext) (simp add: run_bind inspect_def)

lemma run_Done [simp]: "run_proc (Done r) = lift r"
  by (rule ext) simp

lemma lift_ret: "lift (Inr x) = ret x" "lift (Inl e) = fail e"
  by (rule ext, simp)+

lemma in_txn_tail: "in_txn conv body = andThen (map_err conv (select (\<lambda>_. ()))) (\<lambda>_. and_commit conv body)"
proof
  fix w
  show "in_txn conv body w = andThen (map_err conv (select (\<lambda>_. ()))) (\<lambda>_. and_commit conv body) w"
    by (auto simp: in_txn_def and_commit_def andThen_def map_err_def select_eq
        split: option.splits prod.splits sum.splits)
qed

lemma and_commit_reads:
  assumes "pure_read m"
  shows "and_commit conv (andThen m k) = andThen m (\<lambda>x. and_commit conv (k x))"
proof
  fix w
  obtain r w1 where r: "m w = (r, w1)" by (cases "m w")
  have "db w1 = db w" using pure_readD [OF assms r] by simp
  then show "and_commit conv (andThen m k) w = andThen m (\<lambda>x. and_commit conv (k x)) w"
    by (cases r) (simp_all add: and_commit_def andThen_def r split: prod.split sum.split)
qed

section \<open>The judgement\<close>

definition events_ok :: "bool \<Rightarrow> world \<Rightarrow> bool" where
  "events_ok whole w \<longleftrightarrow> (whole \<longrightarrow> clean_events w)"

text \<open>The guarantee of one action: it is a run of the machine, and it leaves the I/O schedule alone.\<close>

definition advances :: "externals \<Rightarrow> bool \<Rightarrow> world \<Rightarrow> world \<Rightarrow> bool" where
  "advances E whole w w' \<longleftrightarrow> commits E whole (shared w) (shared w') \<and> io_events w' = io_events w"

lemma advances_refl [simp]: "advances E whole w w"
  by (simp add: advances_def)

lemma advances_next_call [simp]: "advances E whole w (next_call w)"
  by (simp add: advances_def shared_def)

lemma advances_commits: "advances E whole w w' \<Longrightarrow> commits E whole (shared w) (shared w')"
  by (simp add: advances_def)

lemma advances_trans: "advances E whole w w' \<Longrightarrow> advances E whole w' w'' \<Longrightarrow> advances E whole w w''"
  by (auto simp: advances_def)

lemma advances_events: "advances E whole w w' \<Longrightarrow> events_ok whole w \<Longrightarrow> events_ok whole w'"
  by (simp add: advances_def events_ok_def clean_events_def)

lemma pure_read_advances: "pure_read m \<Longrightarrow> m w = (r, w') \<Longrightarrow> advances E whole w w'"
  by (metis advances_def pure_readD pure_read_def rtranclp.rtrancl_refl shared_def snd_conv)

inductive safe ::
    "externals \<Rightarrow> bool \<Rightarrow> (shared \<Rightarrow> 'a \<Rightarrow> bool) \<Rightarrow> shared \<Rightarrow> 'a proc \<Rightarrow> bool" for E whole Q where
  Done: "Q s x \<Longrightarrow> safe E whole Q s (Done x)"
| Act: "(\<And>w p w'. commits E whole s (shared w) \<Longrightarrow> events_ok whole w \<Longrightarrow> f w = (p, w') \<Longrightarrow>
           advances E whole w w' \<and> safe E whole Q (shared w') p) \<Longrightarrow>
        safe E whole Q s (Act f)"

inductive_cases safe_ActE: "safe E whole Q s (Act f)"
inductive_simps safe_Done [simp]: "safe E whole Q s (Done x)"

lemma safe_step:
  "safe E whole Q s (Act f) \<Longrightarrow> commits E whole s (shared w) \<Longrightarrow> events_ok whole w \<Longrightarrow> f w = (p, w') \<Longrightarrow>
     advances E whole w w' \<and> safe E whole Q (shared w') p"
  by (erule safe_ActE) blast

lemma safe_later: "safe E whole Q s (Act f) \<Longrightarrow> commits E whole s s' \<Longrightarrow> safe E whole Q s' (Act f)"
  by (rule safe.Act) (meson rtranclp_trans safe_step)

lemma safe_bind:
  assumes "safe E whole Q s p"
    and "\<And>s' x. commits E whole s s' \<Longrightarrow> Q s' x \<Longrightarrow> safe E whole R s' (k x)"
  shows "safe E whole R s (bind_proc p k)"
  using assms
proof (induction rule: safe.induct)
  case (Act s f)
  show ?case
    unfolding bind_proc.simps
  proof (rule safe.Act)
    fix w q w' assume w: "commits E whole s (shared w)" "events_ok whole w"
      and q: "(map_prod (\<lambda>p. bind_proc p k) id \<circ> f) w = (q, w')"
    then obtain p where p: "f w = (p, w')" "q = bind_proc p k"
      by (cases "f w") simp
    have c: "advances E whole w w'" using Act.IH [OF w p(1)] by blast
    have "safe E whole R (shared w') (bind_proc p k)"
      using Act.IH [OF w p(1)] Act.prems w(1) advances_commits [OF c] by (meson rtranclp_trans)
    with c p(2) show "advances E whole w w' \<and> safe E whole R (shared w') q" by simp
  qed
qed simp

lemma safe_thenP:
  assumes "safe E whole Q s p"
    and "\<And>s' x. commits E whole s s' \<Longrightarrow> Q s' (Inr x) \<Longrightarrow> safe E whole R s' (k x)"
    and "\<And>s' e. commits E whole s s' \<Longrightarrow> Q s' (Inl e) \<Longrightarrow> R s' (Inl e)"
  shows "safe E whole R s (thenP p k)"
  unfolding thenP_def by (rule safe_bind [OF assms(1)]) (use assms in \<open>auto split: sum.split\<close>)

lemma safe_atomic:
  assumes "\<And>w r w'. commits E whole s (shared w) \<Longrightarrow> events_ok whole w \<Longrightarrow> m w = (r, w') \<Longrightarrow>
      advances E whole w w' \<and> Q (shared w') r"
  shows "safe E whole Q s (atomic m)"
  unfolding atomic_def
proof (rule safe.Act)
  fix w p w' assume w: "commits E whole s (shared w)" "events_ok whole w"
    and "(map_prod Done id \<circ> m) w = (p, w')"
  then obtain r where "m w = (r, w')" "p = Done r" by (cases "m w") simp
  with assms [OF w] show "advances E whole w w' \<and> safe E whole Q (shared w') p" by simp
qed

lemma safe_mono:
  assumes "safe E whole Q s p" "\<And>s' x. commits E whole s s' \<Longrightarrow> Q s' x \<Longrightarrow> R s' x"
  shows "safe E whole R s p"
  using assms
proof (induction rule: safe.induct)
  case (Act s f)
  show ?case
    by (rule safe.Act) (meson Act.IH Act.prems advances_commits rtranclp_trans)
qed simp

section \<open>Actions that are moves of the machine\<close>

named_theorems moves_intro "actions that are steps of the machine wherever they start"

definition moves :: "externals \<Rightarrow> bool \<Rightarrow> (world \<Rightarrow> 'a \<times> world) \<Rightarrow> bool" where
  "moves E whole m \<longleftrightarrow> (\<forall>w r w'. m w = (r, w') \<longrightarrow> advances E whole w w')"

lemma movesI:
  "(\<And>w r w'. m w = (r, w') \<Longrightarrow> advances E whole w w') \<Longrightarrow> moves E whole m"
  by (simp add: moves_def)

lemma movesD: "moves E whole m \<Longrightarrow> m w = (r, w') \<Longrightarrow> advances E whole w w'"
  by (simp add: moves_def)

lemma moves_pure: "pure_read m \<Longrightarrow> moves E whole m"
  by (rule movesI) (rule pure_read_advances)

lemmas moves_reads [moves_intro] = pure_read_intros [THEN moves_pure]

lemma moves_cases [moves_intro]:
  "moves E whole m \<Longrightarrow> moves E whole n \<Longrightarrow> moves E whole (if b then m else n)"
  "moves E whole m \<Longrightarrow> (\<And>x. moves E whole (k x)) \<Longrightarrow>
     moves E whole (case v of None \<Rightarrow> m | Some x \<Rightarrow> k x)"
  by (auto split: option.splits)

lemma moves_andThen [moves_intro]:
  assumes "moves E whole m" "\<And>x. moves E whole (k x)"
  shows "moves E whole (andThen m k)"
proof (rule movesI)
  fix w r w' assume run: "andThen m k w = (r, w')"
  obtain q w1 where q: "m w = (q, w1)" by (cases "m w")
  show "advances E whole w w'"
  proof (cases q)
    case (Inl e)
    with run q assms(1) show ?thesis by (simp add: andThen_def moves_def)
  next
    case (Inr x)
    with run q have "k x w1 = (r, w')" by (simp add: andThen_def)
    with q assms show ?thesis unfolding moves_def by (metis advances_trans)
  qed
qed

lemma moves_inspect [moves_intro]:
  assumes "moves E whole m" "\<And>r. moves E whole (k r)"
  shows "moves E whole (inspect m k)"
proof (rule movesI)
  fix w r w' assume run: "inspect m k w = (r, w')"
  obtain q w1 where q: "m w = (q, w1)" by (cases "m w")
  with run have "k q w1 = (r, w')" by (simp add: inspect_def)
  with q assms show "advances E whole w w'"
    unfolding moves_def by (metis advances_trans)
qed

lemma moves_map_err [moves_intro]: "moves E whole m \<Longrightarrow> moves E whole (map_err f m)"
  by (auto simp: moves_def map_err_def split: prod.splits)

lemma moves_insert [moves_intro]:
  assumes "\<And>d d' s. ins r d = Inr d' \<Longrightarrow> commit E whole (d, s) (d', s)"
  shows "moves E whole (insert_stmt ins r)"
proof (rule movesI)
  fix w q w' assume run: "insert_stmt ins r w = (q, w')"
  show "advances E whole w w'"
    using run assms [of "db w" _ "store w"]
    by (cases q) (auto simp: insert_stmt_Inr insert_stmt_Inl shared_def advances_def)
qed

lemma moves_update [moves_intro]:
  assumes "\<And>d s. commit E whole (d, s) (f d, s)"
  shows "moves E whole (update_stmt f)"
proof (rule movesI)
  fix w q w' assume run: "update_stmt f w = (q, w')"
  show "advances E whole w w'"
    using run assms [of "db w" "store w"]
    by (cases q) (auto simp: update_stmt_Inr update_stmt_Inl shared_def advances_def)
qed

lemma safe_moves: "moves E whole m \<Longrightarrow> safe E whole (\<lambda>_ _. True) s (atomic m)"
  by (rule safe_atomic) (simp add: movesD)

text \<open>One action that only reads, and what follows it.\<close>

lemma safe_read_then:
  assumes "pure_read m" "\<And>s' x. commits E whole s s' \<Longrightarrow> safe E whole R s' (k x)"
    and "\<And>s' e. R s' (Inl e)"
  shows "safe E whole R s (thenP (atomic m) k)"
  by (rule safe_thenP [OF safe_moves [OF moves_pure [OF assms(1)]]]) (use assms in auto)

text \<open>The same when what follows depends on what was read, and on its being true when it was.\<close>

lemma safe_read_known:
  assumes m: "pure_read m"
    and k: "\<And>w x w'. commits E whole s (shared w) \<Longrightarrow> m w = (Inr x, w') \<Longrightarrow> safe E whole R (shared w) (k x)"
    and e: "\<And>s' e. R s' (Inl e)"
  shows "safe E whole R s (thenP (atomic m) k)"
proof -
  let ?Q = "\<lambda>s' r. case r of Inl _ \<Rightarrow> True
    | Inr x \<Rightarrow> \<exists>w w'. commits E whole s (shared w) \<and> m w = (Inr x, w') \<and> shared w = s'"
  have "safe E whole ?Q s (atomic m)"
  proof (rule safe_atomic)
    fix w r w' assume w: "commits E whole s (shared w)" and run: "m w = (r, w')"
    have "shared w' = shared w" using pure_readD [OF m run] by (simp add: shared_def)
    with w run pure_read_advances [OF m run] show "advances E whole w w' \<and> ?Q (shared w') r"
      by (auto split: sum.splits)
  qed
  then show ?thesis
  proof (rule safe_thenP)
    fix s' x assume "?Q s' (Inr x)"
    then obtain w w' where "commits E whole s (shared w)" "m w = (Inr x, w')" "shared w = s'" by auto
    with k show "safe E whole R s' (k x)" by metis
  qed (rule e)
qed

lemma safe_case_prod: "(\<And>a b. safe E whole R s (k a b)) \<Longrightarrow> safe E whole R s (case x of (a, b) \<Rightarrow> k a b)"
  by (cases x) simp

lemma safe_case_option:
  "safe E whole R s p \<Longrightarrow> (\<And>a. safe E whole R s (k a)) \<Longrightarrow>
     safe E whole R s (case v of None \<Rightarrow> p | Some a \<Rightarrow> k a)"
  by (cases v) simp_all

lemma safe_if: "safe E whole R s p \<Longrightarrow> safe E whole R s q \<Longrightarrow> safe E whole R s (if b then p else q)"
  by simp

end
