(* ===== verification/Concurrent.thy ===== *)
theory Concurrent
  imports Process
begin

text \<open>
  The mutating handlers as processes, action by action as their sequential definitions have
  them, and the registry that serves any number of them at once: requests arrive, actions
  interleave, clients and replicas vanish in the middle, and the environment chooses clocks,
  identifiers and failures anew at any time. Each process run without interruption is the
  handler; every interleaving of all of them is a run of the machine of \<open>Commits\<close>.
\<close>

section \<open>Authentication\<close>

definition operator_proc :: "externals \<Rightarrow> (api_err + token_row) proc" where
  "operator_proc E =
     thenP (atomic (dbq (select (token_by_id operator_id)))) (\<lambda>found.
       case found of
         Some row \<Rightarrow> atomic (ret row)
       | None \<Rightarrow>
           thenP (atomic utc_now) (\<lambda>now.
           bind_proc (atomic (insert_stmt insert_token (operator_row E now))) (\<lambda>inserted.
             case inserted of
               Inr row \<Rightarrow> atomic (ret row)
             | Inl error \<Rightarrow>
                 thenP (atomic (dbq (select (token_by_id operator_id)))) (\<lambda>again.
                   atomic (or_else again (from_db_err error))))))"

definition require_proc :: "externals \<Rightarrow> app_state \<Rightarrow> string option \<Rightarrow> (api_err + token_row) proc" where
  "require_proc E st header =
     (if auth_disabled st then operator_proc E else atomic (require_token E st header))"

lemma run_require: "run_proc (require_proc E st h) = require_token E st h"
proof -
  have "run_proc (operator_proc E) = insecure_operator_token E"
    unfolding operator_proc_def insecure_operator_token_def
    by (rule ext) (simp add: run_bind_inspect andThen_def inspect_def split: prod.split sum.split option.split)
  then show ?thesis by (auto simp: require_proc_def require_token_def)
qed

lemma safe_operator: "safe E whole (\<lambda>_ _. True) s (operator_proc E)"
  unfolding operator_proc_def
  by (intro safe_read_then keeps_intro TrueI)
    (auto intro!: safe_read_then safe_moves [OF moves_pure] keeps_intro safe_bind [OF safe_moves [OF moves_insert]]
      commit.New_Token split: option.split sum.split)

lemma safe_require: "safe E whole (\<lambda>_ _. True) s (require_proc E st h)"
  by (auto simp: require_proc_def intro: safe_operator safe_moves [OF moves_pure [OF require_token_pure]])

section \<open>Appending to the audit log\<close>

definition append_proc ::
    "externals \<Rightarrow> app_state \<Rightarrow> uuid \<Rightarrow> token_row \<Rightarrow> audit_action \<Rightarrow> string \<Rightarrow> string option \<Rightarrow>
     (db_err + unit) proc" where
  "append_proc E st org token action subject detail =
     thenP (atomic (select (\<lambda>_. ()))) (\<lambda>_.
     thenP (atomic (if backend st = Postgres then select (\<lambda>_. ()) else ret ())) (\<lambda>_.
     thenP (atomic (select (audit_tip org))) (\<lambda>tip.
     thenP (atomic utc_now) (\<lambda>now.
     thenP (atomic new_uuid) (\<lambda>i.
       atomic (and_commit id (andThen (insert_stmt insert_audit
         (append_row E org token action subject detail tip now i)) (\<lambda>_. ret ()))))))))"

fun record_loop_proc :: "(db_err + unit) proc \<Rightarrow> nat \<Rightarrow> db_err option \<Rightarrow> (api_err + db_err option) proc" where
  "record_loop_proc attempt 0 last_error = Done (Inr last_error)"
| "record_loop_proc attempt (Suc n) last_error =
     bind_proc attempt (\<lambda>r.
       case r of
         Inr _ \<Rightarrow> Done (Inr None)
       | Inl error \<Rightarrow>
           if is_position_taken error then record_loop_proc attempt n (Some error)
           else Done (Inr (Some error)))"

definition record_proc ::
    "externals \<Rightarrow> app_state \<Rightarrow> uuid \<Rightarrow> token_row \<Rightarrow> audit_action \<Rightarrow> string \<Rightarrow> string option \<Rightarrow>
     (api_err + db_err option) proc" where
  "record_proc E st org token action subject detail =
     record_loop_proc (append_proc E st org token action subject detail) APPEND_ATTEMPTS None"

lemma map_err_id [simp]: "map_err id m = m"
  by (rule ext) (simp add: map_err_def sum.map_id0 split: prod.split)

lemma run_append: "run_proc (append_proc E st org tok act sub det) = append_chained E st org tok act sub det"
  unfolding append_proc_def append_chained_def in_txn_tail
  by (simp add: and_commit_reads pure_read_intros pure_read_cases)

lemma run_record_loop: "run_proc (record_loop_proc p n e) = record_loop (run_proc p) n e"
proof (induction n arbitrary: e)
  case (Suc n)
  then show ?case
    by (intro ext)
      (simp add: run_bind_inspect inspect_def lift_ret [symmetric] split: prod.split sum.split)
qed (rule ext, simp)

lemma run_record: "run_proc (record_proc E st org tok act sub det) = record_audit E st org tok act sub det"
  by (simp add: record_proc_def record_audit_def run_record_loop run_append)

text \<open>The insert of a row made from a tip that was read earlier.\<close>

lemma append_tail_commits:
  assumes tip: "tip_current org tip (db w)"
    and run: "and_commit id (andThen (insert_stmt insert_audit
        (append_row E org tok act sub det tip now i)) (\<lambda>_. ret ())) w = (r, w')"
  shows "advances E whole w w'"
proof -
  let ?x = "append_row E org tok act sub det tip now i"
  consider "shared w' = shared w" | d where "insert_audit ?x (db w) = Inr d" "shared w' = (d, store w)"
    using run
    by (auto simp: and_commit_def andThen_def insert_stmt_def statement_eq select_eq shared_def map_sum_Inr_iff
        split: option.splits sum.splits prod.splits)
  then have "commits E whole (shared w) (shared w')"
  proof cases
    case 2
    from stale_append [OF tip 2(1), of whole "store w"] 2(2) show ?thesis by (auto simp: shared_def)
  qed simp
  moreover have "io_events w' = io_events w"
    using run
    by (auto simp: and_commit_def andThen_def insert_stmt_def statement_eq select_eq
        split: option.splits sum.splits prod.splits)
  ultimately show ?thesis by (simp add: advances_def)
qed

lemma safe_append: "safe E whole (\<lambda>_ _. True) s (append_proc E st org tok act sub det)"
proof -
  let ?tail = "\<lambda>tip now i. atomic (and_commit id (andThen (insert_stmt insert_audit
         (append_row E org tok act sub det tip now i)) (\<lambda>_. ret ())))"
  have tail: "safe E whole (\<lambda>_ _. True) s1 (?tail tip now i)" if "tip_current org tip (fst s1)" for tip now i s1
  proof (rule safe_atomic)
    fix w r w' assume "commits E whole s1 (shared w)"
    from tip_current_commits [OF this that] have "tip_current org tip (db w)" by simp
    moreover assume "and_commit id (andThen (insert_stmt insert_audit
        (append_row E org tok act sub det tip now i)) (\<lambda>_. ret ())) w = (r, w')"
    ultimately show "advances E whole w w' \<and> True"
      by (simp add: append_tail_commits)
  qed
  have rest: "safe E whole (\<lambda>_ _. True) s1
      (thenP (atomic utc_now) (\<lambda>now. thenP (atomic new_uuid) (\<lambda>i. ?tail tip now i)))"
    if "tip_current org tip (fst s1)" for tip s1
    by (intro safe_read_then keeps_intro TrueI tail) (meson that rtranclp_trans tip_current_commits)
  have tip: "safe E whole (\<lambda>s' r. case r of Inl e \<Rightarrow> True | Inr tip \<Rightarrow> tip_current org tip (fst s')) s1
      (atomic (select (audit_tip org)))" for s1
    by (rule safe_atomic) (auto simp: select_eq tip_current_def shared_def split: option.splits)
  show ?thesis
    unfolding append_proc_def
    by (intro safe_read_then keeps_intro TrueI safe_thenP [OF tip] rest) simp_all
qed

lemma safe_record: "safe E whole (\<lambda>_ r. \<exists>x. r = Inr x) s (record_proc E st org tok act sub det)"
proof -
  have "safe E whole (\<lambda>_ r. \<exists>x. r = Inr x) s'
      (record_loop_proc (append_proc E st org tok act sub det) n e)" for s' n e
    by (induction n arbitrary: s' e)
      (auto intro!: safe_bind [OF safe_append] split: sum.split)
  then show ?thesis by (simp add: record_proc_def)
qed

section \<open>Publish\<close>

definition immutable_proc :: "org_row \<Rightarrow> string \<Rightarrow> string \<Rightarrow> string \<Rightarrow> (api_err + unit) proc" where
  "immutable_proc org org_slug name ver =
     thenP (atomic (find_package_row org name)) (\<lambda>found.
       case found of
         None \<Rightarrow> atomic (ret ())
       | Some pkg \<Rightarrow>
           thenP (atomic (dbq (select (version_by_name (p_id pkg) ver)))) (\<lambda>exists.
             atomic (if exists \<noteq> None then fail (version_exists org_slug name ver) else ret ())))"

text \<open>The first statement of the transaction is a write, so from there on it is one action.\<close>

definition publish_writes_proc ::
    "externals \<Rightarrow> app_state \<Rightarrow> string \<Rightarrow> string \<Rightarrow> string \<Rightarrow> token_row \<Rightarrow> org_row \<Rightarrow> publish_meta \<Rightarrow> bytes \<Rightarrow>
     (api_err + publish_response) proc" where
  "publish_writes_proc E st org_slug name ver token org meta artifact =
     (let sha = sha256_hex E artifact;
          key = artifact_key sha (format_extension E (meta_format meta))
      in thenP (atomic (map_err from_anyhow (put_artifact key artifact))) (\<lambda>_.
         thenP (atomic (publish_txn E org org_slug name ver meta sha (int (length artifact)) key)) (\<lambda>_.
         thenP (record_proc E st (o_id org) token Publish (coordinate org_slug name ver)
                  (Some (''sha256='' @ sha))) (\<lambda>_.
           atomic (ret \<lparr>pub_org = org_slug, pub_name = name, pub_version = ver, pub_sha256 = sha\<rparr>)))))"

definition publish_proc ::
    "externals \<Rightarrow> app_state \<Rightarrow> string option \<Rightarrow> string \<Rightarrow> string \<Rightarrow> string \<Rightarrow> form_event list \<Rightarrow>
     (api_err + publish_response) proc" where
  "publish_proc E st header org_slug name ver form =
     thenP (require_proc E st header) (\<lambda>token.
     thenP (atomic (dbq (select (org_by_slug org_slug)))) (\<lambda>found.
     thenP (atomic (or_else found (org_not_found org_slug))) (\<lambda>org.
     thenP (atomic (lift (authorize_publish (t_org token) (role_parse (t_role token)) (o_id org)))) (\<lambda>_.
     thenP (atomic (lift (read_multipart E form))) (\<lambda>(meta, artifact).
     thenP (atomic (lift (check_body E org_slug name ver meta artifact))) (\<lambda>_.
     thenP (atomic (lift (check_tag E st meta))) (\<lambda>_.
     thenP (immutable_proc org org_slug name ver) (\<lambda>_.
       publish_writes_proc E st org_slug name ver token org meta artifact))))))))"

lemma run_immutable: "run_proc (immutable_proc org s n v) = check_immutable org s n v"
  unfolding immutable_proc_def check_immutable_def
  by (simp, rule arg_cong [where f = "andThen _"], rule ext)
    (simp split: option.split)

lemma run_publish: "run_proc (publish_proc E st h s n v form) = publish E st h s n v form"
  by (simp add: publish_proc_def publish_def publish_writes_proc_def Let_def run_require run_immutable
      run_record split_def)

lemma safe_immutable: "safe E whole (\<lambda>_ _. True) s (immutable_proc org sl n v)"
  unfolding immutable_proc_def find_package_row_def
  by (intro safe_read_then keeps_intro TrueI)
    (auto intro!: safe_read_then safe_moves [OF moves_pure] keeps_intro split: option.split)

lemma put_commits:
  assumes "map_err f (put_artifact (artifact_key (sha256_hex E bs) ext) bs) w = (r, w')" "events_ok whole w"
  shows "advances E whole w w' \<and>
     (case r of Inl _ \<Rightarrow> True | Inr _ \<Rightarrow> held E whole (sha256_hex E bs) ext (snd (shared w')))"
proof -
  let ?io = "io_result (io_events w (io_calls w))"
  obtain q s' where put: "store_put ?io (artifact_key (sha256_hex E bs) ext) bs (store w) = (q, s')"
    by (metis prod.collapse)
  have w': "db w' = db w" "store w' = s'" "r = map_sum f id q" "io_events w' = io_events w"
    using assms(1) put by (auto simp: map_err_def put_artifact_def)
  have "whole \<longrightarrow> clean_io ?io" using assms(2) by (simp add: events_ok_def clean_events_def)
  from commit.Uploaded [OF put this, of "db w"] have "advances E whole w w'"
    unfolding advances_def shared_def w'(1,2,4) by blast
  moreover have "held E whole (sha256_hex E bs) ext s'" if "q = Inr u" for u
    using uploaded_held put that by simp
  ultimately show ?thesis using w' by (cases q) simp_all
qed

lemma txn_commits:
  assumes run: "publish_txn E org sl n v meta (sha256_hex E bs) len
      (artifact_key (sha256_hex E bs) (format_extension E (meta_format meta))) w = (r, w')"
    and held: "held E whole (sha256_hex E bs) (format_extension E (meta_format meta)) (store w)"
  shows "advances E whole w w'"
    and "r = Inr u \<Longrightarrow> db_ok (db w) \<Longrightarrow> org_by_slug sl (db w) = Some org \<Longrightarrow>
       catalog (db w) (sl, n, v) = None \<and> catalog (db w') (sl, n, v) = Some (sha256_hex E bs, False)"
proof -
  let ?sha = "sha256_hex E bs" and ?ext = "format_extension E (meta_format meta)"
  have st: "store w' = store w" "io_events w' = io_events w"
    using keeps_storeD [OF publish_txn_keeps_store run] keeps_store_events [OF publish_txn_keeps_store run] .
  {
    fix x assume "r = Inr x"
    with publish_txn_Inr [of E org sl n v meta ?sha len "artifact_key ?sha ?ext" w w'] run
    obtain d1 pkg i now j now' where
      up: "upsert_package_row (manifest_package i now org n (meta_manifest meta)) (db w) = Inr d1"
      and pkg: "package_by_name (o_id org) n d1 = Some pkg"
      and ins: "insert_version (new_version E j now' pkg v meta ?sha len (artifact_key ?sha ?ext)) d1 = Inr (db w')"
      by auto
    let ?row = "new_version E j now' pkg v meta ?sha len (artifact_key ?sha ?ext)"
    have row: "v_package ?row = p_id pkg" "v_version ?row = v" "entry ?row = (?sha, False)"
      "\<not> v_yanked ?row" "backed E whole ?row (store w)"
      using held by (simp_all add: new_version_def entry_def backed_def)
    have "commit E whole (shared w) (shared w')"
      using commit.Released [OF up ins row(4,5)] st by (simp add: shared_def)
    moreover have "catalog (db w) (sl, n, v) = None \<and> catalog (db w') (sl, n, v) = Some (?sha, False)"
      if ok: "db_ok (db w)" and org: "org_by_slug sl (db w) = Some org"
    proof -
      have ok1: "db_ok d1" by (rule upsert_package_row_ok [OF ok up])
      have "org_by_slug sl d1 = Some org"
        using org upsert_package_row_frame [OF up] by (auto simp: org_by_slug_def)
      from catalog_insert_version [OF ok1 ins this pkg row(1)] catalog_upsert [OF ok up] row(2,3)
      show ?thesis by simp
    qed
    ultimately have "commit E whole (shared w) (shared w')"
      "db_ok (db w) \<Longrightarrow> org_by_slug sl (db w) = Some org \<Longrightarrow>
         catalog (db w) (sl, n, v) = None \<and> catalog (db w') (sl, n, v) = Some (?sha, False)"
      by blast+
  }
  note success = this
  show "advances E whole w w'"
    unfolding advances_def
  proof (rule conjI [OF _ st(2)], cases r)
    case (Inl e)
    then have "shared w' = shared w" using publish_txn_Inl(1) run st by (simp add: shared_def)
    then show "commits E whole (shared w) (shared w')" by simp
  qed (use success in auto)
  show "r = Inr u \<Longrightarrow> db_ok (db w) \<Longrightarrow> org_by_slug sl (db w) = Some org \<Longrightarrow>
       catalog (db w) (sl, n, v) = None \<and> catalog (db w') (sl, n, v) = Some (?sha, False)"
    using success(2) .
qed

text \<open>
  What a success answers: the coordinate was free when the request came, and it resolves to the
  digest of the response when the handler is done.
\<close>

definition publish_answer :: "string \<Rightarrow> string \<Rightarrow> string \<Rightarrow> shared \<Rightarrow> shared \<Rightarrow> 'e + publish_response \<Rightarrow> bool" where
  "publish_answer sl n v s s' r \<longleftrightarrow>
     (case r of
        Inl _ \<Rightarrow> True
      | Inr resp \<Rightarrow> db_ok (fst s) \<longrightarrow> catalog (fst s) (sl, n, v) = None \<and>
          (\<exists>y. catalog (fst s') (sl, n, v) = Some (pub_sha256 resp, y)))"

lemma catalog_commits:
  assumes "commits E whole x y" "db_ok (fst x)" "catalog (fst x) k = Some (sha, b)"
  shows "\<exists>b'. catalog (fst y) k = Some (sha, b')"
  using catalog_steps_keep [OF commits_catalog [OF assms(1,2)] assms(3)] .

lemma safe_publish_writes:
  assumes hex: "whole \<longrightarrow> hex_digests E" and org: "org_by_slug sl (fst s) = Some org"
  shows "safe E whole (publish_answer sl n v s) s (publish_writes_proc E st sl n v tok org meta bs)"
proof -
  let ?sha = "sha256_hex E bs" and ?ext = "format_extension E (meta_format meta)"
  let ?key = "artifact_key ?sha ?ext" and ?free = "catalog (fst s) (sl, n, v) = None"
    and ?done = "\<lambda>s'. \<exists>y. catalog (fst s') (sl, n, v) = Some (?sha, y)"
  have put: "safe E whole (\<lambda>s' r. case r of Inl _ \<Rightarrow> True | Inr _ \<Rightarrow> held E whole ?sha ?ext (snd s')) s
      (atomic (map_err from_anyhow (put_artifact ?key bs)))"
    by (rule safe_atomic) (use put_commits in blast)
  have txn: "safe E whole (\<lambda>s' r. case r of Inl _ \<Rightarrow> True | Inr _ \<Rightarrow> db_ok (fst s) \<longrightarrow> ?free \<and> ?done s') s1
      (atomic (publish_txn E org sl n v meta ?sha (int (length bs)) ?key))"
    if s1: "commits E whole s s1" and h: "held E whole ?sha ?ext (snd s1)" for s1
  proof (rule safe_atomic)
    fix w r w' assume w: "commits E whole s1 (shared w)"
      and run: "publish_txn E org sl n v meta ?sha (int (length bs)) ?key w = (r, w')"
    have sw: "commits E whole s (shared w)" using s1 w by simp
    have "held E whole ?sha ?ext (store w)" using held_commits [OF w hex h] by simp
    note t = txn_commits [OF run this]
    have o': "org_by_slug sl (db w) = Some org" using commits_org [OF sw org] by simp
    have "db_ok (fst s) \<Longrightarrow> db_ok (db w)" using commits_db_ok [OF sw] by simp
    moreover have "db_ok (fst s) \<Longrightarrow> catalog (db w) (sl, n, v) = None \<Longrightarrow> ?free"
      using catalog_commits [OF sw, of "(sl, n, v)"] by (cases "catalog (fst s) (sl, n, v)") auto
    ultimately have "case r of Inl _ \<Rightarrow> True | Inr _ \<Rightarrow> db_ok (fst s) \<longrightarrow> ?free \<and> ?done (shared w')"
      using t(2) o' by (cases r) auto
    with t(1) show "advances E whole w w' \<and>
        (case r of Inl _ \<Rightarrow> True | Inr _ \<Rightarrow> db_ok (fst s) \<longrightarrow> ?free \<and> ?done (shared w'))" by blast
  qed
  have fin: "safe E whole (publish_answer sl n v s) s3
      (atomic (ret \<lparr>pub_org = sl, pub_name = n, pub_version = v, pub_sha256 = ?sha\<rparr>))"
    if s3: "commits E whole s s3" and d: "db_ok (fst s) \<longrightarrow> ?free \<and> ?done s3" for s3
  proof (rule safe_atomic)
    fix w r w' assume w: "commits E whole s3 (shared w)"
      and "ret \<lparr>pub_org = sl, pub_name = n, pub_version = v, pub_sha256 = ?sha\<rparr> w = (r, w')"
    then have r: "w' = w" "r = Inr \<lparr>pub_org = sl, pub_name = n, pub_version = v, pub_sha256 = ?sha\<rparr>" by simp_all
    have "db_ok (fst s) \<longrightarrow> ?free \<and> ?done (shared w)"
      using catalog_commits [OF w] commits_db_ok [OF s3] d by blast
    then show "advances E whole w w' \<and> publish_answer sl n v s (shared w') r"
      by (simp add: r publish_answer_def)
  qed
  show ?thesis
    unfolding publish_writes_proc_def Let_def
  proof (intro safe_thenP [OF put] safe_thenP [OF txn] safe_thenP [OF safe_record] fin)
    fix s1 s2 s3
    assume c: "commits E whole s s1" "commits E whole s1 s2" "commits E whole s2 s3"
    show "commits E whole s s3" using c by simp
    fix x :: unit
    assume "case Inr x of Inl _ \<Rightarrow> True | Inr _ \<Rightarrow> db_ok (fst s) \<longrightarrow> ?free \<and> ?done s2"
    then show "db_ok (fst s) \<longrightarrow> ?free \<and> ?done s3"
      using catalog_commits [OF c(3)] commits_db_ok [OF rtranclp_trans [OF c(1,2)]] by auto
  qed (auto simp: publish_answer_def)
qed

lemma safe_publish:
  assumes hex: "whole \<longrightarrow> hex_digests E"
  shows "safe E whole (publish_answer sl n v s) s (publish_proc E st h sl n v form)"
proof -
  have ans: "safe E whole (publish_answer sl n v s) s2
      (publish_writes_proc E st sl n v tok org meta bs)"
    if "commits E whole s s1" "commits E whole s1 s2" "org_by_slug sl (fst s1) = Some org"
    for s1 s2 tok org meta bs
  proof (rule safe_mono [OF safe_publish_writes [OF hex commits_org [OF that(2,3)]]])
    have "db_ok (fst s) \<Longrightarrow> db_ok (fst s2)" using commits_db_ok that(1,2) by blast
    moreover have "db_ok (fst s) \<Longrightarrow> catalog (fst s2) (sl, n, v) = None \<Longrightarrow> catalog (fst s) (sl, n, v) = None"
      using catalog_commits [OF rtranclp_trans [OF that(1,2)], of "(sl, n, v)"]
      by (cases "catalog (fst s) (sl, n, v)") auto
    ultimately show "publish_answer sl n v s2 s' x \<Longrightarrow> publish_answer sl n v s s' x" for s' x
      by (auto simp: publish_answer_def split: sum.splits)
  qed
  have err: "publish_answer sl n v s s' (Inl e)" for s' :: shared and e :: api_err
    by (simp add: publish_answer_def)
  show ?thesis
    unfolding publish_proc_def
  proof (rule safe_thenP [OF safe_require])
    fix s1 tok assume s1: "commits E whole s s1"
    show "safe E whole (publish_answer sl n v s) s1
      (thenP (atomic (dbq (select (org_by_slug sl)))) (\<lambda>found.
       thenP (atomic (or_else found (org_not_found sl))) (\<lambda>org.
       thenP (atomic (lift (authorize_publish (t_org tok) (role_parse (t_role tok)) (o_id org)))) (\<lambda>_.
       thenP (atomic (lift (read_multipart E form))) (\<lambda>(meta, artifact).
       thenP (atomic (lift (check_body E sl n v meta artifact))) (\<lambda>_.
       thenP (atomic (lift (check_tag E st meta))) (\<lambda>_.
       thenP (immutable_proc org sl n v) (\<lambda>_.
         publish_writes_proc E st sl n v tok org meta artifact))))))))"
    proof (rule safe_read_known, (intro keeps_intro)[1])
      fix w found w' assume w: "commits E whole s1 (shared w)"
        and "dbq (select (org_by_slug sl)) w = (Inr found, w')"
      then have found: "found = org_by_slug sl (db w)" by (simp add: select_Inr)
      have sw: "commits E whole s (shared w)" using s1 w by simp
      show "safe E whole (publish_answer sl n v s) (shared w)
       (thenP (atomic (or_else found (org_not_found sl))) (\<lambda>org.
        thenP (atomic (lift (authorize_publish (t_org tok) (role_parse (t_role tok)) (o_id org)))) (\<lambda>_.
        thenP (atomic (lift (read_multipart E form))) (\<lambda>(meta, artifact).
        thenP (atomic (lift (check_body E sl n v meta artifact))) (\<lambda>_.
        thenP (atomic (lift (check_tag E st meta))) (\<lambda>_.
        thenP (immutable_proc org sl n v) (\<lambda>_.
          publish_writes_proc E st sl n v tok org meta artifact)))))))"
      proof (rule safe_read_known, (intro keeps_intro)[1])
        fix w2 org w2' assume w2: "commits E whole (shared w) (shared w2)"
          and "or_else found (org_not_found sl) w2 = (Inr org, w2')"
        with found have o': "org_by_slug sl (fst (shared w)) = Some org" by simp
        show "safe E whole (publish_answer sl n v s) (shared w2)
         (thenP (atomic (lift (authorize_publish (t_org tok) (role_parse (t_role tok)) (o_id org)))) (\<lambda>_.
          thenP (atomic (lift (read_multipart E form))) (\<lambda>(meta, artifact).
          thenP (atomic (lift (check_body E sl n v meta artifact))) (\<lambda>_.
          thenP (atomic (lift (check_tag E st meta))) (\<lambda>_.
          thenP (immutable_proc org sl n v) (\<lambda>_.
            publish_writes_proc E st sl n v tok org meta artifact))))))"
          by (intro safe_read_then safe_case_prod safe_thenP [OF safe_immutable] err keeps_intro ans
              [OF sw _ o'])
            (use w2 in \<open>meson rtranclp_trans\<close>)
      qed (rule err)
    qed (rule err)
  qed (rule err)
qed

section \<open>The other mutating handlers\<close>

definition yank_proc ::
    "externals \<Rightarrow> app_state \<Rightarrow> string option \<Rightarrow> string \<Rightarrow> string \<Rightarrow> string \<Rightarrow> bool \<Rightarrow>
     (api_err + yank_response) proc" where
  "yank_proc E st header org_slug name ver yanked =
     thenP (require_proc E st header) (\<lambda>token.
     thenP (atomic (find_org org_slug)) (\<lambda>org.
     thenP (atomic (lift (authorize_publish (t_org token) (role_parse (t_role token)) (o_id org)))) (\<lambda>_.
     thenP (atomic (find_package org name)) (\<lambda>pkg.
     thenP (atomic (find_version pkg ver)) (\<lambda>row.
     thenP (atomic (dbq (update_stmt (update_version (v_id row) (\<lambda>r. r\<lparr>v_yanked := yanked\<rparr>))))) (\<lambda>_.
     thenP (record_proc E st (o_id org) token (if yanked then Yank else Unyank)
              (coordinate org_slug name ver) None) (\<lambda>_.
       atomic (ret \<lparr>yk_org = org_slug, yk_name = name, yk_version = ver, yk_yanked = yanked\<rparr>))))))))"

text \<open>
  The claim transaction without its advisory lock: others may run between the count and the
  insert, which is more than Postgres allows. Theory \<open>Quota\<close> has the server with the lock.
\<close>

definition claim_txn_proc :: "app_state \<Rightarrow> token_row \<Rightarrow> string \<Rightarrow> (api_err + uuid) proc" where
  "claim_txn_proc st token slug =
     thenP (atomic (dbq (select (\<lambda>_. ())))) (\<lambda>_.
     thenP (atomic (if backend st = Postgres then dbq (select (\<lambda>_. ())) else ret ())) (\<lambda>_.
     thenP (atomic (check_quota st token)) (\<lambda>_.
       atomic (and_commit from_db_err (insert_new_org token slug)))))"

definition claim_proc ::
    "externals \<Rightarrow> app_state \<Rightarrow> lock_outcome \<Rightarrow> string option \<Rightarrow> string \<Rightarrow> (api_err + claim_response) proc" where
  "claim_proc E st lk header slug =
     thenP (require_proc E st header) (\<lambda>token.
       if \<not> is_slug E slug then
         atomic (fail (err_bad_request ''invalid_slug'' ''org slugs are lowercase letters, digits, and hyphens''))
       else
         thenP (atomic (dbq (select (org_by_slug slug)))) (\<lambda>found.
           case found of
             Some existing \<Rightarrow>
               if t_org token = Some (o_id existing)
               then atomic (ret \<lparr>cl_slug = slug, cl_created = False\<rparr>)
               else atomic (fail (org_taken slug))
           | None \<Rightarrow>
               thenP (claim_txn_proc st token slug) (\<lambda>new_org_id.
               thenP (record_proc E st new_org_id token OrgClaim slug None) (\<lambda>_.
                 atomic (ret \<lparr>cl_slug = slug, cl_created = True\<rparr>)))))"

definition embedding_proc ::
    "externals \<Rightarrow> app_state \<Rightarrow> string option \<Rightarrow> string \<Rightarrow> string \<Rightarrow> string \<Rightarrow> f32 list \<Rightarrow> string \<Rightarrow>
     (api_err + string \<times> string \<times> string) proc" where
  "embedding_proc E st header org_slug name m embedding content =
     thenP (atomic (lift (require_pg st))) (\<lambda>_.
     thenP (require_proc E st header) (\<lambda>token.
     thenP (atomic (find_org org_slug)) (\<lambda>org.
     thenP (atomic (lift (authorize_publish (t_org token) (role_parse (t_role token)) (o_id org)))) (\<lambda>_.
     thenP (atomic (find_package org name)) (\<lambda>pkg.
     thenP (atomic (map_err invalid_embedding (embeddings_upsert E (p_id pkg) m embedding content))) (\<lambda>_.
       atomic (ret (org_slug, name, m))))))))"

lemma run_yank: "run_proc (yank_proc E st h s n v y) = yank E st h s n v y"
  by (simp add: yank_proc_def yank_def run_require run_record)

lemma check_quota_pure: "pure_read (check_quota st tok)"
  unfolding check_quota_def by (intro keeps_intro)

lemma run_claim_txn: "run_proc (claim_txn_proc st tok s) = claim_txn st tok s"
  by (simp add: claim_txn_proc_def claim_txn_def in_txn_tail and_commit_reads check_quota_pure
      pure_read_intros pure_read_cases pure_read_map_err)

lemma run_claim: "run_proc (claim_proc E st lk h s) = claim_org E st lk h s"
  unfolding claim_proc_def claim_org_eq claim_org_serialized_def
  by (auto simp: run_require run_claim_txn run_record fun_eq_iff andThen_def
      split: prod.split sum.split option.split)

lemma run_embedding: "run_proc (embedding_proc E st h s n m v c) = upsert_embedding E st h s n m v c"
  by (simp add: embedding_proc_def upsert_embedding_def run_require)

lemma safe_yank: "safe E whole (\<lambda>_ _. True) s (yank_proc E st h sl n v y)"
  unfolding yank_proc_def
  by (intro safe_thenP [OF safe_require] safe_read_then safe_thenP [OF safe_record] keeps_intro TrueI
      safe_thenP [OF safe_moves [OF moves_map_err [OF moves_update]]] safe_moves [OF moves_pure])
    (rule commit.Flagged)

lemma claim_tail_moves: "moves E whole (and_commit from_db_err (insert_new_org tok s))"
proof (rule movesI)
  fix w r w' assume run: "and_commit from_db_err (insert_new_org tok s) w = (r, w')"
  consider "shared w' = shared w" | row d where "insert_org row (db w) = Inr d" "shared w' = (d, store w)"
    using run
    by (auto simp: and_commit_def insert_new_org_def run_simps insert_stmt_def statement_eq select_eq
        shared_def map_sum_Inr_iff split: option.splits sum.splits prod.splits if_splits)
  then have "commits E whole (shared w) (shared w')"
    by cases (auto simp: shared_def intro: commit.New_Org)
  moreover have "io_events w' = io_events w"
    using run
    by (auto simp: and_commit_def insert_new_org_def run_simps insert_stmt_def statement_eq select_eq
        split: option.splits sum.splits prod.splits if_splits)
  ultimately show "advances E whole w w'" by (simp add: advances_def)
qed

lemma safe_claim: "safe E whole (\<lambda>_ _. True) s (claim_proc E st lk h sl)"
proof -
  have txn: "safe E whole (\<lambda>_ _. True) s1 (claim_txn_proc st tok sl)" for s1 tok
    unfolding claim_txn_proc_def
    by (intro safe_read_then check_quota_pure keeps_intro TrueI safe_moves [OF claim_tail_moves])
  show ?thesis
    unfolding claim_proc_def
    by (intro safe_thenP [OF safe_require] safe_read_then safe_thenP [OF safe_record] safe_thenP [OF txn]
        safe_if safe_case_option keeps_intro TrueI safe_moves [OF moves_pure])
qed

lemma upsert_moves: "moves E whole (embeddings_upsert E p m v c)"
  unfolding embeddings_upsert_def
  by (intro moves_intro) (auto dest!: upsert_embedding_row_frame intro: commit.Embedded)

lemma safe_embedding: "safe E whole (\<lambda>_ _. True) s (embedding_proc E st h sl n m v c)"
  unfolding embedding_proc_def
  by (intro safe_thenP [OF safe_require] safe_read_then keeps_intro TrueI
      safe_thenP [OF safe_moves [OF moves_map_err [OF upsert_moves]]] safe_moves [OF moves_pure])

section \<open>The administration commands\<close>

definition find_or_create_proc :: "string \<Rightarrow> (cli_err + org_row) proc" where
  "find_or_create_proc slug =
     thenP (atomic (map_err CliDb (select (org_by_slug slug)))) (\<lambda>found.
       case found of
         Some existing \<Rightarrow> atomic (ret existing)
       | None \<Rightarrow>
           thenP (atomic new_uuid) (\<lambda>i.
           thenP (atomic utc_now) (\<lambda>now.
             atomic (map_err CliDb (insert_stmt insert_org
               \<lparr>o_id = i, o_slug = slug, o_created_at = now, o_created_by = None\<rparr>)))))"

definition create_proc :: "externals \<Rightarrow> app_state \<Rightarrow> string list \<Rightarrow> (cli_err + string) proc" where
  "create_proc E st args =
     thenP (atomic (map_err CliErr (lift (create_args args create_defaults)))) (\<lambda>opts.
     thenP (atomic (map_err CliErr (lift (check_create opts)))) (\<lambda>name.
     thenP (atomic (open_database st)) (\<lambda>_.
     thenP (case co_org opts of
              Some slug \<Rightarrow> thenP (find_or_create_proc slug) (\<lambda>org. atomic (ret (Some (o_id org))))
            | None \<Rightarrow> atomic (ret None)) (\<lambda>org_id.
     thenP (atomic (expiry E (co_days opts))) (\<lambda>expires_at.
       atomic (mint E name (co_role opts) org_id expires_at))))))"

fun revoke_loop_proc :: "timestamp \<Rightarrow> token_row list \<Rightarrow> nat \<Rightarrow> (cli_err + nat) proc" where
  "revoke_loop_proc now [] revoked = atomic (ret revoked)"
| "revoke_loop_proc now (row # rows) revoked =
     (if t_revoked_at row \<noteq> None then revoke_loop_proc now rows revoked
      else thenP (atomic (map_err CliDb (update_stmt (update_token (t_id row)
                    (\<lambda>r. r\<lparr>t_revoked_at := Some now\<rparr>)))))
             (\<lambda>_. revoke_loop_proc now rows (revoked + 1)))"

definition revoke_proc :: "externals \<Rightarrow> app_state \<Rightarrow> string list \<Rightarrow> (cli_err + nat) proc" where
  "revoke_proc E st args =
     thenP (atomic (map_err CliErr (lift (revoke_args args None None)))) (\<lambda>(name, i).
       if name = None \<and> i = None then
         atomic (fail (CliErr ''pass --name <name> or --id <uuid> to identify the token to revoke''))
       else
         thenP (atomic (open_database st)) (\<lambda>_.
         thenP (atomic (map_err CliErr (lift (parse_id E i)))) (\<lambda>uid.
         thenP (atomic (map_err CliDb (select (tokens_matching name uid)))) (\<lambda>matches.
           if matches = [] then atomic (fail (CliErr ''no token matched''))
           else thenP (atomic utc_now) (\<lambda>now. revoke_loop_proc now matches 0)))))"

lemma run_find_or_create: "run_proc (find_or_create_proc s) = find_or_create_org s"
  unfolding find_or_create_proc_def find_or_create_org_def
  by (auto simp: fun_eq_iff andThen_def split: prod.split sum.split option.split)

lemma run_create: "run_proc (create_proc E st args) = create_token E st args"
  unfolding create_proc_def create_token_def
  by (auto simp: fun_eq_iff andThen_def run_find_or_create split: prod.split sum.split option.split)

lemma run_revoke_loop: "run_proc (revoke_loop_proc now rows n) = revoke_loop now rows n"
  by (induction rows arbitrary: n) (auto simp: fun_eq_iff andThen_def split: prod.split sum.split)

lemma run_revoke: "run_proc (revoke_proc E st args) = revoke_token E st args"
  unfolding revoke_proc_def revoke_token_def
  by (auto simp: fun_eq_iff andThen_def run_revoke_loop split: prod.split sum.split)

lemma safe_find_or_create: "safe E whole (\<lambda>_ _. True) s (find_or_create_proc slug)"
  unfolding find_or_create_proc_def
  by (intro safe_read_then safe_case_option keeps_intro TrueI safe_moves moves_intro) (rule commit.New_Org)

lemma mint_moves: "moves E whole (mint E name role org expires)"
  unfolding mint_def Let_def by (intro moves_intro) (rule commit.New_Token)

lemma safe_create: "safe E whole (\<lambda>_ _. True) s (create_proc E st args)"
proof -
  have org: "safe E whole (\<lambda>_ _. True) s1
      (case co_org opts of
         Some slug \<Rightarrow> thenP (find_or_create_proc slug) (\<lambda>org. atomic (ret (Some (o_id org))))
       | None \<Rightarrow> atomic (ret None))" for s1 opts
    by (intro safe_case_option safe_thenP [OF safe_find_or_create] safe_moves moves_reads TrueI)
  show ?thesis
    unfolding create_proc_def
    by (intro safe_read_then safe_thenP [OF org] keeps_intro TrueI safe_moves [OF mint_moves])
qed

lemma safe_revoke_loop: "safe E whole (\<lambda>_ _. True) s (revoke_loop_proc now rows n)"
  by (induction rows arbitrary: s n)
    (auto intro!: safe_thenP [OF safe_moves [OF moves_map_err [OF moves_update]]] safe_moves moves_reads
      commit.Revoked)

lemma safe_revoke: "safe E whole (\<lambda>_ _. True) s (revoke_proc E st args)"
  unfolding revoke_proc_def
  by (intro safe_read_then safe_case_prod safe_if keeps_intro TrueI safe_moves moves_reads safe_revoke_loop)

section \<open>Requests and commands\<close>

definition status_of :: "(api_err + 'a) proc \<Rightarrow> nat proc" where
  "status_of p = bind_proc p (\<lambda>r. Done (case r of Inl e \<Rightarrow> err_status e | Inr _ \<Rightarrow> 200))"

text \<open>
  A request that only reads (or, in the disabled mode, inserts the operator row and then reads)
  is one action: nothing it does to the shared state depends on how its reads interleave.
\<close>

fun request_proc :: "externals \<Rightarrow> app_state \<Rightarrow> request \<Rightarrow> nat proc" where
  "request_proc E st (PutVersion h org name ver form) = status_of (publish_proc E st h org name ver form)"
| "request_proc E st (PostYank h org name ver yanked) = status_of (yank_proc E st h org name ver yanked)"
| "request_proc E st (PostOrg h lk slug) = status_of (claim_proc E st lk h slug)"
| "request_proc E st (PutEmbedding h org name m v c) = status_of (embedding_proc E st h org name m v c)"
| "request_proc E st req = atomic (handle E st req)"

fun command_proc :: "externals \<Rightarrow> app_state \<Rightarrow> command \<Rightarrow> nat proc" where
  "command_proc E st (CmdCreate args) = bind_proc (create_proc E st args) (\<lambda>_. Done 0)"
| "command_proc E st (CmdRevoke args) = bind_proc (revoke_proc E st args) (\<lambda>_. Done 0)"

lemma run_status: "run_proc (status_of p) = answer (run_proc p)"
  by (rule ext) (simp add: status_of_def run_bind answer_def split: prod.split sum.split)

lemma run_request: "run_proc (request_proc E st req) = handle E st req"
  by (cases req) (simp_all add: run_status run_publish run_yank run_claim run_embedding)

lemma run_command_proc: "snd (run_proc (command_proc E st cmd) w) = run_command E st cmd w"
  by (cases cmd) (simp_all add: run_bind run_create run_revoke split: prod.split)


lemma semantic_moves: "moves E whole (semantic_search E st m v tags l)"
  unfolding semantic_search_def embeddings_search_def Let_def
  by (intro moves_intro moves_pure [OF collect_hits_pure])

lemma require_moves: "moves E whole (require_token E st h)"
proof (cases "auth_disabled st")
  case True
  have "moves E whole (insecure_operator_token E)"
    unfolding insecure_operator_token_def
    by (intro moves_intro) (auto intro!: moves_intro commit.New_Token split: sum.split)
  with True show ?thesis by (simp add: require_token_def)
qed (rule moves_pure [OF require_token_pure])

lemma audit_reads_moves:
  "moves E whole (get_audit_log E st h s q)" "moves E whole (verify_audit_log E st h s)"
  unfolding get_audit_log_def verify_audit_log_def
  by (intro moves_intro require_moves moves_pure [OF reads_pure(1)]
      moves_pure [OF find_pure(1)])+

lemma answer_moves: "moves E whole m \<Longrightarrow> moves E whole (answer m)"
  by (rule movesI) (auto simp: answer_def moves_def split: prod.splits sum.splits)

lemma safe_status: "safe E whole Q s p \<Longrightarrow> safe E whole (\<lambda>_ _. True) s (status_of p)"
  unfolding status_of_def by (erule safe_bind) simp

lemma safe_request:
  assumes "whole \<longrightarrow> hex_digests E"
  shows "safe E whole (\<lambda>_ _. True) s (request_proc E st req)"
  by (cases req)
    (auto intro!: safe_status [OF safe_publish [OF assms]] safe_status [OF safe_yank]
      safe_status [OF safe_claim] safe_status [OF safe_embedding]
      safe_moves answer_moves semantic_moves audit_reads_moves moves_pure reads_pure listing_pure)

lemma safe_command: "safe E whole (\<lambda>_ _. True) s (command_proc E st cmd)"
  by (cases cmd) (auto intro!: safe_bind [OF safe_create] safe_bind [OF safe_revoke])

section \<open>The concurrent registry\<close>

type_synonym config = "world \<times> nat proc list"

inductive interleave :: "externals \<Rightarrow> bool \<Rightarrow> config \<Rightarrow> config \<Rightarrow> bool" for E whole where
  Arrive: "interleave E whole (w, ps) (w, ps @ [request_proc E st req])"
| Launch: "interleave E whole (w, ps) (w, ps @ [command_proc E st cmd])"
| Vanish: "interleave E whole (w, ps @ p # qs) (w, ps @ qs)"
| Environment: "shared w' = shared w \<Longrightarrow> interleave E whole (w, ps) (w', ps)"
| Progress: "events_ok whole w \<Longrightarrow> f w = (p, w') \<Longrightarrow>
    interleave E whole (w, ps @ Act f # qs) (w', ps @ p # qs)"

definition served :: "externals \<Rightarrow> bool \<Rightarrow> world \<Rightarrow> world \<Rightarrow> bool" where
  "served E whole w w' \<longleftrightarrow> (\<exists>ps. (interleave E whole)\<^sup>*\<^sup>* (w, []) (w', ps))"

definition in_flight_ok :: "externals \<Rightarrow> bool \<Rightarrow> config \<Rightarrow> bool" where
  "in_flight_ok E whole c \<longleftrightarrow> (\<forall>p\<in>set (snd c). safe E whole (\<lambda>_ _. True) (shared (fst c)) p)"

lemma safe_True_later: "safe E whole (\<lambda>_ _. True) s p \<Longrightarrow> commits E whole s s' \<Longrightarrow> safe E whole (\<lambda>_ _. True) s' p"
  by (cases p) (auto intro: safe_later)

lemma interleave_commits:
  assumes "interleave E whole (w, ps) (w', ps')" "in_flight_ok E whole (w, ps)"
    and hex: "whole \<longrightarrow> hex_digests E"
  shows "commits E whole (shared w) (shared w') \<and> in_flight_ok E whole (w', ps')"
  using assms(1)
proof cases
  case (Progress f p as bs)
  then have "safe E whole (\<lambda>_ _. True) (shared w) (Act f)"
    using assms(2) by (simp add: in_flight_ok_def)
  from safe_step [OF this _ Progress(3,4)] have
    c: "commits E whole (shared w) (shared w')" "safe E whole (\<lambda>_ _. True) (shared w') p"
    by (simp_all add: advances_commits)
  with Progress(1,2) assms(2) safe_True_later [OF _ c(1)] show ?thesis
    by (auto simp: in_flight_ok_def)
qed (use assms(2) safe_request [OF hex] safe_command in \<open>auto simp: in_flight_ok_def\<close>)

lemma interleaves_commits:
  assumes "(interleave E whole)\<^sup>*\<^sup>* (w, ps) (w', ps')" "in_flight_ok E whole (w, ps)"
    and hex: "whole \<longrightarrow> hex_digests E"
  shows "commits E whole (shared w) (shared w') \<and> in_flight_ok E whole (w', ps')"
  using assms(1,2)
proof (induction "(w', ps')" arbitrary: w' ps' rule: rtranclp_induct)
  case (step y)
  obtain v qs where y: "y = (v, qs)" by (cases y)
  from step(3) [OF y step(4)] have "commits E whole (shared w) (shared v)" "in_flight_ok E whole (v, qs)"
    by simp_all
  with interleave_commits [OF step(2) [unfolded y] _ hex] show ?case by auto
qed simp

text \<open>Every interleaving of any number of requests is a run of the machine.\<close>

lemma served_commits: "served E whole w w' \<Longrightarrow> whole \<longrightarrow> hex_digests E \<Longrightarrow> commits E whole (shared w) (shared w')"
  unfolding served_def using interleaves_commits [of E whole w "[]" w'] by (auto simp: in_flight_ok_def)

definition fresh_registry :: "world \<Rightarrow> bool" where
  "fresh_registry w \<longleftrightarrow> db w = empty_db"

lemma served_refl [simp]: "served E whole w w"
  unfolding served_def by blast

section \<open>The sequential server is one of the interleavings\<close>

lemma run_to_completion:
  assumes "safe E whole Q (shared w) p" "events_ok whole w"
  shows "(interleave E whole)\<^sup>*\<^sup>* (w, ps @ p # qs) (snd (run_proc p w), ps @ Done (fst (run_proc p w)) # qs)"
  using assms
proof (induction p arbitrary: w rule: proc.induct)
  case (Act f)
  obtain p w' where f: "f w = (p, w')" by (cases "f w")
  from safe_step [OF Act.prems(1) _ Act.prems(2) f] have
    s: "advances E whole w w'" "safe E whole Q (shared w') p" by simp_all
  have "events_ok whole w'" using advances_events [OF s(1) Act.prems(2)] .
  then have "(interleave E whole)\<^sup>*\<^sup>* (w', ps @ p # qs) (snd (run_proc p w'), ps @ Done (fst (run_proc p w')) # qs)"
    by (intro Act.IH [of "f w"]) (metis f rangeI, simp add: f, rule s(2))
  moreover have "run_proc (Act f) w = run_proc p w'" by (simp add: f)
  moreover have "interleave E whole (w, ps @ Act f # qs) (w', ps @ p # qs)"
    by (rule interleave.Progress) (rule Act.prems(2), rule f)
  ultimately show ?case by (metis converse_rtranclp_into_rtranclp)
qed simp

lemma served_handle:
  assumes "whole \<longrightarrow> hex_digests E" "served E whole w w0" "shared w1 = shared w0" "events_ok whole w1"
  shows "served E whole w (snd (handle E st req w1))"
proof -
  from assms(2) obtain ps where "(interleave E whole)\<^sup>*\<^sup>* (w, []) (w0, ps)" by (auto simp: served_def)
  also have "interleave E whole (w0, ps) (w1, ps)" by (rule Environment [OF assms(3)])
  also have "interleave E whole (w1, ps) (w1, ps @ [request_proc E st req])" by (rule Arrive)
  also have "(interleave E whole)\<^sup>*\<^sup>* (w1, ps @ request_proc E st req # [])
      (snd (handle E st req w1), ps @ Done (fst (handle E st req w1)) # [])"
    using run_to_completion [OF safe_request [OF assms(1)] assms(4)] by (simp add: run_request)
  finally show ?thesis unfolding served_def by blast
qed

section \<open>One request among others\<close>

text \<open>
  A process that runs while everything else does: between its actions the shared state moves by
  any run of the machine, and the environment chooses the rest of the world.
\<close>

inductive among :: "externals \<Rightarrow> bool \<Rightarrow> 'a proc \<Rightarrow> world \<Rightarrow> 'a \<Rightarrow> world \<Rightarrow> bool" for E whole where
  Finish: "commits E whole (shared w) (shared w') \<Longrightarrow> among E whole (Done x) w x w'"
| Step: "commits E whole (shared w) (shared w1) \<Longrightarrow> events_ok whole w1 \<Longrightarrow> f w1 = (p, w2) \<Longrightarrow>
    among E whole p w2 x w' \<Longrightarrow> among E whole (Act f) w x w'"

lemma among_safe:
  assumes "among E whole p w x w'" "safe E whole Q (shared w) p"
  shows "\<exists>s. commits E whole (shared w) s \<and> Q s x \<and> commits E whole s (shared w')"
  using assms
proof (induction rule: among.induct)
  case (Finish w w' x)
  then show ?case by (intro exI [of _ "shared w"]) simp
next
  case (Step w w1 f p w2 x w')
  from safe_step [OF Step.prems Step.hyps(1-3)] have
    c: "commits E whole (shared w1) (shared w2)" "safe E whole Q (shared w2) p"
    by (simp_all add: advances_commits)
  with Step.IH Step.hyps(1) show ?case by (meson rtranclp_trans)
qed

lemma publish_among:
  assumes "among E whole (publish_proc E st h sl n v form) w (Inr resp) w'"
    and "whole \<longrightarrow> hex_digests E" "db_ok (db w)"
  shows "catalog (db w) (sl, n, v) = None \<and> (\<exists>y. catalog (db w') (sl, n, v) = Some (pub_sha256 resp, y))"
proof -
  from among_safe [OF assms(1) safe_publish [OF assms(2)]] obtain s where
    s: "commits E whole (shared w) s" "publish_answer sl n v (shared w) s (Inr resp :: api_err + publish_response)"
      "commits E whole s (shared w')" by blast
  from s(2) assms(3) obtain y where
    "catalog (db w) (sl, n, v) = None" "catalog (fst s) (sl, n, v) = Some (pub_sha256 resp, y)"
    by (auto simp: publish_answer_def)
  moreover have "db_ok (fst s)" using commits_db_ok [OF s(1)] assms(3) by simp
  ultimately show ?thesis using catalog_commits [OF s(3)] by fastforce
qed

text \<open>The undisturbed run is one of the runs among others.\<close>

lemma among_run:
  assumes "safe E whole Q (shared w) p" "events_ok whole w" "run_proc p w = (x, w1)"
    and "commits E whole (shared w1) (shared w')"
  shows "among E whole p w x w'"
  using assms
proof (induction p arbitrary: w rule: proc.induct)
  case (Done y)
  then show ?case by (auto intro: among.Finish)
next
  case (Act f)
  obtain p w2 where f: "f w = (p, w2)" by (cases "f w")
  from safe_step [OF Act.prems(1) _ Act.prems(2) f] have
    s: "advances E whole w w2" "safe E whole Q (shared w2) p" by simp_all
  have "run_proc p w2 = (x, w1)" using Act.prems(3) by (simp add: f)
  then have "among E whole p w2 x w'"
    by (intro Act.IH [of "f w"]) (metis f rangeI, simp add: f, rule s(2),
      rule advances_events [OF s(1) Act.prems(2)], simp, rule Act.prems(4))
  then show ?case using f Act.prems(2) by (intro among.Step [of _ _ w w]) auto
qed

end
