(* ===== verification/Migration.thy ===== *)
theory Migration
  imports Audit_Props
begin

text \<open>
  \<open>migration/src/m20260726_000008_audit_chain.rs\<close>: an existing audit log becomes a chained one.
  The columns are added with their defaults, the rows are numbered per org in recording order
  by a correlated count, and the unique index on \<open>(org_id, seq)\<close> is created, which fails when
  two rows agree on it.
\<close>

definition add_chain_columns :: "audit_row \<Rightarrow> audit_row" where
  "add_chain_columns r = r\<lparr>a_seq := 0, a_hash := [], a_prev := None\<rparr>"

text \<open>The subquery's condition: \<open>earlier\<close> is counted for \<open>row\<close>.\<close>

definition counted_for :: "audit_row \<Rightarrow> audit_row \<Rightarrow> bool" where
  "counted_for row earlier \<longleftrightarrow>
     a_org earlier = a_org row \<and>
     (a_at earlier < a_at row \<or> (a_at earlier = a_at row \<and> a_id earlier \<le> a_id row))"

definition backfill_legacy_seq :: "audit_row list \<Rightarrow> audit_row list" where
  "backfill_legacy_seq rows =
     map (\<lambda>r. r\<lparr>a_seq := int (length (filter (counted_for r) rows))\<rparr>) rows"

definition create_seq_index :: "database \<Rightarrow> db_err + database" where
  "create_seq_index d =
     (if distinct (map audit_key (audits d)) then Inr d else Inl UniqueViolation)"

definition migrate_audit_chain :: "database \<Rightarrow> db_err + database" where
  "migrate_audit_chain d =
     create_seq_index (d\<lparr>audits := backfill_legacy_seq (map add_chain_columns (audits d))\<rparr>)"

section \<open>The numbering\<close>

text \<open>Recording order within an org.\<close>

definition recorded_before :: "audit_row \<Rightarrow> audit_row \<Rightarrow> bool" where
  "recorded_before r s \<longleftrightarrow> a_at r < a_at s \<or> (a_at r = a_at s \<and> a_id r < a_id s)"

definition position :: "audit_row list \<Rightarrow> audit_row \<Rightarrow> nat" where
  "position rows r = length (filter (counted_for r) rows)"

lemma filter_length_strict:
  assumes "\<And>x. x \<in> set xs \<Longrightarrow> P x \<Longrightarrow> Q x" "y \<in> set xs" "Q y" "\<not> P y"
  shows "length (filter P xs) < length (filter Q xs)"
proof -
  have le: "length (filter P zs) \<le> length (filter Q zs)" if "set zs \<subseteq> set xs" for zs
    using that assms(1) by (induction zs) auto
  from assms(2) obtain as bs where xs: "xs = as @ y # bs" by (meson split_list)
  have "length (filter P as) \<le> length (filter Q as)" "length (filter P bs) \<le> length (filter Q bs)"
    by (rule le, auto simp: xs)+
  with assms(3,4) show ?thesis by (simp add: xs)
qed

lemma position_mono:
  assumes "recorded_before r s" "a_org r = a_org s" "s \<in> set rows"
  shows "position rows r < position rows s"
  unfolding position_def
proof (rule filter_length_strict [OF _ assms(3)])
  show "counted_for s x" if "counted_for r x" for x
    using that assms by (auto simp: counted_for_def recorded_before_def)
  show "counted_for s s" by (simp add: counted_for_def)
  show "\<not> counted_for r s" using assms by (auto simp: counted_for_def recorded_before_def)
qed

lemma position_range:
  assumes "r \<in> set rows"
  shows "1 \<le> position rows r" "position rows r \<le> length (filter (\<lambda>x. a_org x = a_org r) rows)"
proof -
  have "r \<in> set (filter (counted_for r) rows)" using assms by (simp add: counted_for_def)
  then have "filter (counted_for r) rows \<noteq> []" by (metis emptyE list.set(1))
  then show "1 \<le> position rows r" by (cases "filter (counted_for r) rows") (simp_all add: position_def)
  have "length (filter (counted_for r) zs) \<le> length (filter (\<lambda>x. a_org x = a_org r) zs)" for zs
    by (induction zs) (auto simp: counted_for_def)
  then show "position rows r \<le> length (filter (\<lambda>x. a_org x = a_org r) rows)"
    by (simp add: position_def)
qed

lemma position_inj:
  assumes "r \<in> set rows" "s \<in> set rows" "a_org r = a_org s" "a_id r \<noteq> a_id s"
  shows "position rows r \<noteq> position rows s"
proof -
  have "recorded_before r s \<or> recorded_before s r"
    using assms(4) by (auto simp: recorded_before_def linorder_neq_iff)
  with position_mono [of r s rows] position_mono [of s r rows] assms show ?thesis by auto
qed

lemma backfill_eq:
  "backfill_legacy_seq rows = map (\<lambda>r. r\<lparr>a_seq := int (position rows r)\<rparr>) rows"
  by (simp add: backfill_legacy_seq_def position_def)

text \<open>Per org the positions are \<open>1 \<dots> n\<close>, each once.\<close>

lemma backfill_dense:
  assumes "distinct (map a_id rows)"
  shows "a_seq ` {r \<in> set (backfill_legacy_seq rows). a_org r = org}
           = int ` {1 .. length (filter (\<lambda>r. a_org r = org) rows)}"
    and "distinct (map audit_key (backfill_legacy_seq rows))"
proof -
  let ?S = "{r \<in> set rows. a_org r = org}"
  let ?n = "length (filter (\<lambda>r. a_org r = org) rows)"
  have ids: "a_id r \<noteq> a_id s" if "r \<in> set rows" "s \<in> set rows" "r \<noteq> s" for r s
    using distinct_map_unique [OF assms that(1,2)] that(3) by blast
  have same: "r = s" if rs: "r \<in> set rows" "s \<in> set rows" "a_org r = a_org s"
    and eq: "position rows r = position rows s" for r s
  proof (rule ccontr)
    assume "r \<noteq> s"
    from position_inj [OF rs ids [OF rs(1,2) this]] eq show False by simp
  qed
  have inj: "inj_on (position rows) ?S"
    using same by (auto intro: inj_onI)
  have dist: "distinct rows" using assms by (simp add: distinct_map)
  then have "card (set (filter (\<lambda>r. a_org r = org) rows)) = ?n" by (intro distinct_card) simp
  then have "card ?S = ?n" by (simp only: set_filter)
  then have "card (position rows ` ?S) = card {1 .. ?n}" using inj by (simp add: card_image)
  moreover have "position rows ` ?S \<subseteq> {1 .. ?n}" using position_range by fastforce
  ultimately have img: "position rows ` ?S = {1 .. ?n}" by (intro card_subset_eq) auto
  have "a_seq ` {r \<in> set (backfill_legacy_seq rows). a_org r = org} = int ` position rows ` ?S"
  proof -
    have "{r \<in> f ` A. P r} = f ` {r \<in> A. P (f r)}" for f :: "audit_row \<Rightarrow> audit_row" and A P by auto
    then show ?thesis unfolding backfill_eq by (simp add: image_image)
  qed
  then show "a_seq ` {r \<in> set (backfill_legacy_seq rows). a_org r = org} = int ` {1 .. ?n}"
    by (simp only: img)
  have "inj_on (\<lambda>r. (a_org r, int (position rows r))) (set rows)"
  proof (rule inj_onI)
    fix r s assume rs: "r \<in> set rows" "s \<in> set rows"
      and eq: "(a_org r, int (position rows r)) = (a_org s, int (position rows s))"
    then show "r = s" by (intro same) simp_all
  qed
  with dist have "distinct (map (\<lambda>r. (a_org r, int (position rows r))) rows)"
    by (simp add: distinct_map)
  then show "distinct (map audit_key (backfill_legacy_seq rows))"
    by (simp add: backfill_eq audit_key_def o_def)
qed

lemma backfill_order:
  assumes "r \<in> set rows" "s \<in> set rows" "a_org r = a_org s" "recorded_before r s"
  shows "a_seq (r\<lparr>a_seq := int (position rows r)\<rparr>) < a_seq (s\<lparr>a_seq := int (position rows s)\<rparr>)"
  using position_mono [OF assms(4,3,2)] by simp

text \<open>It reads nothing of what it writes, so it can be run again.\<close>

lemma backfill_idempotent:
  "backfill_legacy_seq (backfill_legacy_seq rows) = backfill_legacy_seq rows"
proof -
  have "counted_for (r\<lparr>a_seq := x\<rparr>) \<circ> (\<lambda>q. q\<lparr>a_seq := f q\<rparr>) = counted_for r" for r x f
    by (rule ext) (simp add: counted_for_def)
  then show ?thesis by (simp add: backfill_legacy_seq_def filter_map)
qed

section \<open>After the upgrade\<close>

lemma map_add_columns_ids [simp]: "map a_id (map add_chain_columns rows) = map a_id rows"
  by (simp add: add_chain_columns_def)

lemma migrated_rows:
  assumes "r \<in> set (backfill_legacy_seq (map add_chain_columns rows))"
  shows "a_hash r = []" "1 \<le> a_seq r"
    "\<exists>q\<in>set rows. a_id r = a_id q \<and> a_org r = a_org q \<and> a_at r = a_at q \<and> a_action r = a_action q \<and>
       a_subject r = a_subject q \<and> a_token_name r = a_token_name q"
proof -
  let ?rows = "map add_chain_columns rows"
  from assms obtain q where q: "q \<in> set rows"
    "r = (add_chain_columns q)\<lparr>a_seq := int (position ?rows (add_chain_columns q))\<rparr>"
    unfolding backfill_eq by auto
  have "1 \<le> position ?rows (add_chain_columns q)" using q(1) by (intro position_range) simp
  with q show "a_hash r = []" "1 \<le> a_seq r"
    "\<exists>q\<in>set rows. a_id r = a_id q \<and> a_org r = a_org q \<and> a_at r = a_at q \<and> a_action r = a_action q \<and>
       a_subject r = a_subject q \<and> a_token_name r = a_token_name q"
    by (auto simp: add_chain_columns_def)
qed

text \<open>
  The audit-chain migration succeeds on every audit log, and afterwards every org's log
  verifies as an intact chain with no chained entries yet.
\<close>

lemma migrate_succeeds:
  assumes "distinct (map a_id (audits d))"
  shows "\<exists>d'. migrate_audit_chain d = Inr d' \<and> log_ok E (org_log org d') \<and>
     verify_chain E (org_log org d') =
       \<lparr>rep_intact = True, rep_checked = 0, rep_first_bad = None, rep_problem = None, rep_head = None\<rparr>"
proof -
  let ?rows = "backfill_legacy_seq (map add_chain_columns (audits d))"
  let ?d = "d\<lparr>audits := ?rows\<rparr>"
  have "distinct (map audit_key ?rows)"
    by (rule backfill_dense(2)) (simp only: map_add_columns_ids assms)
  then have m: "migrate_audit_chain d = Inr ?d" by (simp add: migrate_audit_chain_def create_seq_index_def)
  have all: "a_hash r = [] \<and> 0 \<le> a_seq r" if "r \<in> set (org_log org ?d)" for r
    using that migrated_rows(1,2) [of r "audits d"] by (auto simp: org_rows_def)
  then have "chain_part (org_log org ?d) = []"
    unfolding chain_part_def by (metis (mono_tags, lifting) dropWhile_eq_Nil_conv)
  then have ok: "log_ok E (org_log org ?d)" using all by (simp add: log_ok_def)
  from log_ok_report [OF this] \<open>chain_part _ = []\<close> have
    "verify_chain E (org_log org ?d) =
       \<lparr>rep_intact = True, rep_checked = 0, rep_first_bad = None, rep_problem = None, rep_head = None\<rparr>"
    by simp
  with m ok show ?thesis by blast
qed

end
