(* ===== verification/Example.thy ===== *)
theory Example
  imports Concurrent Migration "HOL-Library.List_Lexorder" "HOL-Library.Char_ord"
begin

text \<open>
  A concrete registry: one instance of the code outside the repository and a few small worlds,
  at which the hypotheses of the properties hold. Nothing else depends on this theory.
\<close>

section \<open>An instance of the externals\<close>

definition ex_sha :: "string \<Rightarrow> string" where
  "ex_sha s = take 64 (s @ replicate 64 CHR ''0'')"

fun ex_action :: "audit_action \<Rightarrow> string" where
  "ex_action Publish = ''publish''"
| "ex_action Yank = ''yank''"
| "ex_action Unyank = ''unyank''"
| "ex_action OrgClaim = ''org_claim''"

definition ex_action_parse :: "string \<Rightarrow> audit_action option" where
  "ex_action_parse s = map_of (map (\<lambda>a. (ex_action a, a)) [Publish, Yank, Unyank, OrgClaim]) s"

definition ex_manifest :: manifest where
  "ex_manifest =
     \<lparr>m_org = ''acme'', m_name = ''tool'', m_version = ''1.1.0'', m_description = Some ''a tool'',
      m_vcs = ''git'', m_url = ''https://github.com/acme/tool'', m_scheme = ''semver'',
      m_keywords = [''cli'']\<rparr>"

definition ex_meta :: publish_meta where
  "ex_meta =
     \<lparr>meta_manifest = ex_manifest, meta_vcs_tag = ''v1.1.0'', meta_vcs_commit = None,
      meta_sha256 = ex_sha ''new'', meta_format = TarGz\<rparr>"

definition ex_E :: externals where
  "ex_E =
     \<lparr>sha256_hex = ex_sha,
      chain_preimage = (\<lambda>ci. nat_str (ci_seq ci) @ '':'' @ ci_subject ci @ '':'' @ ci_prev ci),
      action_as_str = ex_action, action_parse = ex_action_parse,
      add_days = (\<lambda>t n. Some (t + n * 86400000000000)),
      rfc3339 = (\<lambda>t. nat_str (nat t)), uuid_str = (\<lambda>u. nat_str (unat u)),
      uuid_parse = (\<lambda>s. map_option of_nat (parse_unsigned 1000 s)),
      uuid_simple = (\<lambda>u. nat_str (unat u)),
      is_slug = (\<lambda>s. s \<noteq> [] \<and> list_all unreserved s),
      sort_desc = (\<lambda>vs. rev (sort vs)),
      format_extension = (\<lambda>f. case f of TarGz \<Rightarrow> ''tar.gz'' | Zip \<Rightarrow> ''zip''),
      format_content_type = (\<lambda>f. case f of TarGz \<Rightarrow> ''application/gzip'' | Zip \<Rightarrow> ''application/zip''),
      format_parse = (\<lambda>s. if s = ''zip'' then Some Zip else if s = ''tar.gz'' then Some TarGz else None),
      publish_meta_field = ''meta'', publish_artifact_field = ''artifact'',
      format_default = TarGz,
      artifact_path = (\<lambda>h. ''/v1/artifacts/'' @ h),
      archive_root = ''pkg'',
      manifest_validate = (\<lambda>_. None),
      decode_text = (\<lambda>bs. bs),
      meta_parse = (\<lambda>s. if s = ''meta'' then Inr ex_meta else Inl ''expected value''),
      vcs_uses_git_tags = (\<lambda>v. v = ''git''),
      vcs_parse = (\<lambda>s. Some s), vcs_default = ''git'', scheme_lenient = (\<lambda>s. s),
      presign = (\<lambda>b k. Inr (''https://'' @ b @ ''/'' @ k)),
      db_err_text = (\<lambda>_. ''database error''),
      nearest = (\<lambda>lit n rows. take n (map (\<lambda>r. (e_package r, 0)) rows)),
      tar_entries = (\<lambda>_ bs. Inr [TarEntry (Inr ''pkg/README.md'') 4 (''read'', None)]),
      http_get = (\<lambda>url tok. Reply 404 (Inl '''')),
      zip_by_name = (\<lambda>_ _. ZipMissing),
      scan_packages = (\<lambda>rows. rows), scan_versions = (\<lambda>rows. rows)\<rparr>"

lemma ex_E_simps [simp]:
  "sha256_hex ex_E = ex_sha"
  "chain_preimage ex_E = (\<lambda>ci. nat_str (ci_seq ci) @ '':'' @ ci_subject ci @ '':'' @ ci_prev ci)"
  "action_as_str ex_E = ex_action"
  "action_parse ex_E = ex_action_parse"
  "add_days ex_E = (\<lambda>t n. Some (t + n * 86400000000000))"
  "rfc3339 ex_E = (\<lambda>t. nat_str (nat t))"
  "uuid_str ex_E = (\<lambda>u. nat_str (unat u))"
  "uuid_parse ex_E = (\<lambda>s. map_option of_nat (parse_unsigned 1000 s))"
  "uuid_simple ex_E = (\<lambda>u. nat_str (unat u))"
  "is_slug ex_E = (\<lambda>s. s \<noteq> [] \<and> list_all unreserved s)"
  "sort_desc ex_E = (\<lambda>vs. rev (sort vs))"
  "format_extension ex_E = (\<lambda>f. case f of TarGz \<Rightarrow> ''tar.gz'' | Zip \<Rightarrow> ''zip'')"
  "format_content_type ex_E = (\<lambda>f. case f of TarGz \<Rightarrow> ''application/gzip'' | Zip \<Rightarrow> ''application/zip'')"
  "format_parse ex_E = (\<lambda>s. if s = ''zip'' then Some Zip else if s = ''tar.gz'' then Some TarGz else None)"
  "publish_meta_field ex_E = ''meta''"
  "publish_artifact_field ex_E = ''artifact''"
  "format_default ex_E = TarGz"
  "artifact_path ex_E = (\<lambda>h. ''/v1/artifacts/'' @ h)"
  "archive_root ex_E = ''pkg''"
  "manifest_validate ex_E = (\<lambda>_. None)"
  "decode_text ex_E = (\<lambda>bs. bs)"
  "meta_parse ex_E = (\<lambda>s. if s = ''meta'' then Inr ex_meta else Inl ''expected value'')"
  "vcs_uses_git_tags ex_E = (\<lambda>v. v = ''git'')"
  "vcs_parse ex_E = (\<lambda>s. Some s)"
  "vcs_default ex_E = ''git''"
  "scheme_lenient ex_E = (\<lambda>s. s)"
  "presign ex_E = (\<lambda>b k. Inr (''https://'' @ b @ ''/'' @ k))"
  "db_err_text ex_E = (\<lambda>_. ''database error'')"
  "nearest ex_E = (\<lambda>lit n rows. take n (map (\<lambda>r. (e_package r, 0)) rows))"
  "tar_entries ex_E = (\<lambda>_ bs. Inr [TarEntry (Inr ''pkg/README.md'') 4 (''read'', None)])"
  "http_get ex_E = (\<lambda>url tok. Reply 404 (Inl ''''))"
  "zip_by_name ex_E = (\<lambda>_ _. ZipMissing)"
  "scan_packages ex_E = (\<lambda>rows. rows)"
  "scan_versions ex_E = (\<lambda>rows. rows)"
  by (simp_all add: ex_E_def)

lemma ex_hex: "hex_digests ex_E"
  by (auto simp: hex_digests_def ex_E_def ex_sha_def min_def)

lemma ex_scans: "scans_ok ex_E"
  by (simp add: scans_ok_def ex_E_def)

lemma ex_sorts: "sorts_versions ex_E (\<ge>)"
  by (auto simp: sorts_versions_def ex_E_def sorted_wrt_rev)

lemma ex_sha_differs [simp]: "a \<noteq> b \<Longrightarrow> (ex_sha (a # s) = ex_sha (b # t)) = False"
  by (simp add: ex_sha_def)

section \<open>Worlds\<close>

definition ex_st :: app_state where
  "ex_st =
     \<lparr>backend = Sqlite, verify_tags = TagOff, github_token = None,
      public_base_url = ''http://localhost:8080'', max_orgs_per_token = 5,
      environ = (\<lambda>_. None)\<rparr>"

definition ex_token :: "uuid \<Rightarrow> string \<Rightarrow> uuid option \<Rightarrow> string \<Rightarrow> token_row" where
  "ex_token i name org role =
     \<lparr>t_id = i, t_name = name, t_hash = ex_sha name, t_org = org, t_role = role, t_created_at = 0,
      t_expires_at = None, t_revoked_at = None\<rparr>"

definition ex_version :: "uuid \<Rightarrow> string \<Rightarrow> bytes \<Rightarrow> bool \<Rightarrow> version_row" where
  "ex_version i ver bs y =
     \<lparr>v_id = i, v_package = 30, v_version = ver, v_sha256 = ex_sha bs, v_size = int (length bs),
      v_format = ''tar.gz'', v_vcs_tag = ''v'' @ ver, v_vcs_commit = None,
      v_artifact_key = artifact_key (ex_sha bs) ''tar.gz'', v_yanked = y, v_published_at = 0\<rparr>"

definition ex_db :: database where
  "ex_db =
     \<lparr>orgs = [\<lparr>o_id = 10, o_slug = ''acme'', o_created_at = 0, o_created_by = None\<rparr>,
              \<lparr>o_id = 11, o_slug = ''other'', o_created_at = 0, o_created_by = None\<rparr>],
      tokens = [ex_token 20 ''adm'' None ''owner'', ex_token 21 ''pub'' (Some 10) ''publisher'',
                ex_token 22 ''read'' (Some 10) ''reader''],
      packages = [\<lparr>p_id = 30, p_org = 10, p_name = ''tool'', p_description = None, p_vcs = ''git'',
                   p_repo_url = ''https://github.com/acme/tool'', p_scheme = ''semver'',
                   p_tags = JArray [JString ''cli''], p_created_at = 0\<rparr>],
      versions = [ex_version 40 ''1.0.0'' ''old'' False],
      audits = [], embeddings = []\<rparr>"

definition ex_store :: artifact_store where
  "ex_store = Local ''data'' [(''data/'' @ artifact_key (ex_sha ''old'') ''tar.gz'', ''old'')]"

definition ex_w :: world where
  "ex_w =
     \<lparr>db = ex_db, store = ex_store, clock = (\<lambda>n. 1000000 * (1 + int n)), ticks = 0,
      uuids = (\<lambda>n. of_nat (100 + n)), drawn = 0, faults = (\<lambda>_. None), calls = 0,
      io_events = (\<lambda>_. \<lparr>io_result = IoOk, io_declared = None\<rparr>), io_calls = 0\<rparr>"

definition ex_form :: "form_event list" where
  "ex_form = [Field (Some ''meta'') (Inr ''meta''), Field (Some ''artifact'') (Inr ''new'')]"

lemma ex_db_ok: "db_ok ex_db"
  by (simp add: db_ok_def unique_ok_def fk_ok_def indexed_defs ex_db_def ex_token_def ex_version_def
      ex_sha_def opt_holds_def package_key_def version_key_def audit_key_def)

lemma ex_w_db [simp]: "db ex_w = ex_db" "store ex_w = ex_store"
  by (simp_all add: ex_w_def)

lemma ex_st_simps [simp]:
  "backend ex_st = Sqlite" "verify_tags ex_st = TagOff" "github_token ex_st = None"
  "public_base_url ex_st = ''http://localhost:8080''" "max_orgs_per_token ex_st = 5"
  "environ ex_st v = None"
  by (simp_all add: ex_st_def)

lemma ex_w_simps [simp]:
  "clock ex_w n = 1000000 * (1 + int n)" "ticks ex_w = 0" "uuids ex_w n = of_nat (100 + n)"
  "drawn ex_w = 0" "faults ex_w n = None" "calls ex_w = 0"
  "io_events ex_w n = \<lparr>io_result = IoOk, io_declared = None\<rparr>" "io_calls ex_w = 0"
  by (simp_all add: ex_w_def)

lemma ex_bearer: "bearer_token (Some (''Bearer '' @ s)) = Some (str_trim s)"
  by (simp add: bearer_token_def)

lemma ex_trim: "str_trim ''pub'' = ''pub''" "str_trim ''adm'' = ''adm''" "str_trim ''read'' = ''read''"
  by code_simp+

lemma ex_on: "\<not> auth_disabled ex_st"
  by (simp add: auth_disabled_def)

lemma ex_tokens:
  "token_by_hash (ex_sha ''pub'') ex_db = Some (ex_token 21 ''pub'' (Some 10) ''publisher'')"
  "token_by_hash (ex_sha ''adm'') ex_db = Some (ex_token 20 ''adm'' None ''owner'')"
  "token_by_hash (ex_sha ''read'') ex_db = Some (ex_token 22 ''read'' (Some 10) ''reader'')"
  by (simp_all add: token_by_hash_def ex_db_def ex_token_def)

lemma ex_require:
  "require_token ex_E ex_st (Some ''Bearer pub'') ex_w =
     (Inr (ex_token 21 ''pub'' (Some 10) ''publisher''), next_call ex_w)"
  "require_token ex_E ex_st (Some ''Bearer adm'') ex_w =
     (Inr (ex_token 20 ''adm'' None ''owner''), next_call ex_w)"
  "require_token ex_E ex_st (Some ''Bearer read'') ex_w =
     (Inr (ex_token 22 ''read'' (Some 10) ''reader''), next_call ex_w)"
  using ex_bearer [of "''pub''"] ex_bearer [of "''adm''"] ex_bearer [of "''read''"]
  by (simp_all add: require_token_run [OF ex_on] ex_trim ex_tokens hash_token_def ex_token_def)

definition ex_org :: org_row where
  "ex_org = \<lparr>o_id = 10, o_slug = ''acme'', o_created_at = 0, o_created_by = None\<rparr>"

lemma ex_lookups:
  "org_by_slug ''acme'' ex_db = Some ex_org" "o_id ex_org = 10"
  "package_by_name 10 ''tool'' ex_db = Some (hd (packages ex_db))" "p_id (hd (packages ex_db)) = 30"
  "version_by_name 30 ''1.1.0'' ex_db = None"
  "version_by_name 30 ''1.0.0'' ex_db = Some (ex_version 40 ''1.0.0'' ''old'' False)"
  by (simp_all add: org_by_slug_def package_by_name_def version_by_name_def ex_db_def ex_org_def
      ex_version_def)

lemma ex_token_simps [simp]:
  "t_org (ex_token i n o' r) = o'" "t_role (ex_token i n o' r) = r" "t_id (ex_token i n o' r) = i"
  "t_name (ex_token i n o' r) = n" "t_revoked_at (ex_token i n o' r) = None"
  by (simp_all add: ex_token_def)

lemma ex_checks:
  "authorize_publish (Some 10) (role_parse ''publisher'') 10 = Inr ()"
  "read_multipart ex_E ex_form = Inr (ex_meta, ''new'')"
  "check_body ex_E ''acme'' ''tool'' ''1.1.0'' ex_meta ''new'' = Inr ()"
  "check_tag ex_E ex_st ex_meta = Inr ()"
  by (simp_all add: authorize_publish_def role_parse_def read_multipart_def ex_form_def ex_meta_def
      check_body_def ex_manifest_def check_tag_def verify_def)

definition ex_front :: "token_row \<times> org_row \<times> publish_meta \<times> bytes" where
  "ex_front = (ex_token 21 ''pub'' (Some 10) ''publisher'', ex_org, ex_meta, ''new'')"

definition ex_w1 :: world where
  "ex_w1 = next_call (next_call (next_call (next_call ex_w)))"

lemma ex_w1_simps [simp]:
  "db ex_w1 = ex_db" "store ex_w1 = ex_store" "clock ex_w1 n = 1000000 * (1 + int n)"
  "ticks ex_w1 = 0" "uuids ex_w1 n = of_nat (100 + n)" "drawn ex_w1 = 0" "faults ex_w1 n = None"
  "io_events ex_w1 n = \<lparr>io_result = IoOk, io_declared = None\<rparr>" "io_calls ex_w1 = 0"
  by (simp_all add: ex_w1_def)

lemma ex_publish_front:
  "publish_front ex_E ex_st (Some ''Bearer pub'') ''acme'' ''tool'' ''1.1.0'' ex_form ex_w =
     (Inr ex_front, ex_w1)"
  by (simp add: publish_front_def run_simps ex_require ex_lookups ex_checks check_immutable_def
      find_package_row_def ex_front_def ex_w1_def)

definition ex_resp :: publish_response where
  "ex_resp = \<lparr>pub_org = ''acme'', pub_name = ''tool'', pub_version = ''1.1.0'', pub_sha256 = ex_sha ''new''\<rparr>"

lemma ex_upsert:
  "\<exists>d. upsert_package_row (manifest_package i now ex_org ''tool'' ex_manifest) ex_db = Inr d \<and>
     package_by_name 10 ''tool'' d = Some (refresh_package (manifest_package i now ex_org ''tool'' ex_manifest) (hd (packages ex_db))) \<and>
     versions d = versions ex_db \<and> p_id ` set (packages d) = {30}"
  by (simp add: upsert_package_row_def ex_db_def package_key_def manifest_package_def ex_org_def
      update_packages_def map_where_def package_by_name_def refresh_package_def)

lemma ex_version_new: 
  "versions d = versions ex_db \<Longrightarrow> p_id ` set (packages d) = {30} \<Longrightarrow> p_id pkg = 30 \<Longrightarrow>
     insert_version (new_version ex_E 101 now pkg ''1.1.0'' ex_meta sha len key) d =
       Inr (d\<lparr>versions := versions d @ [new_version ex_E 101 now pkg ''1.1.0'' ex_meta sha len key]\<rparr>)"
  unfolding insert_version_Inr
  by (simp add: ex_db_def new_version_def version_key_def ex_version_def)

lemma ex_publish_back:
  "\<exists>w'. publish_back ex_E ex_st ''acme'' ''tool'' ''1.1.0'' (ex_token 21 ''pub'' (Some 10) ''publisher'')
      ex_org ex_meta ''new'' ex_w1 = (Inr ex_resp, w')"
proof -
  obtain d where d: "upsert_package_row (manifest_package 100 1000000 ex_org ''tool'' ex_manifest) ex_db = Inr d"
    "package_by_name 10 ''tool'' d = Some (refresh_package (manifest_package 100 1000000 ex_org ''tool'' ex_manifest) (hd (packages ex_db)))"
    "versions d = versions ex_db" "p_id ` set (packages d) = {30}"
    using ex_upsert by blast
  have m: "meta_manifest ex_meta = ex_manifest" by (simp add: ex_meta_def)
  have id: "p_id (refresh_package new (hd (packages ex_db))) = 30" for new
    by (simp add: refresh_package_def ex_db_def)
  have "\<exists>w2. (publish_txn ex_E ex_org ''acme'' ''tool'' ''1.1.0'' ex_meta sha len key) w = (Inr (), w2)"
    if "db w = ex_db" "\<And>n. faults w n = None" "ticks w = 0" "drawn w = 0"
      "\<And>n. clock w n = 1000000 * (1 + int n)" "\<And>n. uuids w n = of_nat (100 + n)" for w sha len key
    using that d
    by (simp add: publish_txn_def in_txn_def upsert_package_def record_version_def run_simps
        statement_eq insert_stmt_def m ex_lookups ex_version_new [OF d(3,4) id])
  note txn = this
  let ?key = "artifact_key (ex_sha ''new'') (format_extension ex_E (meta_format ex_meta))"
  obtain s where put: "put_artifact ?key ''new'' ex_w1 = (Inr (), ex_w1\<lparr>store := s, io_calls := 1\<rparr>)"
    by (simp add: put_artifact_def ex_store_def)
  obtain w2 where w2: "publish_txn ex_E ex_org ''acme'' ''tool'' ''1.1.0'' ex_meta (ex_sha ''new'') 3 ?key
      (ex_w1\<lparr>store := s, io_calls := 1\<rparr>) = (Inr (), w2)"
    using txn [of "ex_w1\<lparr>store := s, io_calls := 1\<rparr>" "ex_sha ''new''" 3 ?key] by auto
  obtain e w3 where w3: "record_audit ex_E ex_st (o_id ex_org) (ex_token 21 ''pub'' (Some 10) ''publisher'')
      Publish (coordinate ''acme'' ''tool'' ''1.1.0'') (Some (''sha256='' @ ex_sha ''new'')) w2 = (Inr e, w3)"
    unfolding record_audit_def using record_loop_total by blast
  show ?thesis
    unfolding publish_back_def Let_def
    using put w2 w3 by (simp add: andThen_def map_err_def ex_resp_def)
qed

lemma ex_publish:
  "\<exists>w'. publish ex_E ex_st (Some ''Bearer pub'') ''acme'' ''tool'' ''1.1.0'' ex_form ex_w = (Inr ex_resp, w')"
  using ex_publish_back by (simp add: publish_split andThen_def ex_publish_front ex_front_def)

section \<open>Serving\<close>

definition ex_put :: request where
  "ex_put = PutVersion (Some ''Bearer pub'') ''acme'' ''tool'' ''1.1.0'' ex_form"

definition ex_w' :: world where
  "ex_w' = snd (handle ex_E ex_st ex_put ex_w)"

lemma ex_clean: "clean_events ex_w"
  by (simp add: clean_events_def clean_io_def)

lemma ex_served: "served ex_E whole ex_w ex_w'"
  unfolding ex_w'_def
  by (rule served_handle [OF _ served_refl refl]) (simp_all add: ex_hex events_ok_def ex_clean)

lemma ex_published: "publish ex_E ex_st (Some ''Bearer pub'') ''acme'' ''tool'' ''1.1.0'' ex_form ex_w = (Inr ex_resp, ex_w')"
proof -
  obtain w' where w': "publish ex_E ex_st (Some ''Bearer pub'') ''acme'' ''tool'' ''1.1.0'' ex_form ex_w = (Inr ex_resp, w')"
    using ex_publish by blast
  then have "ex_w' = w'" by (simp add: ex_w'_def ex_put_def answer_def)
  with w' show ?thesis by simp
qed

lemma ex_backed: "all_backed ex_E whole (shared ex_w)"
  by (simp add: all_backed_def backed_def held_def ex_db_def ex_store_def ex_version_def local_path_def
      artifact_key_def)

lemma ex_chain: "chain_inv ex_E ex_db" "all_hashed ex_db"
  using ex_db_ok by (simp_all add: chain_inv_def all_hashed_def ex_db_def org_log_def org_rows_def log_ok_def chain_part_def)

lemma ex_catalog: "catalog ex_db (''acme'', ''tool'', ''1.0.0'') = Some (ex_sha ''old'', False)"
  by (simp add: catalog_def ex_lookups entry_def) (simp add: ex_version_def)

text \<open>The publish as a process among others.\<close>

lemma ex_among:
  "among ex_E False (publish_proc ex_E ex_st (Some ''Bearer pub'') ''acme'' ''tool'' ''1.1.0'' ex_form)
     ex_w (Inr ex_resp) ex_w'"
  by (rule among_run [OF safe_publish, where ?w1.0 = ex_w'])
    (simp_all add: run_publish ex_published events_ok_def)

lemma ex_versions_after:
  "\<exists>r. versions (db ex_w') = versions ex_db @ [r] \<and> v_version r = ''1.1.0'' \<and>
     v_sha256 r = ex_sha ''new'' \<and> v_format r = ''tar.gz''"
proof -
  have "publish_back ex_E ex_st ''acme'' ''tool'' ''1.1.0'' (ex_token 21 ''pub'' (Some 10) ''publisher'')
      ex_org ex_meta ''new'' ex_w1 = (Inr ex_resp, ex_w')"
    using ex_published by (simp add: publish_split andThen_def ex_publish_front ex_front_def)
  from publish_back_Inr(1) [OF this] obtain d1 d2 new j now pkg len key
    where "upsert_package_row new (db ex_w1) = Inr d1"
      "insert_version (new_version ex_E j now pkg ''1.1.0'' ex_meta (sha256_hex ex_E ''new'') len key) d1 = Inr d2"
      "same_but_audits d2 (db ex_w')"
    by blast
  then have "versions (db ex_w') = versions ex_db @
      [new_version ex_E j now pkg ''1.1.0'' ex_meta (sha256_hex ex_E ''new'') len key]"
    by (auto dest!: upsert_package_row_frame simp: insert_version_Inr same_but_audits_simps)
  then show ?thesis by (simp add: new_version_def ex_E_def ex_meta_def)
qed

lemma ex_versions: "ex_version 40 ''1.0.0'' ''old'' False \<in> set (versions (db ex_w'))"
  using ex_versions_after by (auto simp: ex_db_def)

text \<open>The same registry with the publisher's token revoked.\<close>

definition ex_revoked :: world where
  "ex_revoked = ex_w\<lparr>db := update_token 21 (\<lambda>r. r\<lparr>t_revoked_at := Some 5\<rparr>) ex_db\<rparr>"

lemma ex_pub_bearer: "bearer_token (Some ''Bearer pub'') = Some ''pub''"
  using ex_bearer [of "''pub''"] ex_trim by simp

lemma ex_revoked_facts:
  "db_ok (db ex_revoked)"
  "(ex_token 21 ''pub'' (Some 10) ''publisher'')\<lparr>t_revoked_at := Some 5\<rparr> \<in> set (tokens (db ex_revoked))"
  "served ex_E False ex_revoked (snd (handle ex_E ex_st ex_put ex_revoked))"
  "faults (snd (handle ex_E ex_st ex_put ex_revoked)) (calls (snd (handle ex_E ex_st ex_put ex_revoked))) = None"
proof -
  show "db_ok (db ex_revoked)" unfolding ex_revoked_def using revoked_ok [OF ex_db_ok] by simp
  show "(ex_token 21 ''pub'' (Some 10) ''publisher'')\<lparr>t_revoked_at := Some 5\<rparr> \<in> set (tokens (db ex_revoked))"
    by (simp add: ex_revoked_def update_token_def map_where_def ex_db_def)
  show "served ex_E False ex_revoked (snd (handle ex_E ex_st ex_put ex_revoked))"
    by (rule served_handle [OF _ served_refl refl]) (simp_all add: events_ok_def)
  have "token_by_hash (ex_sha ''pub'') (db ex_revoked) =
      Some ((ex_token 21 ''pub'' (Some 10) ''publisher'')\<lparr>t_revoked_at := Some 5\<rparr>)"
    by (simp add: ex_revoked_def update_token_def map_where_def ex_db_def token_by_hash_def)
      (simp add: ex_token_def)
  then have "snd (handle ex_E ex_st ex_put ex_revoked) = next_call ex_revoked"
    by (simp add: ex_put_def answer_def publish_def andThen_def require_token_run [OF ex_on] ex_pub_bearer
        hash_token_def ex_revoked_def)
  then show "faults (snd (handle ex_E ex_st ex_put ex_revoked)) (calls (snd (handle ex_E ex_st ex_put ex_revoked))) = None"
    by (simp add: ex_revoked_def)
qed

end
