(* ===== verification/Router.thy ===== *)
theory Router
  imports System
begin

text \<open>
  The route table and the layers of \<open>src/routes/mod.rs\<close>, built with the operations the code builds
  them with (\<open>route\<close>, \<open>layer\<close>, \<open>merge\<close>). The path syntax is the one axum documents: literal
  segments, \<open>{name}\<close> for one segment that is not empty, \<open>{*name}\<close> for the rest; a layer wraps the
  routes added before it. Shown here: no path is claimed by two routes, every request of \<open>System\<close>
  reaches the handler that \<open>handle\<close> runs for it, and which limits apply to which endpoint.
\<close>

section \<open>Patterns\<close>

datatype segment = Literal string | Param string | Catch_All string

definition parse_segment :: "string \<Rightarrow> segment" where
  "parse_segment s =
     (if prefix ''{*'' s then Catch_All (butlast (drop 2 s))
      else if prefix ''{'' s then Param (butlast (drop 1 s))
      else Literal s)"

definition parse_route :: "string \<Rightarrow> segment list" where
  "parse_route r = map parse_segment (tl (split_on CHR ''/'' r))"

text \<open>The parameters of a path that a pattern captures.\<close>

fun matches :: "segment list \<Rightarrow> string list \<Rightarrow> (string \<times> string) list option" where
  "matches [] [] = Some []"
| "matches [Catch_All n] (s # ss) =
     (if s = [] \<and> ss = [] then None else Some [(n, join_with ''/'' (s # ss))])"
| "matches (Literal l # ps) (s # ss) = (if l = s then matches ps ss else None)"
| "matches (Param n # ps) (s # ss) =
     (if s = [] then None else map_option ((#) (n, s)) (matches ps ss))"
| "matches _ _ = None"

section \<open>Routers\<close>

datatype http_method = GET | PUT | POST

datatype endpoint =
  Healthz | List_Packages | Get_Package | Get_Version | Publish_Version | Yank_Version | Get_Artifact
| Get_File | Search | Semantic_Search | Upsert_Embedding | Claim_Org | Get_Audit_Log | Verify_Audit_Log

datatype layer =
  Concurrency_Limit nat | Body_Limit nat | Rate_Limit | Trace | Timeout nat | Override_Header string string

record route_entry =
  r_path :: string
  r_methods :: "(http_method \<times> endpoint) list"
  r_layers :: "layer list"

type_synonym router = "route_entry list"

definition route :: "string \<Rightarrow> (http_method \<times> endpoint) list \<Rightarrow> router \<Rightarrow> router" where
  "route p ms R = R @ [\<lparr>r_path = p, r_methods = ms, r_layers = []\<rparr>]"

text \<open>The layers of an entry are listed from the innermost out.\<close>

definition layer :: "layer \<Rightarrow> router \<Rightarrow> router" where
  "layer l R = map (\<lambda>r. r\<lparr>r_layers := r_layers r @ [l]\<rparr>) R"

definition merge :: "router \<Rightarrow> router \<Rightarrow> router" where
  "merge S R = R @ S"

definition ROUTE_PACKAGE :: string where "ROUTE_PACKAGE = ''/v1/packages/{org}/{name}''"
definition ROUTE_VERSION :: string where
  "ROUTE_VERSION = ''/v1/packages/{org}/{name}/versions/{version}''"
definition ROUTE_YANK :: string where
  "ROUTE_YANK = ''/v1/packages/{org}/{name}/versions/{version}/yank''"
definition ROUTE_ARTIFACT :: string where "ROUTE_ARTIFACT = ''/v1/artifacts/{sha256}''"
definition ROUTE_SEARCH :: string where "ROUTE_SEARCH = ''/v1/search''"
definition ROUTE_PACKAGES_LIST :: string where "ROUTE_PACKAGES_LIST = ''/v1/packages''"
definition ROUTE_SEMANTIC :: string where "ROUTE_SEMANTIC = ''/v1/search/semantic''"
definition ROUTE_EMBEDDING :: string where
  "ROUTE_EMBEDDING = ''/v1/packages/{org}/{name}/embedding''"
definition ROUTE_ORGS :: string where "ROUTE_ORGS = ''/v1/orgs''"
definition ROUTE_AUDIT :: string where "ROUTE_AUDIT = ''/v1/orgs/{org}/audit''"
definition ROUTE_AUDIT_VERIFY :: string where "ROUTE_AUDIT_VERIFY = ''/v1/orgs/{org}/audit/verify''"
definition ROUTE_FILES :: string where
  "ROUTE_FILES = ''/v1/files/{org}/{name}/{version}/{*path}''"

definition REQUEST_TIMEOUT :: nat where "REQUEST_TIMEOUT = 30"
definition JSON_BODY_LIMIT :: nat where "JSON_BODY_LIMIT = 64 * 1024"

definition artifact_routes :: "app_state \<Rightarrow> nat \<Rightarrow> router" where
  "artifact_routes st max_artifact =
     layer (Concurrency_Limit (artifact_serve_concurrency st max_artifact))
      (route ROUTE_FILES [(GET, Get_File)]
      (route ROUTE_ARTIFACT [(GET, Get_Artifact)] []))"

definition publish_route :: "nat \<Rightarrow> router" where
  "publish_route max_artifact =
     layer (Body_Limit max_artifact)
      (route ROUTE_VERSION [(GET, Get_Version), (PUT, Publish_Version)] [])"

definition router :: "app_state \<Rightarrow> nat \<Rightarrow> router" where
  "router st max_artifact =
     layer (Override_Header ''x-content-type-options'' ''nosniff'')
    (layer (Timeout REQUEST_TIMEOUT)
    (layer (Concurrency_Limit MAX_IN_FLIGHT_REQUESTS)
    (layer Trace
    (layer Rate_Limit
    (merge (publish_route max_artifact)
    (layer (Body_Limit JSON_BODY_LIMIT)
    (merge (artifact_routes st max_artifact)
    (route ROUTE_AUDIT_VERIFY [(GET, Verify_Audit_Log)]
    (route ROUTE_AUDIT [(GET, Get_Audit_Log)]
    (route ROUTE_ORGS [(POST, Claim_Org)]
    (route ROUTE_SEMANTIC [(POST, Semantic_Search)]
    (route ROUTE_SEARCH [(GET, Search)]
    (route ROUTE_YANK [(POST, Yank_Version)]
    (route ROUTE_EMBEDDING [(PUT, Upsert_Embedding)]
    (route ROUTE_PACKAGE [(GET, Get_Package)]
    (route ROUTE_PACKAGES_LIST [(GET, List_Packages)]
    (route ''/healthz'' [(GET, Healthz)] [])))))))))))))))))"

datatype dispatched = Not_Found | Method_Not_Allowed | Handler endpoint "(string \<times> string) list"

definition dispatch :: "router \<Rightarrow> http_method \<Rightarrow> string \<Rightarrow> dispatched" where
  "dispatch R m path =
     (case find (\<lambda>r. matches (parse_route (r_path r)) (tl (split_on CHR ''/'' path)) \<noteq> None) R of
        None \<Rightarrow> Not_Found
      | Some r \<Rightarrow>
          (case map_of (r_methods r) m of
             None \<Rightarrow> Method_Not_Allowed
           | Some e \<Rightarrow>
               Handler e (the (matches (parse_route (r_path r)) (tl (split_on CHR ''/'' path))))))"

lemmas route_paths = ROUTE_PACKAGE_def ROUTE_VERSION_def ROUTE_YANK_def ROUTE_ARTIFACT_def ROUTE_SEARCH_def
  ROUTE_PACKAGES_LIST_def ROUTE_SEMANTIC_def ROUTE_EMBEDDING_def ROUTE_ORGS_def ROUTE_AUDIT_def
  ROUTE_AUDIT_VERIFY_def ROUTE_FILES_def

lemmas router_defs = router_def artifact_routes_def publish_route_def layer_def merge_def route_def

section \<open>No path belongs to two routes\<close>

text \<open>Whether some path could match both patterns.\<close>

fun overlap :: "segment list \<Rightarrow> segment list \<Rightarrow> bool" where
  "overlap (Literal a # ps) (Literal b # qs) = (a = b \<and> overlap ps qs)"
| "overlap (Catch_All _ # _) (_ # _) = True"
| "overlap (_ # _) (Catch_All _ # _) = True"
| "overlap (_ # ps) (_ # qs) = overlap ps qs"
| "overlap [] [] = True"
| "overlap _ _ = False"

lemma matches_Nil [simp]: "matches ps [] \<noteq> None \<longleftrightarrow> ps = []"
  by (cases "(ps, [] :: string list)" rule: matches.cases) auto

lemma matches_overlap:
  "matches ps ss \<noteq> None \<Longrightarrow> matches qs ss \<noteq> None \<Longrightarrow> overlap ps qs"
proof (induction ps qs arbitrary: ss rule: overlap.induct)
qed (case_tac [!] ss; auto split: if_splits)+

text \<open>The patterns of the table.\<close>

definition patterns :: "segment list list" where
  "patterns =
     [[Literal ''healthz''],
      [Literal ''v1'', Literal ''packages''],
      [Literal ''v1'', Literal ''packages'', Param ''org'', Param ''name''],
      [Literal ''v1'', Literal ''packages'', Param ''org'', Param ''name'', Literal ''embedding''],
      [Literal ''v1'', Literal ''packages'', Param ''org'', Param ''name'', Literal ''versions'',
       Param ''version'', Literal ''yank''],
      [Literal ''v1'', Literal ''search''],
      [Literal ''v1'', Literal ''search'', Literal ''semantic''],
      [Literal ''v1'', Literal ''orgs''],
      [Literal ''v1'', Literal ''orgs'', Param ''org'', Literal ''audit''],
      [Literal ''v1'', Literal ''orgs'', Param ''org'', Literal ''audit'', Literal ''verify''],
      [Literal ''v1'', Literal ''artifacts'', Param ''sha256''],
      [Literal ''v1'', Literal ''files'', Param ''org'', Param ''name'', Param ''version'', Catch_All ''path''],
      [Literal ''v1'', Literal ''packages'', Param ''org'', Param ''name'', Literal ''versions'', Param ''version'']]"

lemma parse_routes: "map (\<lambda>r. parse_route (r_path r)) (router st m) = patterns"
  unfolding router_defs route_paths patterns_def by (simp add: comp_def) code_simp

lemma patterns_disjoint:
  assumes "i < length patterns" "j < length patterns" "i \<noteq> j"
  shows "\<not> overlap (patterns ! i) (patterns ! j)"
proof -
  have "sorted_wrt (\<lambda>p q. \<not> overlap p q \<and> \<not> overlap q p) patterns"
    unfolding patterns_def by code_simp
  from sorted_wrt_nth_less [OF this, of i j] sorted_wrt_nth_less [OF this, of j i] assms
  show ?thesis by (cases i j rule: linorder_cases) simp_all
qed

section \<open>Finding a route\<close>

text \<open>A path is claimed by the route at index \<open>i\<close> and by no other.\<close>

lemma split_join:
  assumes "ps \<noteq> []" "\<forall>p\<in>set ps. c \<notin> set p"
  shows "split_on c (join_with [c] ps) = ps"
  using assms
proof (induction "[c]" ps rule: join_with.induct)
  case (2 p)
  then show ?case by (induction p) auto
next
  case (3 p q ps)
  have "split_on c (xs @ c # ys) = xs # split_on c ys" if "c \<notin> set xs" for xs ys
    using that by (induction xs) auto
  with 3 show ?case by simp
qed simp

lemma router_length [simp]: "length (router st m) = length patterns"
  using parse_routes [of st m] by (metis length_map)

lemma router_pattern: "i < length patterns \<Longrightarrow> parse_route (r_path (router st m ! i)) = patterns ! i"
  using arg_cong [OF parse_routes [of st m], of "\<lambda>xs. xs ! i"] by simp

definition segments :: "string \<Rightarrow> string list" where
  "segments path = tl (split_on CHR ''/'' path)"

lemma find_nth:
  assumes "i < length xs" "P (xs ! i)" "\<And>j. j < length xs \<Longrightarrow> P (xs ! j) \<Longrightarrow> j = i"
  shows "find P xs = Some (xs ! i)"
proof -
  have "\<forall>j<i. \<not> P (xs ! j)"
    using assms(1,3) by (metis less_irrefl less_trans)
  with assms(1,2) show ?thesis unfolding find_Some_iff by blast
qed

lemma dispatch_route:
  assumes "i < length patterns" "matches (patterns ! i) (segments path) = Some ps"
    "map_of (r_methods (router st max_artifact ! i)) meth = Some e"
  shows "dispatch (router st max_artifact) meth path = Handler e ps"
proof -
  have "find (\<lambda>r. matches (parse_route (r_path r)) (segments path) \<noteq> None) (router st max_artifact) =
      Some (router st max_artifact ! i)"
  proof (rule find_nth)
    fix j assume "j < length (router st max_artifact)"
      and "matches (parse_route (r_path (router st max_artifact ! j))) (segments path) \<noteq> None"
    then have "overlap (patterns ! i) (patterns ! j)"
      using assms(2) matches_overlap [of "patterns ! i" "segments path" "patterns ! j"]
      by (simp add: router_pattern)
    with patterns_disjoint [OF assms(1)] \<open>j < length (router st max_artifact)\<close> show "j = i" by auto
  qed (use assms in \<open>simp_all add: router_pattern\<close>)
  then show ?thesis using assms by (simp add: dispatch_def segments_def router_pattern)
qed

section \<open>Requests and their handlers\<close>

text \<open>
  The raw path of a request of \<open>System\<close>, its method and the handler that \<open>handle\<close> runs for it. The
  query string and the body are not part of the routing.
\<close>

fun request_path :: "request \<Rightarrow> string list" where
  "request_path (ListPackages _ _ _ _) = [''v1'', ''packages'']"
| "request_path (GetPackage _ org name) = [''v1'', ''packages'', org, name]"
| "request_path (GetVersion _ org name ver) = [''v1'', ''packages'', org, name, ''versions'', ver]"
| "request_path (PutVersion _ org name ver _) = [''v1'', ''packages'', org, name, ''versions'', ver]"
| "request_path (PostYank _ org name ver _) =
     [''v1'', ''packages'', org, name, ''versions'', ver, ''yank'']"
| "request_path (GetArtifact _ sha) = [''v1'', ''artifacts'', sha]"
| "request_path (GetFile _ org name ver path) =
     [''v1'', ''files'', org, name, ver] @ split_on CHR ''/'' path"
| "request_path (GetSearch _ _ _) = [''v1'', ''search'']"
| "request_path (PostSemantic _ _ _ _ _) = [''v1'', ''search'', ''semantic'']"
| "request_path (PutEmbedding _ org name _ _ _) = [''v1'', ''packages'', org, name, ''embedding'']"
| "request_path (PostOrg _ _ _) = [''v1'', ''orgs'']"
| "request_path (GetAudit _ org _) = [''v1'', ''orgs'', org, ''audit'']"
| "request_path (GetAuditVerify _ org) = [''v1'', ''orgs'', org, ''audit'', ''verify'']"

fun request_endpoint :: "request \<Rightarrow> http_method \<times> endpoint \<times> (string \<times> string) list" where
  "request_endpoint (ListPackages _ _ _ _) = (GET, List_Packages, [])"
| "request_endpoint (GetPackage _ org name) = (GET, Get_Package, [(''org'', org), (''name'', name)])"
| "request_endpoint (GetVersion _ org name ver) =
     (GET, Get_Version, [(''org'', org), (''name'', name), (''version'', ver)])"
| "request_endpoint (PutVersion _ org name ver _) =
     (PUT, Publish_Version, [(''org'', org), (''name'', name), (''version'', ver)])"
| "request_endpoint (PostYank _ org name ver _) =
     (POST, Yank_Version, [(''org'', org), (''name'', name), (''version'', ver)])"
| "request_endpoint (GetArtifact _ sha) = (GET, Get_Artifact, [(''sha256'', sha)])"
| "request_endpoint (GetFile _ org name ver path) =
     (GET, Get_File, [(''org'', org), (''name'', name), (''version'', ver), (''path'', path)])"
| "request_endpoint (GetSearch _ _ _) = (GET, Search, [])"
| "request_endpoint (PostSemantic _ _ _ _ _) = (POST, Semantic_Search, [])"
| "request_endpoint (PutEmbedding _ org name _ _ _) =
     (PUT, Upsert_Embedding, [(''org'', org), (''name'', name)])"
| "request_endpoint (PostOrg _ _ _) = (POST, Claim_Org, [])"
| "request_endpoint (GetAudit _ org _) = (GET, Get_Audit_Log, [(''org'', org)])"
| "request_endpoint (GetAuditVerify _ org) = (GET, Verify_Audit_Log, [(''org'', org)])"

definition request_url :: "request \<Rightarrow> string" where
  "request_url req = ''/'' @ join_with ''/'' (request_path req)"

text \<open>The path parameters can be segments: not empty, and without a slash but in a file's path.\<close>

fun param_ok :: "string \<times> string \<Rightarrow> bool" where
  "param_ok (n, s) \<longleftrightarrow> s \<noteq> [] \<and> (n \<noteq> ''path'' \<longrightarrow> CHR ''/'' \<notin> set s)"

definition path_params_ok :: "request \<Rightarrow> bool" where
  "path_params_ok req \<longleftrightarrow> list_all param_ok (snd (snd (request_endpoint req)))"

lemma request_segments:
  assumes "path_params_ok req"
  shows "segments (request_url req) = request_path req"
proof -
  have "request_path req \<noteq> []" by (cases req) simp_all
  moreover have "\<forall>p\<in>set (request_path req). CHR ''/'' \<notin> set p"
    using assms by (cases req) (auto simp: path_params_ok_def dest: split_on_pieces)
  ultimately have "split_on CHR ''/'' (join_with ''/'' (request_path req)) = request_path req"
    by (rule split_join)
  then show ?thesis by (simp add: segments_def request_url_def)
qed

lemma matches_rest:
  "s \<noteq> [] \<Longrightarrow> matches [Catch_All n] (split_on CHR ''/'' s) = Some [(n, s)]"
proof -
  assume "s \<noteq> []"
  obtain p ps where split: "split_on CHR ''/'' s = p # ps" by (cases "split_on CHR ''/'' s") simp_all
  with join_split [of "CHR ''/''" s] \<open>s \<noteq> []\<close> have "\<not> (p = [] \<and> ps = [])" by auto
  with split join_split [of "CHR ''/''" s] show ?thesis by simp
qed

text \<open>The index of a request's route in the table.\<close>

fun route_index :: "request \<Rightarrow> nat" where
  "route_index (ListPackages _ _ _ _) = 1"
| "route_index (GetPackage _ _ _) = 2"
| "route_index (PutEmbedding _ _ _ _ _ _) = 3"
| "route_index (PostYank _ _ _ _ _) = 4"
| "route_index (GetSearch _ _ _) = 5"
| "route_index (PostSemantic _ _ _ _ _) = 6"
| "route_index (PostOrg _ _ _) = 7"
| "route_index (GetAudit _ _ _) = 8"
| "route_index (GetAuditVerify _ _) = 9"
| "route_index (GetArtifact _ _) = 10"
| "route_index (GetFile _ _ _ _ _) = 11"
| "route_index _ = 12"

lemma request_matches:
  assumes "path_params_ok req"
  shows "matches (patterns ! route_index req) (request_path req) = Some (snd (snd (request_endpoint req)))"
  using assms
  by (cases req) (auto simp: patterns_def path_params_ok_def matches_rest)

lemma request_method:
  "map_of (r_methods (router st m ! route_index req)) (fst (request_endpoint req)) =
     Some (fst (snd (request_endpoint req)))"
  by (cases req) (simp_all add: router_defs)

text \<open>
  C13: Every request whose path parameters can be path segments is routed to its own handler with
  exactly its parameters: the table has no path that two routes claim, so neither the order of the
  routes nor another route's parameters can divert it.
\<close>

theorem request_reaches_its_handler:
  assumes "path_params_ok req" "request_endpoint req = (meth, e, ps)"
  shows "dispatch (router st max_artifact) meth (request_url req) = Handler e ps"
proof (rule dispatch_route)
  show "route_index req < length patterns" by (cases req) (simp_all add: patterns_def)
  show "matches (patterns ! route_index req) (segments (request_url req)) = Some ps"
    using request_matches [OF assms(1)] by (simp add: request_segments [OF assms(1)] assms(2))
  show "map_of (r_methods (router st max_artifact ! route_index req)) meth = Some e"
    using request_method [of st max_artifact req] by (simp add: assms(2))
qed

section \<open>The layers of a route\<close>

text \<open>
  Of several body limits the innermost holds. A concurrency limit of tower belongs to the service
  it wraps, and a layer of a router wraps each of its routes: every route has its own.
\<close>

fun body_limit :: "layer list \<Rightarrow> nat option" where
  "body_limit [] = None"
| "body_limit (Body_Limit n # ls) = Some n"
| "body_limit (_ # ls) = body_limit ls"

fun in_flight :: "layer list \<Rightarrow> nat option" where
  "in_flight [] = None"
| "in_flight (Concurrency_Limit n # ls) = Some (case in_flight ls of None \<Rightarrow> n | Some k \<Rightarrow> min n k)"
| "in_flight (_ # ls) = in_flight ls"

definition outer_layers :: "layer list" where
  "outer_layers =
     [Rate_Limit, Trace, Concurrency_Limit MAX_IN_FLIGHT_REQUESTS, Timeout REQUEST_TIMEOUT,
      Override_Header ''x-content-type-options'' ''nosniff'']"

lemma route_layers:
  "map (\<lambda>r. (map snd (r_methods r), r_layers r)) (router st m) =
     map (\<lambda>e. ([e], Body_Limit JSON_BODY_LIMIT # outer_layers))
       [Healthz, List_Packages, Get_Package, Upsert_Embedding, Yank_Version, Search, Semantic_Search,
        Claim_Org, Get_Audit_Log, Verify_Audit_Log]
     @ map (\<lambda>e. ([e], [Concurrency_Limit (artifact_serve_concurrency st m), Body_Limit JSON_BODY_LIMIT]
                       @ outer_layers)) [Get_Artifact, Get_File]
     @ [([Get_Version, Publish_Version], Body_Limit m # outer_layers)]"
  by (simp add: router_defs outer_layers_def)

text \<open>
  C22: Every endpoint is rate limited, times out and is served as \<open>nosniff\<close>; only the publish route
  takes a body as large as an artifact, every other takes at most 64 KiB; and an endpoint that
  buffers whole artifacts serves no more of them at once than fit the memory budget (or one).
\<close>

theorem route_limits:
  assumes "r \<in> set (router st m)" "e \<in> set (map snd (r_methods r))"
  shows "body_limit (r_layers r) =
       Some (if e = Publish_Version \<or> e = Get_Version then m else JSON_BODY_LIMIT) \<and>
     suffix outer_layers (r_layers r) \<and>
     (e = Get_Artifact \<or> e = Get_File \<longrightarrow>
       (\<exists>n. in_flight (r_layers r) = Some n \<and> n * m \<le> max (serve_budget st) m))"
proof -
  have "(map snd (r_methods r), r_layers r) \<in>
      set (map (\<lambda>r. (map snd (r_methods r), r_layers r)) (router st m))"
    using assms(1) by auto
  moreover have "n * m \<le> max (serve_budget st) m" if "n \<le> artifact_serve_concurrency st m" for n
    using mult_le_mono1 [OF that, of m] serve_concurrency_memory [of st m] by (rule order_trans)
  ultimately show ?thesis
    using assms(2) unfolding route_layers
    by (auto simp: suffix_def outer_layers_def)
qed

end
