(* ===== verification/Sql.thy ===== *)
theory Sql
  imports Schema "HOL-Library.AList"
begin

text \<open>
  The SQL the migrations of \<open>migration/src/\<close> speak: tables with typed columns, defaults and
  foreign keys, indexes, extensions, and one executor for the statements the migrations issue,
  through sea-query's builder or as text. A row is the list of its cells by column name. A
  statement either fails and changes nothing or gives the new database. The conditions a
  statement fails under are the ones the SQL standard and PostgreSQL document; the errors are
  named by PostgreSQL's condition names.
\<close>

section \<open>Cells and rows\<close>

datatype cell =
  Null | Uuid_V uuid | Str string | Num int | Time timestamp | Bool bool | Doc json

type_synonym row = "(string \<times> cell) list"

definition cell :: "string \<Rightarrow> row \<Rightarrow> cell" where
  "cell c r = (case map_of r c of None \<Rightarrow> Null | Some v \<Rightarrow> v)"

text \<open>Comparisons as SQL has them: nothing is equal to or less than \<open>NULL\<close>.\<close>

definition sql_eq :: "cell \<Rightarrow> cell \<Rightarrow> bool" where
  "sql_eq a b \<longleftrightarrow> a \<noteq> Null \<and> a = b"

fun sql_less :: "cell \<Rightarrow> cell \<Rightarrow> bool" where
  "sql_less (Uuid_V a) (Uuid_V b) = (a < b)"
| "sql_less (Num a) (Num b) = (a < b)"
| "sql_less (Time a) (Time b) = (a < b)"
| "sql_less _ _ = False"

section \<open>Schema objects\<close>

datatype col_type =
  Uuid | Varchar | Text | Char_N nat | Timestamptz | Bigint | Integer | Boolean | Jsonb | Vector nat

text \<open>A default is nothing, a constant, or an expression the server evaluates per row.\<close>

datatype dflt = No_Default | Const cell | Computed string

record column =
  c_name :: string
  c_type :: col_type
  c_not_null :: bool
  c_primary :: bool
  c_unique :: bool
  c_default :: dflt

definition column_def :: "string \<Rightarrow> col_type \<Rightarrow> column" where
  "column_def n ty =
     \<lparr>c_name = n, c_type = ty, c_not_null = False, c_primary = False, c_unique = False,
      c_default = No_Default\<rparr>"

abbreviation not_null :: "column \<Rightarrow> column" where "not_null c \<equiv> c\<lparr>c_not_null := True\<rparr>"
abbreviation primary_key :: "column \<Rightarrow> column" where "primary_key c \<equiv> c\<lparr>c_primary := True\<rparr>"
abbreviation unique_key :: "column \<Rightarrow> column" where "unique_key c \<equiv> c\<lparr>c_unique := True\<rparr>"
abbreviation default_to :: "cell \<Rightarrow> column \<Rightarrow> column" where
  "default_to v c \<equiv> c\<lparr>c_default := Const v\<rparr>"

datatype fk_action = No_Action | Set_Null | Cascade

record foreign_key =
  f_name :: string
  f_column :: string
  f_table :: string
  f_ref :: string
  f_on_delete :: fk_action

record index =
  i_name :: string
  i_table :: string
  i_columns :: "string list"
  i_unique :: bool
  i_needs :: "string option"

record table =
  tbl_columns :: "column list"
  tbl_fks :: "foreign_key list"
  tbl_rows :: "row list"

record sql_db =
  sql_tables :: "(string \<times> table) list"
  sql_indexes :: "index list"
  sql_extensions :: "string list"

definition no_tables :: "string list \<Rightarrow> sql_db" where
  "no_tables exts = \<lparr>sql_tables = [], sql_indexes = [], sql_extensions = exts\<rparr>"

text \<open>What the server brings: the extensions it can install and its computed defaults.\<close>

record sql_server =
  available :: "string list"
  computed :: "string \<Rightarrow> row \<Rightarrow> cell"

section \<open>Constraints\<close>

text \<open>Rows with a \<open>NULL\<close> in a unique index never collide.\<close>

definition unique_on :: "string list \<Rightarrow> row list \<Rightarrow> bool" where
  "unique_on cs rows \<longleftrightarrow>
     distinct (filter (\<lambda>k. Null \<notin> set k) (map (\<lambda>r. map (\<lambda>c. cell c r) cs) rows))"

definition column_ok :: "row list \<Rightarrow> column \<Rightarrow> bool" where
  "column_ok rows c \<longleftrightarrow>
     (c_not_null c \<longrightarrow> (\<forall>r\<in>set rows. cell (c_name c) r \<noteq> Null)) \<and>
     (c_primary c \<or> c_unique c \<longrightarrow> unique_on [c_name c] rows)"

definition rows_of :: "string \<Rightarrow> sql_db \<Rightarrow> row list" where
  "rows_of n s = (case map_of (sql_tables s) n of None \<Rightarrow> [] | Some t \<Rightarrow> tbl_rows t)"

definition fk_satisfied :: "sql_db \<Rightarrow> row list \<Rightarrow> foreign_key \<Rightarrow> bool" where
  "fk_satisfied s rows f \<longleftrightarrow>
     (\<forall>r\<in>set rows. cell (f_column f) r \<noteq> Null \<longrightarrow>
        cell (f_column f) r \<in> cell (f_ref f) ` set (rows_of (f_table f) s))"

definition index_ok :: "sql_db \<Rightarrow> index \<Rightarrow> bool" where
  "index_ok s i \<longleftrightarrow> i_unique i \<longrightarrow> unique_on (i_columns i) (rows_of (i_table i) s)"

text \<open>Every constraint of the database holds of its rows.\<close>

definition constraints_hold :: "sql_db \<Rightarrow> bool" where
  "constraints_hold s \<longleftrightarrow>
     (\<forall>(n, t)\<in>set (sql_tables s).
        list_all (column_ok (tbl_rows t)) (tbl_columns t) \<and>
        list_all (fk_satisfied s (tbl_rows t)) (tbl_fks t)) \<and>
     list_all (index_ok s) (sql_indexes s)"

section \<open>Statements\<close>

datatype statement =
  Create_Table bool string "column list" "foreign_key list"
| Drop_Table bool string
| Add_Columns string "(bool \<times> column) list"
| Drop_Columns string "(bool \<times> string) list"
| Create_Index bool index
| Drop_Index bool string
| Create_Foreign_Key string foreign_key
| Drop_Foreign_Key string string
| Create_Extension string
| Update_Column string string "row list \<Rightarrow> row \<Rightarrow> cell"

abbreviation failed :: "string \<Rightarrow> db_err + 'a" where
  "failed e \<equiv> Inl (OtherDbErr e)"

definition column_names :: "table \<Rightarrow> string list" where
  "column_names t = map c_name (tbl_columns t)"

text \<open>A foreign key can be declared when the column it refers to exists and is unique.\<close>

definition referable :: "sql_db \<Rightarrow> foreign_key \<Rightarrow> bool" where
  "referable s f \<longleftrightarrow>
     (case map_of (sql_tables s) (f_table f) of
        None \<Rightarrow> False
      | Some t \<Rightarrow> list_ex (\<lambda>c. c_name c = f_ref f \<and> (c_primary c \<or> c_unique c)) (tbl_columns t))"

definition refers_to :: "string \<Rightarrow> (string \<Rightarrow> bool) \<Rightarrow> sql_db \<Rightarrow> bool" where
  "refers_to n c s \<longleftrightarrow>
     list_ex (\<lambda>(m, t). m \<noteq> n \<and> list_ex (\<lambda>f. f_table f = n \<and> c (f_ref f)) (tbl_fks t)) (sql_tables s)"

definition initial :: "sql_server \<Rightarrow> column \<Rightarrow> row \<Rightarrow> cell" where
  "initial srv c r =
     (case c_default c of No_Default \<Rightarrow> Null | Const v \<Rightarrow> v | Computed e \<Rightarrow> computed srv e r)"

definition add_column :: "sql_server \<Rightarrow> bool \<times> column \<Rightarrow> table \<Rightarrow> db_err + table" where
  "add_column srv = (\<lambda>(if_not_exists, c) t.
     let rows = map (\<lambda>r. r @ [(c_name c, initial srv c r)]) (tbl_rows t) in
     if c_name c \<in> set (column_names t) then
       (if if_not_exists then Inr t else failed ''duplicate_column'')
     else if \<not> column_ok rows c then failed ''not_null_or_unique_violation''
     else Inr (t\<lparr>tbl_columns := tbl_columns t @ [c], tbl_rows := rows\<rparr>))"

definition without_column :: "string \<Rightarrow> table \<Rightarrow> table" where
  "without_column n t =
     t\<lparr>tbl_columns := filter (\<lambda>c. c_name c \<noteq> n) (tbl_columns t),
       tbl_fks := filter (\<lambda>f. f_column f \<noteq> n) (tbl_fks t),
       tbl_rows := map (filter (\<lambda>(c, _). c \<noteq> n)) (tbl_rows t)\<rparr>"

fun each :: "('a \<Rightarrow> 's \<Rightarrow> db_err + 's) \<Rightarrow> 'a list \<Rightarrow> 's \<Rightarrow> db_err + 's" where
  "each f [] s = Inr s"
| "each f (x # xs) s = (case f x s of Inl e \<Rightarrow> Inl e | Inr s' \<Rightarrow> each f xs s')"

definition alter :: "string \<Rightarrow> (table \<Rightarrow> db_err + table) \<Rightarrow> sql_db \<Rightarrow> db_err + sql_db" where
  "alter n f s =
     (case map_of (sql_tables s) n of
        None \<Rightarrow> failed ''undefined_table''
      | Some t \<Rightarrow> map_sum id (\<lambda>t'. s\<lparr>sql_tables := AList.update n t' (sql_tables s)\<rparr>) (f t))"

text \<open>Dropping a column drops the indexes that mention it, and fails while another table refers to it.\<close>

definition drop_column :: "string \<Rightarrow> bool \<times> string \<Rightarrow> sql_db \<Rightarrow> db_err + sql_db" where
  "drop_column n = (\<lambda>(if_exists, c) s.
     case map_of (sql_tables s) n of
       None \<Rightarrow> failed ''undefined_table''
     | Some t \<Rightarrow>
         if c \<notin> set (column_names t) then (if if_exists then Inr s else failed ''undefined_column'')
         else if refers_to n (\<lambda>r. r = c) s then failed ''dependent_objects_still_exist''
         else Inr (s\<lparr>sql_tables := AList.update n (without_column c t) (sql_tables s),
                      sql_indexes := filter (\<lambda>i. i_table i \<noteq> n \<or> c \<notin> set (i_columns i)) (sql_indexes s)\<rparr>))"

definition installed :: "string option \<Rightarrow> sql_db \<Rightarrow> bool" where
  "installed x s \<longleftrightarrow> (case x of None \<Rightarrow> True | Some e \<Rightarrow> e \<in> set (sql_extensions s))"

fun type_needs :: "col_type \<Rightarrow> string option" where
  "type_needs (Vector _) = Some ''vector''"
| "type_needs _ = None"

fun exec :: "sql_server \<Rightarrow> statement \<Rightarrow> sql_db \<Rightarrow> db_err + sql_db" where
  "exec srv (Create_Table if_not_exists n cols fks) s =
     (if n \<in> fst ` set (sql_tables s) then
        (if if_not_exists then Inr s else failed ''duplicate_table'')
      else if \<not> list_all (\<lambda>c. installed (type_needs (c_type c)) s) cols then failed ''undefined_object''
      else if \<not> list_all (referable s) fks then failed ''undefined_table''
      else Inr (s\<lparr>sql_tables :=
             sql_tables s @ [(n, \<lparr>tbl_columns = cols, tbl_fks = fks, tbl_rows = []\<rparr>)]\<rparr>))"
| "exec srv (Drop_Table if_exists n) s =
     (if n \<notin> fst ` set (sql_tables s) then
        (if if_exists then Inr s else failed ''undefined_table'')
      else if refers_to n (\<lambda>_. True) s then failed ''dependent_objects_still_exist''
      else Inr (s\<lparr>sql_tables := AList.delete n (sql_tables s),
                   sql_indexes := filter (\<lambda>i. i_table i \<noteq> n) (sql_indexes s)\<rparr>))"
| "exec srv (Add_Columns n cs) s = alter n (each (add_column srv) cs) s"
| "exec srv (Drop_Columns n cs) s = each (drop_column n) cs s"
| "exec srv (Create_Index if_not_exists i) s =
     (if i_name i \<in> i_name ` set (sql_indexes s) then
        (if if_not_exists then Inr s else failed ''duplicate_table'')
      else if \<not> installed (i_needs i) s then failed ''undefined_object''
      else case map_of (sql_tables s) (i_table i) of
        None \<Rightarrow> failed ''undefined_table''
      | Some t \<Rightarrow>
          if \<not> set (i_columns i) \<subseteq> set (column_names t) then failed ''undefined_column''
          else if \<not> index_ok s i then Inl UniqueViolation
          else Inr (s\<lparr>sql_indexes := sql_indexes s @ [i]\<rparr>))"
| "exec srv (Drop_Index if_exists n) s =
     (if n \<notin> i_name ` set (sql_indexes s) then
        (if if_exists then Inr s else failed ''undefined_object'')
      else Inr (s\<lparr>sql_indexes := filter (\<lambda>i. i_name i \<noteq> n) (sql_indexes s)\<rparr>))"
| "exec srv (Create_Foreign_Key n f) s =
     (if \<not> referable s f then failed ''undefined_table''
      else alter n (\<lambda>t.
        if f_column f \<notin> set (column_names t) then failed ''undefined_column''
        else if f_name f \<in> f_name ` set (tbl_fks t) then failed ''duplicate_object''
        else if \<not> fk_satisfied s (tbl_rows t) f then Inl ForeignKeyViolation
        else Inr (t\<lparr>tbl_fks := tbl_fks t @ [f]\<rparr>)) s)"
| "exec srv (Drop_Foreign_Key n f) s =
     alter n (\<lambda>t.
       if f \<notin> f_name ` set (tbl_fks t) then failed ''undefined_object''
       else Inr (t\<lparr>tbl_fks := filter (\<lambda>g. f_name g \<noteq> f) (tbl_fks t)\<rparr>)) s"
| "exec srv (Create_Extension e) s =
     (if e \<in> set (sql_extensions s) then Inr s
      else if e \<notin> set (available srv) then failed ''undefined_file''
      else Inr (s\<lparr>sql_extensions := sql_extensions s @ [e]\<rparr>))"
| "exec srv (Update_Column n c value) s =
     (case map_of (sql_tables s) n of
        None \<Rightarrow> failed ''undefined_table''
      | Some t \<Rightarrow>
          let rows = map (\<lambda>r. AList.update c (value (tbl_rows t) r) r) (tbl_rows t);
              s' = s\<lparr>sql_tables := AList.update n (t\<lparr>tbl_rows := rows\<rparr>) (sql_tables s)\<rparr>
          in if c \<notin> set (column_names t) then failed ''undefined_column''
             else if \<not> list_all (\<lambda>k. c_name k = c \<longrightarrow> column_ok rows k) (tbl_columns t)
             then failed ''not_null_or_unique_violation''
             else if \<not> list_all (\<lambda>i. i_table i = n \<and> c \<in> set (i_columns i) \<longrightarrow> index_ok s' i) (sql_indexes s)
             then Inl UniqueViolation
             else if \<not> list_all (\<lambda>f. f_column f = c \<longrightarrow> fk_satisfied s' rows f) (tbl_fks t)
             then Inl ForeignKeyViolation
             else Inr s')"

definition script :: "sql_server \<Rightarrow> statement list \<Rightarrow> sql_db \<Rightarrow> db_err + sql_db" where
  "script srv = each (exec srv)"

lemma each_append:
  "each f (xs @ ys) s = (case each f xs s of Inl e \<Rightarrow> Inl e | Inr s' \<Rightarrow> each f ys s')"
  by (induction xs arbitrary: s) (auto split: sum.splits)

lemma script_append:
  "script srv (xs @ ys) s = (case script srv xs s of Inl e \<Rightarrow> Inl e | Inr s' \<Rightarrow> script srv ys s')"
  unfolding script_def each_append ..

lemma script_pair:
  "script srv [a, b] s = (case exec srv a s of Inl e \<Rightarrow> Inl e | Inr s' \<Rightarrow> exec srv b s')"
  by (simp add: script_def split: sum.split)

end
