(* ===== verification/Migrations.thy ===== *)
theory Migrations
  imports Sql Migration
begin

text \<open>
  The eight migrations of \<open>migration/src/\<close> as the statements they issue, up and down, and
  \<open>Migrator::migrations()\<close>. The ledger of applied migrations belongs to sea-orm-migration: how many
  are applied is an argument.
\<close>

section \<open>m20260723_000001_init\<close>

definition fk :: "string \<Rightarrow> string \<Rightarrow> string \<Rightarrow> string \<Rightarrow> foreign_key" where
  "fk n from_col to_table to_col =
     \<lparr>f_name = n, f_column = from_col, f_table = to_table, f_ref = to_col, f_on_delete = No_Action\<rparr>"

definition index_on :: "string \<Rightarrow> string \<Rightarrow> string list \<Rightarrow> index" where
  "index_on n t cols = \<lparr>i_name = n, i_table = t, i_columns = cols, i_unique = False, i_needs = None\<rparr>"

abbreviation unique :: "index \<Rightarrow> index" where "unique i \<equiv> i\<lparr>i_unique := True\<rparr>"

definition init_org :: "column list" where
  "init_org =
     [primary_key (not_null (column_def ''id'' Uuid)),
      unique_key (not_null (column_def ''slug'' Varchar)),
      not_null (column_def ''created_at'' Timestamptz)]"

definition init_token :: "column list" where
  "init_token =
     [primary_key (not_null (column_def ''id'' Uuid)),
      not_null (column_def ''name'' Varchar),
      unique_key (not_null (column_def ''token_hash'' Varchar)),
      column_def ''org_id'' Uuid,
      not_null (column_def ''created_at'' Timestamptz)]"

definition init_package :: "column list" where
  "init_package =
     [primary_key (not_null (column_def ''id'' Uuid)),
      not_null (column_def ''org_id'' Uuid),
      not_null (column_def ''name'' Varchar),
      column_def ''description'' Varchar,
      not_null (column_def ''vcs'' Varchar),
      not_null (column_def ''repo_url'' Varchar),
      not_null (column_def ''created_at'' Timestamptz)]"

definition init_version :: "column list" where
  "init_version =
     [primary_key (not_null (column_def ''id'' Uuid)),
      not_null (column_def ''package_id'' Uuid),
      not_null (column_def ''version'' Varchar),
      not_null (column_def ''sha256'' Varchar),
      not_null (column_def ''size'' Bigint),
      not_null (column_def ''format'' Varchar),
      not_null (column_def ''vcs_tag'' Varchar),
      column_def ''vcs_commit'' Varchar,
      not_null (column_def ''artifact_key'' Varchar),
      default_to (Bool False) (not_null (column_def ''yanked'' Boolean)),
      not_null (column_def ''published_at'' Timestamptz)]"

definition init_up :: "statement list" where
  "init_up =
     [Create_Table True ''org'' init_org [],
      Create_Table True ''token'' init_token [fk ''fk_token_org'' ''org_id'' ''org'' ''id''],
      Create_Table True ''package'' init_package [fk ''fk_package_org'' ''org_id'' ''org'' ''id''],
      Create_Index False (unique (index_on ''idx_package_org_name'' ''package'' [''org_id'', ''name''])),
      Create_Table True ''version'' init_version
        [fk ''fk_version_package'' ''package_id'' ''package'' ''id''],
      Create_Index False
        (unique (index_on ''idx_version_package_version'' ''version'' [''package_id'', ''version''])),
      Create_Index False (index_on ''idx_version_sha256'' ''version'' [''sha256''])]"

definition init_down :: "statement list" where
  "init_down =
     [Drop_Table False ''version'', Drop_Table False ''package'', Drop_Table False ''token'',
      Drop_Table False ''org'']"

section \<open>The migrations that add columns\<close>

definition scheme_column :: column where
  "scheme_column = default_to (Str ''semver'') (not_null (column_def ''version_scheme'' Varchar))"

definition version_scheme_up :: "statement list" where
  "version_scheme_up = [Add_Columns ''package'' [(False, scheme_column)]]"

definition version_scheme_down :: "statement list" where
  "version_scheme_down = [Drop_Columns ''package'' [(False, ''version_scheme'')]]"

definition fk_org_created_by_token :: foreign_key where
  "fk_org_created_by_token =
     (fk ''fk_org_created_by_token'' ''created_by_token'' ''token'' ''id'')\<lparr>f_on_delete := Set_Null\<rparr>"

definition org_created_by_up :: "statement list" where
  "org_created_by_up =
     [Add_Columns ''org'' [(False, column_def ''created_by_token'' Uuid)],
      Create_Foreign_Key ''org'' fk_org_created_by_token]"

definition org_created_by_down :: "statement list" where
  "org_created_by_down =
     [Drop_Foreign_Key ''org'' ''fk_org_created_by_token'',
      Drop_Columns ''org'' [(False, ''created_by_token'')]]"

definition role_column :: column where
  "role_column = default_to (Str ''owner'') (not_null (column_def ''role'' Varchar))"

definition token_role_up :: "statement list" where
  "token_role_up = [Add_Columns ''token'' [(False, role_column)]]"

definition token_role_down :: "statement list" where
  "token_role_down = [Drop_Columns ''token'' [(False, ''role'')]]"

definition token_lifecycle_up :: "statement list" where
  "token_lifecycle_up =
     [Add_Columns ''token''
        [(False, column_def ''expires_at'' Timestamptz), (False, column_def ''revoked_at'' Timestamptz)]]"

definition token_lifecycle_down :: "statement list" where
  "token_lifecycle_down =
     [Drop_Columns ''token'' [(False, ''expires_at''), (False, ''revoked_at'')]]"

section \<open>m20260725_000006_audit_log\<close>

definition audit_columns :: "column list" where
  "audit_columns =
     [primary_key (not_null (column_def ''id'' Uuid)),
      not_null (column_def ''org_id'' Uuid),
      not_null (column_def ''at'' Timestamptz),
      not_null (column_def ''action'' Varchar),
      not_null (column_def ''subject'' Varchar),
      column_def ''actor_token_id'' Uuid,
      not_null (column_def ''actor_token_name'' Varchar),
      not_null (column_def ''actor_role'' Varchar),
      column_def ''detail'' Varchar]"

definition audit_log_up :: "statement list" where
  "audit_log_up =
     [Create_Table True ''audit_log'' audit_columns [fk ''fk_audit_log_org'' ''org_id'' ''org'' ''id''],
      Create_Index False (index_on ''idx_audit_log_org_at'' ''audit_log'' [''org_id'', ''at''])]"

definition audit_log_down :: "statement list" where
  "audit_log_down = [Drop_Table False ''audit_log'']"

section \<open>m20260726_000007_embeddings_and_tags\<close>

definition needing :: "string \<Rightarrow> index \<Rightarrow> index" where
  "needing e i = i\<lparr>i_needs := Some e\<rparr>"

definition embedding_columns :: "column list" where
  "embedding_columns =
     [primary_key (not_null (column_def ''id'' Uuid))\<lparr>c_default := Computed ''gen_random_uuid()''\<rparr>,
      not_null (column_def ''package_id'' Uuid),
      not_null (column_def ''embedding_model'' Text),
      not_null (column_def ''native_dimensions'' Integer),
      not_null (column_def ''embedding'' (Vector 2050)),
      not_null (column_def ''content'' Text),
      not_null (column_def ''content_sha256'' Text),
      (not_null (column_def ''created_at'' Timestamptz))\<lparr>c_default := Computed ''now()''\<rparr>]"

definition embedding_columns_sqlite :: "column list" where
  "embedding_columns_sqlite =
     [not_null (primary_key (column_def ''id'' (Char_N 36))),
      not_null (column_def ''package_id'' (Char_N 36)),
      not_null (column_def ''embedding_model'' Text),
      not_null (column_def ''native_dimensions'' Integer),
      not_null (column_def ''embedding'' Text),
      not_null (column_def ''content'' Text),
      not_null (column_def ''content_sha256'' Text),
      not_null (column_def ''created_at'' Timestamptz)]"

definition tags_column :: "col_type \<Rightarrow> column" where
  "tags_column ty = default_to (Doc (JArray [])) (not_null (column_def ''tags'' ty))"

definition embedding_fk :: foreign_key where
  "embedding_fk =
     (fk ''package_embedding_package_id_fkey'' ''package_id'' ''package'' ''id'')\<lparr>f_on_delete := Cascade\<rparr>"

definition created_at_idx :: index where
  "created_at_idx = index_on ''package_created_at_idx'' ''package'' [''created_at'']"

definition pkg_model_uq :: index where
  "pkg_model_uq =
     unique (index_on ''package_embedding_pkg_model_uq'' ''package_embedding'' [''package_id'', ''embedding_model''])"

text \<open>Expression indexes are over the column their expression reads.\<close>

fun up_statements :: "db_backend \<Rightarrow> statement list" where
  "up_statements Postgres =
     [Create_Extension ''pg_trgm'',
      Create_Extension ''vector'',
      Add_Columns ''package'' [(True, tags_column Jsonb)],
      Create_Index True (index_on ''package_tags_gin_idx'' ''package'' [''tags'']),
      Create_Index True (needing ''pg_trgm'' (index_on ''package_name_trgm_idx'' ''package'' [''name''])),
      Create_Index True created_at_idx,
      Create_Table True ''package_embedding'' embedding_columns [embedding_fk],
      Create_Index True pkg_model_uq,
      Create_Index True (index_on ''package_embedding_model_idx'' ''package_embedding'' [''embedding_model'']),
      Create_Index True
        (needing ''vector'' (index_on ''package_embedding_hnsw_idx'' ''package_embedding'' [''embedding'']))]"
| "up_statements Sqlite =
     [Add_Columns ''package'' [(False, tags_column Text)],
      Create_Index True created_at_idx,
      Create_Table True ''package_embedding'' embedding_columns_sqlite [],
      Create_Index True pkg_model_uq]"

fun down_statements :: "db_backend \<Rightarrow> statement list" where
  "down_statements Postgres =
     [Drop_Table True ''package_embedding'',
      Drop_Index True ''package_tags_gin_idx'',
      Drop_Index True ''package_name_trgm_idx'',
      Drop_Index True ''package_created_at_idx'',
      Drop_Columns ''package'' [(True, ''tags'')]]"
| "down_statements Sqlite =
     [Drop_Table True ''package_embedding'',
      Drop_Index True ''package_created_at_idx'']"

section \<open>m20260726_000008_audit_chain\<close>

definition seq_columns :: "column list" where
  "seq_columns =
     [default_to (Num 0) (not_null (column_def ''seq'' Bigint)),
      default_to (Str []) (not_null (column_def ''entry_hash'' Varchar)),
      column_def ''prev_hash'' Varchar]"

text \<open>The correlated subquery of \<open>LEGACY_SEQ_BACKFILL_SQL\<close>.\<close>

definition legacy_seq :: "row list \<Rightarrow> row \<Rightarrow> cell" where
  "legacy_seq rows r = Num (int (length (filter (\<lambda>earlier.
     sql_eq (cell ''org_id'' earlier) (cell ''org_id'' r) \<and>
     (sql_less (cell ''at'' earlier) (cell ''at'' r) \<or>
      sql_eq (cell ''at'' earlier) (cell ''at'' r) \<and>
      (sql_less (cell ''id'' earlier) (cell ''id'' r) \<or> sql_eq (cell ''id'' earlier) (cell ''id'' r))))
     rows)))"

definition org_seq_idx :: index where
  "org_seq_idx = unique (index_on ''idx_audit_log_org_seq'' ''audit_log'' [''org_id'', ''seq''])"

definition audit_chain_up :: "statement list" where
  "audit_chain_up =
     map (\<lambda>c. Add_Columns ''audit_log'' [(False, c)]) seq_columns @
     [Update_Column ''audit_log'' ''seq'' legacy_seq,
      Create_Index False org_seq_idx]"

text \<open>The result of dropping the index is ignored.\<close>

definition audit_chain_down :: "sql_server \<Rightarrow> sql_db \<Rightarrow> db_err + sql_db" where
  "audit_chain_down srv s =
     script srv (map (\<lambda>c. Drop_Columns ''audit_log'' [(False, c)]) [''prev_hash'', ''entry_hash'', ''seq''])
       (case exec srv (Drop_Index False ''idx_audit_log_org_seq'') s of Inl _ \<Rightarrow> s | Inr s' \<Rightarrow> s')"

section \<open>The migrator\<close>

record migration =
  m_up :: "sql_server \<Rightarrow> sql_db \<Rightarrow> db_err + sql_db"
  m_down :: "sql_server \<Rightarrow> sql_db \<Rightarrow> db_err + sql_db"

definition scripted :: "statement list \<Rightarrow> statement list \<Rightarrow> migration" where
  "scripted ups downs = \<lparr>m_up = \<lambda>srv. script srv ups, m_down = \<lambda>srv. script srv downs\<rparr>"

definition migrations :: "migration list" where
  "migrations =
     [scripted init_up init_down,
      scripted version_scheme_up version_scheme_down,
      scripted org_created_by_up org_created_by_down,
      scripted token_role_up token_role_down,
      scripted token_lifecycle_up token_lifecycle_down,
      scripted audit_log_up audit_log_down,
      scripted (up_statements Postgres) (down_statements Postgres),
      \<lparr>m_up = \<lambda>srv. script srv audit_chain_up, m_down = audit_chain_down\<rparr>]"

text \<open>Applying the migrations that are pending when the first \<open>k\<close> are applied, and undoing all but \<open>k\<close>.\<close>

definition migrate_up :: "sql_server \<Rightarrow> nat \<Rightarrow> sql_db \<Rightarrow> db_err + sql_db" where
  "migrate_up srv k = each (\<lambda>m. m_up m srv) (drop k migrations)"

definition migrate_down :: "sql_server \<Rightarrow> nat \<Rightarrow> nat \<Rightarrow> sql_db \<Rightarrow> db_err + sql_db" where
  "migrate_down srv n k = each (\<lambda>m. m_down m srv) (take n (rev (take k migrations)))"

end
