(* ===== verification/Stages.thy ===== *)
theory Stages
  imports Migrations
begin

text \<open>
  What the migrations do to a database with data. \<open>staged\<close> renders the typed rows of \<open>Schema\<close> as
  the tables of cells the schema has after the first \<open>k\<close> migrations. Each migration up is a
  function on the typed rows and its down gives back exactly what was there; the constraints of
  the fully migrated schema are the integrity \<open>db_ok\<close> that the statements of \<open>Schema\<close> enforce.
\<close>

section \<open>Typed rows as rows of cells\<close>

definition opt_cell :: "('a \<Rightarrow> cell) \<Rightarrow> 'a option \<Rightarrow> cell" where
  "opt_cell f x = (case x of None \<Rightarrow> Null | Some y \<Rightarrow> f y)"

definition from_stage :: "nat \<Rightarrow> nat \<Rightarrow> 'a list \<Rightarrow> 'a list" where
  "from_stage n k xs = (if n \<le> k then xs else [])"

definition org_cells :: "nat \<Rightarrow> org_row \<Rightarrow> row" where
  "org_cells k r =
     [(''id'', Uuid_V (o_id r)), (''slug'', Str (o_slug r)), (''created_at'', Time (o_created_at r))]
     @ from_stage 3 k [(''created_by_token'', opt_cell Uuid_V (o_created_by r))]"

definition token_cells :: "nat \<Rightarrow> token_row \<Rightarrow> row" where
  "token_cells k r =
     [(''id'', Uuid_V (t_id r)), (''name'', Str (t_name r)), (''token_hash'', Str (t_hash r)),
      (''org_id'', opt_cell Uuid_V (t_org r)), (''created_at'', Time (t_created_at r))]
     @ from_stage 4 k [(''role'', Str (t_role r))]
     @ from_stage 5 k [(''expires_at'', opt_cell Time (t_expires_at r)),
                       (''revoked_at'', opt_cell Time (t_revoked_at r))]"

definition package_cells :: "nat \<Rightarrow> package_row \<Rightarrow> row" where
  "package_cells k r =
     [(''id'', Uuid_V (p_id r)), (''org_id'', Uuid_V (p_org r)), (''name'', Str (p_name r)),
      (''description'', opt_cell Str (p_description r)), (''vcs'', Str (p_vcs r)),
      (''repo_url'', Str (p_repo_url r)), (''created_at'', Time (p_created_at r))]
     @ from_stage 2 k [(''version_scheme'', Str (p_scheme r))]
     @ from_stage 7 k [(''tags'', Doc (p_tags r))]"

definition version_cells :: "version_row \<Rightarrow> row" where
  "version_cells r =
     [(''id'', Uuid_V (v_id r)), (''package_id'', Uuid_V (v_package r)), (''version'', Str (v_version r)),
      (''sha256'', Str (v_sha256 r)), (''size'', Num (v_size r)), (''format'', Str (v_format r)),
      (''vcs_tag'', Str (v_vcs_tag r)), (''vcs_commit'', opt_cell Str (v_vcs_commit r)),
      (''artifact_key'', Str (v_artifact_key r)), (''yanked'', Bool (v_yanked r)),
      (''published_at'', Time (v_published_at r))]"

definition audit_cells :: "nat \<Rightarrow> audit_row \<Rightarrow> row" where
  "audit_cells k r =
     [(''id'', Uuid_V (a_id r)), (''org_id'', Uuid_V (a_org r)), (''at'', Time (a_at r)),
      (''action'', Str (a_action r)), (''subject'', Str (a_subject r)),
      (''actor_token_id'', opt_cell Uuid_V (a_token_id r)), (''actor_token_name'', Str (a_token_name r)),
      (''actor_role'', Str (a_role r)), (''detail'', opt_cell Str (a_detail r))]
     @ from_stage 8 k [(''seq'', Num (a_seq r)), (''entry_hash'', Str (a_hash r)),
                       (''prev_hash'', opt_cell Str (a_prev r))]"

definition embedding_cells :: "embedding_row \<Rightarrow> row" where
  "embedding_cells r =
     [(''id'', Uuid_V (e_id r)), (''package_id'', Uuid_V (e_package r)), (''embedding_model'', Str (e_model r)),
      (''native_dimensions'', Num (e_native_dim r)), (''embedding'', Str (e_vector r)),
      (''content'', Str (e_content r)), (''content_sha256'', Str (e_content_sha r)),
      (''created_at'', Time (e_created_at r))]"

section \<open>The schema after \<open>k\<close> migrations\<close>

definition staged_tables :: "nat \<Rightarrow> database \<Rightarrow> (string \<times> table) list" where
  "staged_tables k d =
     [(''org'', \<lparr>tbl_columns = init_org @ from_stage 3 k [column_def ''created_by_token'' Uuid],
                 tbl_fks = from_stage 3 k [fk_org_created_by_token],
                 tbl_rows = map (org_cells k) (orgs d)\<rparr>),
      (''token'', \<lparr>tbl_columns = init_token @ from_stage 4 k [role_column]
                     @ from_stage 5 k [column_def ''expires_at'' Timestamptz, column_def ''revoked_at'' Timestamptz],
                   tbl_fks = [fk ''fk_token_org'' ''org_id'' ''org'' ''id''],
                   tbl_rows = map (token_cells k) (tokens d)\<rparr>),
      (''package'', \<lparr>tbl_columns = init_package @ from_stage 2 k [scheme_column]
                       @ from_stage 7 k [tags_column Jsonb],
                     tbl_fks = [fk ''fk_package_org'' ''org_id'' ''org'' ''id''],
                     tbl_rows = map (package_cells k) (packages d)\<rparr>),
      (''version'', \<lparr>tbl_columns = init_version,
                     tbl_fks = [fk ''fk_version_package'' ''package_id'' ''package'' ''id''],
                     tbl_rows = map version_cells (versions d)\<rparr>)]
     @ from_stage 6 k
         [(''audit_log'', \<lparr>tbl_columns = audit_columns @ from_stage 8 k seq_columns,
                            tbl_fks = [fk ''fk_audit_log_org'' ''org_id'' ''org'' ''id''],
                            tbl_rows = map (audit_cells k) (audits d)\<rparr>)]
     @ from_stage 7 k
         [(''package_embedding'', \<lparr>tbl_columns = embedding_columns, tbl_fks = [embedding_fk],
                                    tbl_rows = map embedding_cells (embeddings d)\<rparr>)]"

definition staged_indexes :: "nat \<Rightarrow> index list" where
  "staged_indexes k =
     [unique (index_on ''idx_package_org_name'' ''package'' [''org_id'', ''name'']),
      unique (index_on ''idx_version_package_version'' ''version'' [''package_id'', ''version'']),
      index_on ''idx_version_sha256'' ''version'' [''sha256'']]
     @ from_stage 6 k [index_on ''idx_audit_log_org_at'' ''audit_log'' [''org_id'', ''at'']]
     @ from_stage 7 k
         [index_on ''package_tags_gin_idx'' ''package'' [''tags''],
          needing ''pg_trgm'' (index_on ''package_name_trgm_idx'' ''package'' [''name'']),
          created_at_idx, pkg_model_uq,
          index_on ''package_embedding_model_idx'' ''package_embedding'' [''embedding_model''],
          needing ''vector'' (index_on ''package_embedding_hnsw_idx'' ''package_embedding'' [''embedding''])]
     @ from_stage 8 k [org_seq_idx]"

definition staged :: "string list \<Rightarrow> nat \<Rightarrow> database \<Rightarrow> sql_db" where
  "staged exts k d =
     (if k = 0 then no_tables exts
      else \<lparr>sql_tables = staged_tables k d, sql_indexes = staged_indexes k, sql_extensions = exts\<rparr>)"

section \<open>What each migration makes of the rows\<close>

text \<open>The defaults of the columns and tables that migration \<open>k\<close> adds.\<close>

definition step :: "nat \<Rightarrow> database \<Rightarrow> database" where
  "step k d =
     (if k = 1 then empty_db
      else if k = 2 then d\<lparr>packages := map (\<lambda>p. p\<lparr>p_scheme := ''semver''\<rparr>) (packages d)\<rparr>
      else if k = 3 then d\<lparr>orgs := map (\<lambda>r. r\<lparr>o_created_by := None\<rparr>) (orgs d)\<rparr>
      else if k = 4 then d\<lparr>tokens := map (\<lambda>t. t\<lparr>t_role := ''owner''\<rparr>) (tokens d)\<rparr>
      else if k = 5 then d\<lparr>tokens := map (\<lambda>t. t\<lparr>t_expires_at := None, t_revoked_at := None\<rparr>) (tokens d)\<rparr>
      else if k = 6 then d\<lparr>audits := []\<rparr>
      else if k = 7 then d\<lparr>packages := map (\<lambda>p. p\<lparr>p_tags := JArray []\<rparr>) (packages d), embeddings := []\<rparr>
      else d\<lparr>audits := backfill_legacy_seq (map add_chain_columns (audits d))\<rparr>)"

definition upgraded :: "nat \<Rightarrow> database \<Rightarrow> database" where
  "upgraded k d = fold step [Suc k..<9] d"

lemmas cells_defs = org_cells_def token_cells_def package_cells_def version_cells_def audit_cells_def
  embedding_cells_def

lemmas column_defs = init_org_def init_token_def init_package_def init_version_def audit_columns_def
  embedding_columns_def seq_columns_def scheme_column_def role_column_def tags_column_def column_def_def
  column_names_def fk_def fk_org_created_by_token_def embedding_fk_def index_on_def needing_def
  created_at_idx_def pkg_model_uq_def org_seq_idx_def

lemmas stage_defs = staged_def staged_tables_def staged_indexes_def no_tables_def from_stage_def step_def

lemmas engine_defs = script_def alter_def add_column_def drop_column_def without_column_def initial_def
  referable_def refers_to_def installed_def

lemmas run_defs = stage_defs engine_defs column_defs cells_defs column_ok_def cell_def comp_def
  index_ok_def unique_on_def rows_of_def fk_satisfied_def

text \<open>No extension is needed before the seventh migration.\<close>

lemma m1_up: "script srv init_up (staged exts 0 d) = Inr (staged exts 1 (step 1 d))"
  by (simp add: init_up_def empty_db_def run_defs)

lemma m1_down: "script srv init_down (staged exts 1 d) = Inr (staged exts 0 d)"
  by (simp add: init_down_def run_defs)

lemma m2_up: "script srv version_scheme_up (staged exts 1 d) = Inr (staged exts 2 (step 2 d))"
  by (simp add: version_scheme_up_def run_defs)

lemma m2_down: "script srv version_scheme_down (staged exts 2 d) = Inr (staged exts 1 d)"
  by (simp add: version_scheme_down_def run_defs)

lemma m3_up: "script srv org_created_by_up (staged exts 2 d) = Inr (staged exts 3 (step 3 d))"
  by (simp add: org_created_by_up_def opt_cell_def run_defs)

lemma m3_down: "script srv org_created_by_down (staged exts 3 d) = Inr (staged exts 2 d)"
  by (simp add: org_created_by_down_def run_defs)

lemma m4_up: "script srv token_role_up (staged exts 3 d) = Inr (staged exts 4 (step 4 d))"
  by (simp add: token_role_up_def run_defs)

lemma m4_down: "script srv token_role_down (staged exts 4 d) = Inr (staged exts 3 d)"
  by (simp add: token_role_down_def run_defs)

lemma m5_up: "script srv token_lifecycle_up (staged exts 4 d) = Inr (staged exts 5 (step 5 d))"
  by (simp add: token_lifecycle_up_def opt_cell_def run_defs)

lemma m5_down: "script srv token_lifecycle_down (staged exts 5 d) = Inr (staged exts 4 d)"
  by (simp add: token_lifecycle_down_def run_defs)

lemma m6_up: "script srv audit_log_up (staged exts 5 d) = Inr (staged exts 6 (step 6 d))"
  by (simp add: audit_log_up_def run_defs)

lemma m6_down: "script srv audit_log_down (staged exts 6 d) = Inr (staged exts 5 d)"
  by (simp add: audit_log_down_def run_defs)

text \<open>The seventh installs two extensions, and leaves them when it is undone.\<close>

definition with_extensions :: "string list \<Rightarrow> string list" where
  "with_extensions exts = fold (\<lambda>e xs. if e \<in> set xs then xs else xs @ [e]) [''pg_trgm'', ''vector''] exts"

lemma m7_up:
  assumes "{''pg_trgm'', ''vector''} \<subseteq> set exts \<union> set (available srv)"
  shows "script srv (up_statements Postgres) (staged exts 6 d) =
     Inr (staged (with_extensions exts) 7 (step 7 d))"
  using assms
  by (cases "''pg_trgm'' \<in> set exts"; cases "''vector'' \<in> set exts")
    (simp_all add: with_extensions_def run_defs)

lemma m7_down: "script srv (down_statements Postgres) (staged exts 7 d) = Inr (staged exts 6 d)"
  by (simp add: run_defs)

section \<open>The audit chain\<close>

lemma counted_cells:
  "(sql_eq (cell ''org_id'' (audit_cells k e)) (cell ''org_id'' (audit_cells k r)) \<and>
    (sql_less (cell ''at'' (audit_cells k e)) (cell ''at'' (audit_cells k r)) \<or>
     sql_eq (cell ''at'' (audit_cells k e)) (cell ''at'' (audit_cells k r)) \<and>
     (sql_less (cell ''id'' (audit_cells k e)) (cell ''id'' (audit_cells k r)) \<or>
      sql_eq (cell ''id'' (audit_cells k e)) (cell ''id'' (audit_cells k r))))) \<longleftrightarrow> counted_for r e"
  by (auto simp: audit_cells_def cell_def sql_eq_def counted_for_def)

lemma legacy_seq_cells:
  "legacy_seq (map (audit_cells k) rows) (audit_cells k r) = Num (int (length (filter (counted_for r) rows)))"
  unfolding legacy_seq_def filter_map comp_def length_map counted_cells ..

lemma seq_updated:
  "map (\<lambda>r. AList.update ''seq'' (legacy_seq (map (audit_cells 8) rows) r) r) (map (audit_cells 8) rows) =
     map (audit_cells 8) (backfill_legacy_seq rows)"
  unfolding backfill_legacy_seq_def map_map comp_def legacy_seq_cells
  by (simp add: audit_cells_def from_stage_def)

lemma unique_on_map:
  assumes "\<And>x c. x \<in> set xs \<Longrightarrow> c \<in> set cs \<Longrightarrow> cell c (f x) \<noteq> Null"
  shows "unique_on cs (map f xs) \<longleftrightarrow> distinct (map (\<lambda>x. map (\<lambda>c. cell c (f x)) cs) xs)"
proof -
  have "filter (\<lambda>k. Null \<notin> set k) (map (\<lambda>x. map (\<lambda>c. cell c (f x)) cs) xs) =
      map (\<lambda>x. map (\<lambda>c. cell c (f x)) cs) xs"
    using assms by (intro filter_True) fastforce
  then show ?thesis by (simp add: unique_on_def comp_def)
qed

lemma distinct_map_key:
  "(\<And>x y. g x = g y \<longleftrightarrow> h x = h y) \<Longrightarrow> distinct (map g xs) = distinct (map h xs)"
  by (induction xs) (auto simp: image_iff)

lemma audit_unique:
  "unique_on [''org_id'', ''seq''] (map (audit_cells 8) rows) \<longleftrightarrow> distinct (map audit_key rows)"
  by (subst unique_on_map)
    (auto simp: audit_cells_def from_stage_def cell_def audit_key_def intro!: distinct_map_key)

text \<open>
  The eighth migration is the one of \<open>Migration\<close>: on the rows of cells it does what
  \<open>migrate_audit_chain\<close> does on the typed rows, and fails when that fails.
\<close>

lemma seq_cell: "cell ''seq'' (audit_cells 8 r) = Num (a_seq r)"
  by (simp add: audit_cells_def from_stage_def cell_def)

lemma m8_up:
  "script srv audit_chain_up (staged exts 7 d) = map_sum id (staged exts 8) (migrate_audit_chain d)"
proof -
  let ?rows = "map add_chain_columns (audits d)"
  let ?mid = "\<lambda>rows. (staged exts 8 (d\<lparr>audits := rows\<rparr>))\<lparr>sql_indexes := staged_indexes 7\<rparr>"
  have added: "script srv (map (\<lambda>c. Add_Columns ''audit_log'' [(False, c)]) seq_columns) (staged exts 7 d) =
      Inr (?mid ?rows)"
    by (simp add: run_defs opt_cell_def add_chain_columns_def)
  have numbered: "exec srv (Update_Column ''audit_log'' ''seq'' legacy_seq) (?mid rows) =
      Inr (?mid (backfill_legacy_seq rows))" for rows
    by (simp add: stage_defs column_defs Let_def seq_updated column_ok_def seq_cell del: map_map)
  have "exec srv (Create_Index False org_seq_idx) (?mid rows) =
      map_sum id (staged exts 8) (create_seq_index (d\<lparr>audits := rows\<rparr>))" for rows
    by (simp add: stage_defs column_defs installed_def index_ok_def rows_of_def audit_unique create_seq_index_def
        del: map_map)
  with added numbered show ?thesis
    by (simp add: audit_chain_up_def script_append script_pair migrate_audit_chain_def del: exec.simps)
qed

lemma m8_down: "audit_chain_down srv (staged exts 8 d) = Inr (staged exts 7 d)"
  by (simp add: audit_chain_down_def run_defs)

section \<open>The migrator on data\<close>

definition extensions_after :: "nat \<Rightarrow> string list \<Rightarrow> string list" where
  "extensions_after k exts = (if k \<le> 6 then with_extensions exts else exts)"

definition can_extend :: "sql_server \<Rightarrow> string list \<Rightarrow> bool" where
  "can_extend srv exts \<longleftrightarrow> {''pg_trgm'', ''vector''} \<subseteq> set exts \<union> set (available srv)"

lemma stage_cases:
  assumes "k < (8 :: nat)"
  obtains "k = 0" | "k = 1" | "k = 2" | "k = 3" | "k = 4" | "k = 5" | "k = 6" | "k = 7"
  using assms by fastforce

lemmas up_lemmas = m1_up m2_up m3_up m4_up m5_up m6_up m7_up
lemmas down_lemmas = m1_down m2_down m3_down m4_down m5_down m6_down m7_down m8_down

lemma migrate_chain_step:
  "distinct (map a_id (audits d)) \<Longrightarrow> migrate_audit_chain d = Inr (step 8 d)"
  using backfill_dense(2) [of "map add_chain_columns (audits d)"]
  by (simp add: migrate_audit_chain_def create_seq_index_def step_def add_chain_columns_def comp_def)

lemma migration_up:
  assumes "k < 8" "k = 6 \<longrightarrow> can_extend srv exts" "k = 7 \<longrightarrow> distinct (map a_id (audits d))"
  shows "m_up (migrations ! k) srv (staged exts k d) =
     Inr (staged (if k = 6 then with_extensions exts else exts) (Suc k) (step (Suc k) d))"
  using assms
  by (cases rule: stage_cases)
    (simp_all add: migrations_def scripted_def up_lemmas can_extend_def m8_up migrate_chain_step
      m1_up [simplified] m2_up [simplified] numeral_2_eq_2 [symmetric] del: up_statements.simps)

lemma migration_down:
  assumes "k < 8"
  shows "m_down (migrations ! k) srv (staged exts (Suc k) d) = Inr (staged exts k d)"
  using assms
  by (cases rule: stage_cases)
    (simp_all add: migrations_def scripted_def down_lemmas
      m1_down [simplified] m2_down [simplified] numeral_2_eq_2 [symmetric] del: down_statements.simps)

lemma migrations_length [simp]: "length migrations = 8"
  by (simp add: migrations_def)

text \<open>A migration only fills what the schema before it does not have.\<close>

lemma staged_step:
  assumes "k < 8"
  shows "staged exts k (step (Suc k) d) = staged exts k d"
  using assms
  by (cases rule: stage_cases)
    (simp_all add: stage_defs cells_defs comp_def backfill_legacy_seq_def add_chain_columns_def)

end
