(* ===== verification/Upgrade.thy ===== *)
theory Upgrade
  imports Stages Catalog
begin

text \<open>
  The migrator on a deployment: fresh installs, upgrades from any earlier release and their
  undoing, the integrity of the migrated database and what an upgrade means to the service.
\<close>

section \<open>Up and down\<close>

lemma migrate_up_step:
  "k < 8 \<Longrightarrow> migrate_up srv k s =
     (case m_up (migrations ! k) srv s of Inl e \<Rightarrow> Inl e | Inr s' \<Rightarrow> migrate_up srv (Suc k) s')"
  unfolding migrate_up_def by (simp add: Cons_nth_drop_Suc [symmetric])

lemma upgraded_step: "k < 8 \<Longrightarrow> upgraded k d = upgraded (Suc k) (step (Suc k) d)"
proof -
  assume "k < 8"
  then have "[Suc k..<9] = Suc k # [Suc (Suc k)..<9]" by (simp add: upt_rec)
  then show ?thesis by (simp add: upgraded_def)
qed

lemma upgraded_8 [simp]: "upgraded 8 d = d"
  by (simp add: upgraded_def)

lemma extensions_after_twice [simp]: "extensions_after k (with_extensions exts) = with_extensions exts"
  by (simp add: extensions_after_def with_extensions_def)

lemma can_extend_after: "can_extend srv exts \<Longrightarrow> can_extend srv (with_extensions exts)"
  by (simp add: can_extend_def with_extensions_def)

text \<open>The ids that the numbering of the audit log needs to be distinct, when there is a log.\<close>

definition log_ids_distinct :: "nat \<Rightarrow> database \<Rightarrow> bool" where
  "log_ids_distinct k d \<longleftrightarrow> 6 \<le> k \<longrightarrow> distinct (map a_id (audits d))"

lemma log_ids_step: "k < 8 \<Longrightarrow> log_ids_distinct k d \<Longrightarrow> log_ids_distinct (Suc k) (step (Suc k) d)"
  by (cases rule: stage_cases, assumption)
    (simp_all add: log_ids_distinct_def step_def backfill_legacy_seq_def add_chain_columns_def comp_def)

lemma migrate_up_staged:
  assumes "k \<le> 8" "can_extend srv exts" "log_ids_distinct k d"
  shows "migrate_up srv k (staged exts k d) = Inr (staged (extensions_after k exts) 8 (upgraded k d))"
  using assms
proof (induction k arbitrary: exts d rule: inc_induct)
  case base
  then show ?case by (simp add: migrate_up_def extensions_after_def)
next
  case (step k)
  let ?exts = "if k = 6 then with_extensions exts else exts"
  have "extensions_after (Suc k) ?exts = extensions_after k exts"
    using step.hyps by (auto simp: extensions_after_def)
  moreover have "m_up (migrations ! k) srv (staged exts k d) = Inr (staged ?exts (Suc k) (Stages.step (Suc k) d))"
    using step by (intro migration_up) (auto simp: log_ids_distinct_def)
  moreover have "can_extend srv ?exts" using step.prems can_extend_after by simp
  ultimately show ?case
    using step.IH [of ?exts "Stages.step (Suc k) d"] step.hyps step.prems log_ids_step
    by (simp add: migrate_up_step upgraded_step)
qed

text \<open>What a migration adds is invisible to every earlier schema: undoing migrations shows it.\<close>

lemma staged_below:
  assumes "k \<le> j" "j \<le> 8" "staged exts j d = staged exts j d'"
  shows "staged exts k d = staged exts k d'"
  using assms
proof (induction j rule: dec_induct)
  case (step j)
  then have "Inr (staged exts j d) = (Inr (staged exts j d') :: db_err + sql_db)"
    using migration_down [of j undefined exts d] migration_down [of j undefined exts d'] by simp
  with step show ?case by simp
qed simp

lemma staged_upgraded: "k \<le> 8 \<Longrightarrow> staged exts k (upgraded k d) = staged exts k d"
proof (induction k arbitrary: d rule: inc_induct)
  case (step k)
  then have "staged exts k (upgraded k d) = staged exts k (Stages.step (Suc k) d)"
    by (intro staged_below [of k "Suc k"]) (simp_all add: upgraded_step)
  with step.hyps show ?case by (simp add: staged_step)
qed simp

lemma migrate_down_staged:
  "n \<le> 8 \<Longrightarrow> migrate_down srv n 8 (staged exts 8 d) = Inr (staged exts (8 - n) d)"
proof (induction n)
  case (Suc n)
  have take: "take (Suc n) (rev migrations) = take n (rev migrations) @ [migrations ! (8 - Suc n)]"
    using Suc.prems by (simp add: take_Suc_conv_app_nth rev_nth)
  have "8 - n = Suc (8 - Suc n)" using Suc.prems by simp
  with migration_down [of "8 - Suc n" srv exts d] Suc show ?case
    by (simp add: migrate_down_def take each_append)
qed (simp add: migrate_down_def)

text \<open>
  C33: An upgrade from the schema of any earlier release succeeds whatever the tables hold, and
  undoing the migrations it applied gives back exactly the database it started from, except that
  the two extensions stay installed.
\<close>

theorem upgrade_roundtrip:
  assumes "k \<le> 8" "can_extend srv exts" "log_ids_distinct k d"
  shows "\<exists>s. migrate_up srv k (staged exts k d) = Inr s \<and>
     migrate_down srv (8 - k) 8 s = Inr (staged (extensions_after k exts) k d)"
  using migrate_up_staged [OF assms] migrate_down_staged [of "8 - k"] staged_upgraded [OF assms(1)] assms(1)
  by simp

section \<open>Integrity\<close>

lemma list_all_from_stage: "list_all P (from_stage n k xs) \<longleftrightarrow> (n \<le> k \<longrightarrow> list_all P xs)"
  by (simp add: from_stage_def)

lemma set_from_stage: "set (from_stage n k xs) = (if n \<le> k then set xs else {})"
  by (simp add: from_stage_def)

text \<open>The constraints of the schema after \<open>k\<close> migrations, on the typed rows.\<close>

definition integrity :: "nat \<Rightarrow> database \<Rightarrow> bool" where
  "integrity k d \<longleftrightarrow>
     (0 < k \<longrightarrow>
       distinct (map o_id (orgs d)) \<and> distinct (map o_slug (orgs d)) \<and>
       distinct (map t_id (tokens d)) \<and> distinct (map t_hash (tokens d)) \<and>
       distinct (map p_id (packages d)) \<and> distinct (map package_key (packages d)) \<and>
       distinct (map v_id (versions d)) \<and> distinct (map version_key (versions d)) \<and>
       (\<forall>r\<in>set (tokens d). opt_holds (has_org d) (t_org r)) \<and>
       (\<forall>r\<in>set (packages d). has_org d (p_org r)) \<and>
       (\<forall>r\<in>set (versions d). has_package d (v_package r))) \<and>
     (3 \<le> k \<longrightarrow> (\<forall>r\<in>set (orgs d). opt_holds (has_token d) (o_created_by r))) \<and>
     (6 \<le> k \<longrightarrow> distinct (map a_id (audits d)) \<and> (\<forall>r\<in>set (audits d). has_org d (a_org r))) \<and>
     (7 \<le> k \<longrightarrow> distinct (map e_id (embeddings d)) \<and> distinct (map embedding_key (embeddings d)) \<and>
                (\<forall>r\<in>set (embeddings d). has_package d (e_package r))) \<and>
     (8 \<le> k \<longrightarrow> distinct (map audit_key (audits d)))"

lemma cell_Cons [simp]: "cell c ((n, v) # r) = (if c = n then v else cell c r)"
  by (simp add: cell_def)

lemma cell_Nil [simp]: "cell c [] = Null"
  by (simp add: cell_def)

lemma opt_cell_simps [simp]:
  "opt_cell f None = Null" "opt_cell f (Some x) = f x"
  by (simp_all add: opt_cell_def)

lemma unique_one:
  assumes "\<And>x. cell c (f x) \<noteq> Null" "\<And>x y. cell c (f x) = cell c (f y) \<longleftrightarrow> g x = g y"
  shows "unique_on [c] (map f xs) \<longleftrightarrow> distinct (map g xs)"
  using assms by (subst unique_on_map) (auto intro!: distinct_map_key)

lemma unique_two:
  assumes "\<And>x. cell c (f x) \<noteq> Null" "\<And>x. cell c' (f x) \<noteq> Null"
    and "\<And>x y. cell c (f x) = cell c (f y) \<and> cell c' (f x) = cell c' (f y) \<longleftrightarrow> g x = g y"
  shows "unique_on [c, c'] (map f xs) \<longleftrightarrow> distinct (map g xs)"
  using assms by (subst unique_on_map) (auto intro!: distinct_map_key)

lemma fk_nullable:
  assumes "\<And>x. cell (f_column F) (f x) = opt_cell Uuid_V (g x)"
    and "cell (f_ref F) ` set (rows_of (f_table F) s) = Uuid_V ` A"
  shows "fk_satisfied s (map f xs) F \<longleftrightarrow> (\<forall>x\<in>set xs. opt_holds (\<lambda>u. u \<in> A) (g x))"
  using assms by (auto simp: fk_satisfied_def opt_cell_def opt_holds_def split: option.splits)

lemma fk_required:
  assumes "\<And>x. cell (f_column F) (f x) = Uuid_V (g x)"
    and "cell (f_ref F) ` set (rows_of (f_table F) s) = Uuid_V ` A"
  shows "fk_satisfied s (map f xs) F \<longleftrightarrow> (\<forall>x\<in>set xs. g x \<in> A)"
  using assms by (auto simp: fk_satisfied_def)

lemma staged_rows:
  assumes "0 < k"
  shows "rows_of ''org'' (staged exts k d) = map (org_cells k) (orgs d)"
    "rows_of ''token'' (staged exts k d) = map (token_cells k) (tokens d)"
    "rows_of ''package'' (staged exts k d) = map (package_cells k) (packages d)"
    "rows_of ''version'' (staged exts k d) = map version_cells (versions d)"
    "6 \<le> k \<Longrightarrow> rows_of ''audit_log'' (staged exts k d) = map (audit_cells k) (audits d)"
    "7 \<le> k \<Longrightarrow> rows_of ''package_embedding'' (staged exts k d) = map embedding_cells (embeddings d)"
  using assms by (simp_all add: rows_of_def staged_def staged_tables_def from_stage_def)

lemma staged_uniques:
  "unique_on [''id''] (map (org_cells k) os) \<longleftrightarrow> distinct (map o_id os)"
  "unique_on [''slug''] (map (org_cells k) os) \<longleftrightarrow> distinct (map o_slug os)"
  "unique_on [''id''] (map (token_cells k) ts) \<longleftrightarrow> distinct (map t_id ts)"
  "unique_on [''token_hash''] (map (token_cells k) ts) \<longleftrightarrow> distinct (map t_hash ts)"
  "unique_on [''id''] (map (package_cells k) ps) \<longleftrightarrow> distinct (map p_id ps)"
  "unique_on [''org_id'', ''name''] (map (package_cells k) ps) \<longleftrightarrow> distinct (map package_key ps)"
  "unique_on [''id''] (map version_cells vs) \<longleftrightarrow> distinct (map v_id vs)"
  "unique_on [''package_id'', ''version''] (map version_cells vs) \<longleftrightarrow> distinct (map version_key vs)"
  "unique_on [''id''] (map (audit_cells k) as) \<longleftrightarrow> distinct (map a_id as)"
  "8 \<le> k \<Longrightarrow> unique_on [''org_id'', ''seq''] (map (audit_cells k) as) \<longleftrightarrow> distinct (map audit_key as)"
  "unique_on [''id''] (map embedding_cells es) \<longleftrightarrow> distinct (map e_id es)"
  "unique_on [''package_id'', ''embedding_model''] (map embedding_cells es) \<longleftrightarrow> distinct (map embedding_key es)"
  by (rule unique_one unique_two;
      simp add: cells_defs from_stage_def package_key_def version_key_def audit_key_def embedding_key_def)+

lemma staged_fks:
  assumes "0 < k"
  shows "fk_satisfied (staged exts k d) (map (token_cells k) ts) (fk n ''org_id'' ''org'' ''id'') \<longleftrightarrow>
      (\<forall>r\<in>set ts. opt_holds (has_org d) (t_org r))"
    "fk_satisfied (staged exts k d) (map (package_cells k) ps) (fk n ''org_id'' ''org'' ''id'') \<longleftrightarrow>
      (\<forall>r\<in>set ps. has_org d (p_org r))"
    "fk_satisfied (staged exts k d) (map version_cells vs) (fk n ''package_id'' ''package'' ''id'') \<longleftrightarrow>
      (\<forall>r\<in>set vs. has_package d (v_package r))"
    "3 \<le> k \<Longrightarrow> fk_satisfied (staged exts k d) (map (org_cells k) os) fk_org_created_by_token \<longleftrightarrow>
      (\<forall>r\<in>set os. opt_holds (has_token d) (o_created_by r))"
    "fk_satisfied (staged exts k d) (map (audit_cells k) as) (fk n ''org_id'' ''org'' ''id'') \<longleftrightarrow>
      (\<forall>r\<in>set as. has_org d (a_org r))"
    "fk_satisfied (staged exts k d) (map embedding_cells es) embedding_fk \<longleftrightarrow>
      (\<forall>r\<in>set es. has_package d (e_package r))"
  by (rule fk_nullable fk_required;
      simp add: staged_rows [OF assms] image_image cells_defs from_stage_def
        fk_def fk_org_created_by_token_def embedding_fk_def)+

lemma staged_columns:
  "list_all (column_ok (map (org_cells k) os)) (init_org @ from_stage 3 k [column_def ''created_by_token'' Uuid])
     \<longleftrightarrow> distinct (map o_id os) \<and> distinct (map o_slug os)"
  "list_all (column_ok (map (token_cells k) ts)) (init_token @ from_stage 4 k [role_column]
       @ from_stage 5 k [column_def ''expires_at'' Timestamptz, column_def ''revoked_at'' Timestamptz])
     \<longleftrightarrow> distinct (map t_id ts) \<and> distinct (map t_hash ts)"
  "list_all (column_ok (map (package_cells k) ps)) (init_package @ from_stage 2 k [scheme_column]
       @ from_stage 7 k [tags_column Jsonb])
     \<longleftrightarrow> distinct (map p_id ps)"
  "list_all (column_ok (map version_cells vs)) init_version \<longleftrightarrow> distinct (map v_id vs)"
  "list_all (column_ok (map (audit_cells k) as)) (audit_columns @ from_stage 8 k seq_columns)
     \<longleftrightarrow> distinct (map a_id as)"
  "list_all (column_ok (map embedding_cells es)) embedding_columns \<longleftrightarrow> distinct (map e_id es)"
  by (simp_all add: column_ok_def column_defs staged_uniques cells_defs from_stage_def)

lemma staged_constraints:
  assumes "0 < k"
  shows "(\<forall>(n, t)\<in>set (sql_tables (staged exts k d)).
        list_all (column_ok (tbl_rows t)) (tbl_columns t) \<and>
        list_all (fk_satisfied (staged exts k d) (tbl_rows t)) (tbl_fks t)) \<longleftrightarrow>
     distinct (map o_id (orgs d)) \<and> distinct (map o_slug (orgs d)) \<and>
     (3 \<le> k \<longrightarrow> (\<forall>r\<in>set (orgs d). opt_holds (has_token d) (o_created_by r))) \<and>
     distinct (map t_id (tokens d)) \<and> distinct (map t_hash (tokens d)) \<and>
     (\<forall>r\<in>set (tokens d). opt_holds (has_org d) (t_org r)) \<and>
     distinct (map p_id (packages d)) \<and> (\<forall>r\<in>set (packages d). has_org d (p_org r)) \<and>
     distinct (map v_id (versions d)) \<and> (\<forall>r\<in>set (versions d). has_package d (v_package r)) \<and>
     (6 \<le> k \<longrightarrow> distinct (map a_id (audits d)) \<and> (\<forall>r\<in>set (audits d). has_org d (a_org r))) \<and>
     (7 \<le> k \<longrightarrow> distinct (map e_id (embeddings d)) \<and> (\<forall>r\<in>set (embeddings d). has_package d (e_package r)))"
proof -
  have tables: "sql_tables (staged exts k d) = staged_tables k d" using assms by (simp add: staged_def)
  note fks = staged_fks [OF assms, of exts d]
  show ?thesis
    unfolding tables
    by (simp add: staged_tables_def set_from_stage ball_Un list_all_from_stage staged_columns fks
        del: list_all_append)
qed

lemma staged_index_constraints:
  assumes "0 < k"
  shows "list_all (index_ok (staged exts k d)) (sql_indexes (staged exts k d)) \<longleftrightarrow>
      distinct (map package_key (packages d)) \<and> distinct (map version_key (versions d)) \<and>
      (7 \<le> k \<longrightarrow> distinct (map embedding_key (embeddings d))) \<and>
      (8 \<le> k \<longrightarrow> distinct (map audit_key (audits d)))"
  using assms staged_rows [OF assms, of exts d] staged_uniques
  by (auto simp: staged_indexes_def list_all_from_stage index_ok_def index_on_def needing_def
      created_at_idx_def pkg_model_uq_def org_seq_idx_def staged_def [of _ _ d])

lemma integrity_staged: "constraints_hold (staged exts k d) \<longleftrightarrow> integrity k d"
proof (cases "0 < k")
  case True
  show ?thesis
    unfolding constraints_hold_def staged_constraints [OF True] staged_index_constraints [OF True] integrity_def
    using True by auto
next
  case False
  then show ?thesis by (simp add: constraints_hold_def integrity_def staged_def no_tables_def)
qed

lemma numbered_ids: "map a_id (backfill_legacy_seq (map add_chain_columns rows)) = map a_id rows"
  by (simp add: backfill_legacy_seq_def add_chain_columns_def comp_def)

lemma numbered_orgs:
  assumes "r \<in> set (backfill_legacy_seq (map add_chain_columns rows))"
  obtains q where "q \<in> set rows" "a_org r = a_org q"
  using assms by (auto simp: backfill_legacy_seq_def add_chain_columns_def)

lemma numbered_keys:
  "distinct (map a_id rows) \<Longrightarrow> distinct (map audit_key (backfill_legacy_seq (map add_chain_columns rows)))"
  using backfill_dense(2) [of "map add_chain_columns rows"] by (simp add: add_chain_columns_def comp_def)

lemma integrity_step:
  assumes "k < 8" "integrity k d"
  shows "integrity (Suc k) (step (Suc k) d)"
  using assms
  by (cases rule: stage_cases)
    (auto simp: integrity_def step_def empty_db_def comp_def package_key_def [abs_def] image_image
      numbered_ids numbered_keys elim!: numbered_orgs)

lemma integrity_upgraded: "k \<le> 8 \<Longrightarrow> integrity k d \<Longrightarrow> integrity 8 (upgraded k d)"
  by (induction k arbitrary: d rule: inc_induct) (simp_all add: integrity_step upgraded_step)

definition embedding_integrity :: "database \<Rightarrow> bool" where
  "embedding_integrity d \<longleftrightarrow>
     distinct (map e_id (embeddings d)) \<and> distinct (map embedding_key (embeddings d)) \<and>
     (\<forall>r\<in>set (embeddings d). has_package d (e_package r))"

lemma integrity_8: "integrity 8 d \<longleftrightarrow> db_ok d \<and> embedding_integrity d"
  by (auto simp: integrity_def db_ok_def unique_ok_def fk_ok_def indexed_defs embedding_integrity_def)

lemma db_ok_integrity: "db_ok d \<Longrightarrow> k \<le> 6 \<Longrightarrow> integrity k d"
  by (auto simp: integrity_def db_ok_def unique_ok_def fk_ok_def indexed_defs)


section \<open>What an upgrade means to the service\<close>

lemma find_map: "find P (map f xs) = map_option f (find (P \<circ> f) xs)"
  by (induction xs) auto

lemma catalog_step:
  assumes "0 < k" "k < 8"
  shows "catalog (step (Suc k) d) = catalog d"
  using assms(2,1)
  by (cases rule: stage_cases)
    (auto simp: step_def catalog_def org_by_slug_def package_by_name_def version_by_name_def find_map comp_def
      split: option.splits intro!: ext)

lemma catalog_upgraded: "0 < k \<Longrightarrow> k \<le> 8 \<Longrightarrow> catalog (upgraded k d) = catalog d"
proof (induction "8 - k" arbitrary: k d)
  case (Suc n)
  then show ?case by (simp add: upgraded_step catalog_step)
qed simp

text \<open>What an upgrade makes of a token: before roles it was an owner, before lifecycles it was live.\<close>

definition token_after :: "nat \<Rightarrow> token_row \<Rightarrow> token_row" where
  "token_after k t =
     (let t' = if k < 5 then t\<lparr>t_expires_at := None, t_revoked_at := None\<rparr> else t
      in if k < 4 then t'\<lparr>t_role := ''owner''\<rparr> else t')"

lemma tokens_upgraded: "0 < k \<Longrightarrow> k \<le> 8 \<Longrightarrow> tokens (upgraded k d) = map (token_after k) (tokens d)"
proof (induction "8 - k" arbitrary: k d)
  case 0
  then show ?case by (simp add: token_after_def)
next
  case (Suc n)
  then have k: "k < 8" by simp
  have "map (token_after (Suc k)) (tokens (step (Suc k) d)) = map (token_after k) (tokens d)"
    using k Suc.prems(1) by (cases rule: stage_cases) (simp_all add: step_def token_after_def comp_def)
  with Suc show ?case by (simp add: upgraded_step)
qed

lemma audits_step:
  "Suc k < 8 \<Longrightarrow> (if Suc k < 6 then [] else audits (step (Suc k) d)) = (if k < 6 then [] else audits d)"
  by (auto simp: step_def)

lemma audits_upgraded:
  "k < 8 \<Longrightarrow> audits (upgraded k d) =
     backfill_legacy_seq (map add_chain_columns (if k < 6 then [] else audits d))"
proof (induction "8 - k" arbitrary: k d)
  case (Suc n)
  show ?case
  proof (cases "k = 7")
    case True
    then show ?thesis by (simp add: upgraded_step step_def)
  next
    case False
    then have "Suc k < 8" using Suc.prems by simp
    with Suc show ?thesis by (simp only: upgraded_step audits_step)
  qed
qed simp

lemma upgraded_logs:
  assumes "k < 8" "log_ids_distinct k d"
  shows "log_ok E (org_log org (upgraded k d)) \<and>
     verify_chain E (org_log org (upgraded k d)) =
     \<lparr>rep_intact = True, rep_checked = 0, rep_first_bad = None, rep_problem = None, rep_head = None\<rparr>"
proof -
  let ?d = "d\<lparr>audits := if k < 6 then [] else audits d\<rparr>"
  have ids: "distinct (map a_id (audits ?d))" using assms(2) by (simp add: log_ids_distinct_def)
  from migrate_succeeds [OF ids, of E org] have
    "log_ok E (org_log org (step 8 ?d)) \<and> verify_chain E (org_log org (step 8 ?d)) =
       \<lparr>rep_intact = True, rep_checked = 0, rep_first_bad = None, rep_problem = None, rep_head = None\<rparr>"
    by (simp add: migrate_chain_step [OF ids])
  moreover have "org_log org (upgraded k d) = org_log org (step 8 ?d)"
    by (simp add: org_log_def org_rows_def audits_upgraded [OF assms(1)] step_def)
  ultimately show ?thesis by simp
qed

lemma staged_integrity:
  assumes "k \<le> 8" "constraints_hold (staged exts k d)"
  shows "log_ids_distinct k d" "db_ok (upgraded k d)"
    "constraints_hold (staged exts' 8 (upgraded k d))"
  using assms integrity_upgraded [of k d]
  by (simp_all add: integrity_staged integrity_8) (simp add: integrity_def log_ids_distinct_def)

text \<open>
  C39: The upgrade of a deployment whose constraints hold, from whatever release, succeeds; every
  constraint of the new schema then holds, every coordinate resolves to the digest and the flag it
  had, and every token keeps its hash and scope, an owner where it predates roles and live where
  it predates expiry and revocation. No audit entry from before the chain is claimed as verified.
\<close>

theorem upgrade_serves_as_before:
  assumes "0 < k" "k \<le> 8" "can_extend srv exts" "constraints_hold (staged exts k d)"
  shows "migrate_up srv k (staged exts k d) = Inr (staged (extensions_after k exts) 8 (upgraded k d)) \<and>
     constraints_hold (staged (extensions_after k exts) 8 (upgraded k d)) \<and> db_ok (upgraded k d) \<and>
     catalog (upgraded k d) = catalog d \<and> tokens (upgraded k d) = map (token_after k) (tokens d) \<and>
     (k < 8 \<longrightarrow> verify_chain E (org_log org (upgraded k d)) =
        \<lparr>rep_intact = True, rep_checked = 0, rep_first_bad = None, rep_problem = None, rep_head = None\<rparr>)"
  using migrate_up_staged [OF assms(2,3)] staged_integrity [OF assms(2,4)] assms(1,2)
  by (simp add: catalog_upgraded tokens_upgraded upgraded_logs)

section \<open>A fresh install\<close>

text \<open>
  The entities of \<open>src/entities/\<close>: per field its column, the SQL type of its Rust type, whether
  it is an \<open>Option\<close>, and its \<open>primary_key\<close> and \<open>unique\<close> attributes.
\<close>

datatype rust_type = RUuid | RString | RDateTimeUtc | RI64 | RBool | RJson

fun sql_type :: "rust_type \<Rightarrow> col_type" where
  "sql_type RUuid = Uuid"
| "sql_type RString = Varchar"
| "sql_type RDateTimeUtc = Timestamptz"
| "sql_type RI64 = Bigint"
| "sql_type RBool = Boolean"
| "sql_type RJson = Jsonb"

record field =
  fd_name :: string
  fd_type :: rust_type
  fd_option :: bool
  fd_primary :: bool
  fd_unique :: bool

definition field :: "string \<Rightarrow> rust_type \<Rightarrow> field" where
  "field n ty = \<lparr>fd_name = n, fd_type = ty, fd_option = False, fd_primary = False, fd_unique = False\<rparr>"

definition optional :: "string \<Rightarrow> rust_type \<Rightarrow> field" where
  "optional n ty = (field n ty)\<lparr>fd_option := True\<rparr>"

definition id_field :: field where
  "id_field = (field ''id'' RUuid)\<lparr>fd_primary := True\<rparr>"

definition org_entity :: "field list" where
  "org_entity =
     [id_field, (field ''slug'' RString)\<lparr>fd_unique := True\<rparr>, field ''created_at'' RDateTimeUtc,
      optional ''created_by_token'' RUuid]"

definition token_entity :: "field list" where
  "token_entity =
     [id_field, field ''name'' RString, (field ''token_hash'' RString)\<lparr>fd_unique := True\<rparr>,
      optional ''org_id'' RUuid, field ''role'' RString, field ''created_at'' RDateTimeUtc,
      optional ''expires_at'' RDateTimeUtc, optional ''revoked_at'' RDateTimeUtc]"

definition package_entity :: "field list" where
  "package_entity =
     [id_field, field ''org_id'' RUuid, field ''name'' RString, optional ''description'' RString,
      field ''vcs'' RString, field ''repo_url'' RString, field ''version_scheme'' RString,
      field ''tags'' RJson, field ''created_at'' RDateTimeUtc]"

definition version_entity :: "field list" where
  "version_entity =
     [id_field, field ''package_id'' RUuid, field ''version'' RString, field ''sha256'' RString,
      field ''size'' RI64, field ''format'' RString, field ''vcs_tag'' RString,
      optional ''vcs_commit'' RString, field ''artifact_key'' RString, field ''yanked'' RBool,
      field ''published_at'' RDateTimeUtc]"

definition audit_entity :: "field list" where
  "audit_entity =
     [id_field, field ''org_id'' RUuid, field ''at'' RDateTimeUtc, field ''action'' RString,
      field ''subject'' RString, optional ''actor_token_id'' RUuid, field ''actor_token_name'' RString,
      field ''actor_role'' RString, optional ''detail'' RString, field ''seq'' RI64,
      field ''entry_hash'' RString, optional ''prev_hash'' RString]"

definition entities :: "(string \<times> field list) list" where
  "entities =
     [(''org'', org_entity), (''token'', token_entity), (''package'', package_entity),
      (''version'', version_entity), (''audit_log'', audit_entity)]"

text \<open>A table backs an entity when its columns are the entity's fields, with their attributes.\<close>

definition backs :: "table \<Rightarrow> field list \<Rightarrow> bool" where
  "backs t e \<longleftrightarrow>
     set (map (\<lambda>c. (c_name c, c_type c, c_not_null c, c_primary c, c_unique c)) (tbl_columns t)) =
     set (map (\<lambda>f. (fd_name f, sql_type (fd_type f), \<not> fd_option f, fd_primary f, fd_unique f)) e)"

lemmas entity_defs = entities_def org_entity_def token_entity_def package_entity_def version_entity_def
  audit_entity_def id_field_def optional_def field_def


section \<open>The tests' database\<close>

text \<open>
  On SQLite the seventh migration cannot be applied again after it was undone: its down leaves the
  \<open>tags\<close> column and its up adds it unconditionally.
\<close>

fun touches :: "string \<Rightarrow> statement \<Rightarrow> bool" where
  "touches n (Create_Index _ _) = False"
| "touches n (Drop_Index _ _) = False"
| "touches n (Create_Table _ m _ _) = False"
| "touches n (Drop_Table _ m) = (m = n)"
| "touches n _ = True"

lemma untouched_table:
  "exec srv st s = Inr s' \<Longrightarrow> \<not> touches n st \<Longrightarrow> map_of (sql_tables s) n = Some t \<Longrightarrow>
     map_of (sql_tables s') n = Some t"
  by (cases st) (auto simp: map_add_Some_iff map_of_delete split: if_splits option.splits)

lemma untouched_script:
  "script srv sts s = Inr s' \<Longrightarrow> \<forall>st\<in>set sts. \<not> touches n st \<Longrightarrow> map_of (sql_tables s) n = Some t \<Longrightarrow>
     map_of (sql_tables s') n = Some t"
  unfolding script_def
  by (induction sts arbitrary: s) (auto split: sum.splits dest: untouched_table)

lemma sqlite_reapply_fails:
  assumes "script srv (up_statements Sqlite) s = Inr s1" "script srv (down_statements Sqlite) s1 = Inr s2"
  shows "script srv (up_statements Sqlite) s2 = failed ''duplicate_column''"
proof -
  let ?add = "Add_Columns ''package'' [(False, tags_column Text)]"
  obtain rest where up: "up_statements Sqlite = [?add] @ rest" "\<forall>st\<in>set rest. \<not> touches ''package'' st"
    by simp
  from assms(1) obtain s0 where s0: "exec srv ?add s = Inr s0" "script srv rest s0 = Inr s1"
    unfolding up(1) script_append by (auto simp: script_def split: sum.splits simp del: exec.simps)
  then obtain t where t: "map_of (sql_tables s0) ''package'' = Some t" "''tags'' \<in> set (column_names t)"
    by (auto simp: alter_def add_column_def Let_def tags_column_def column_def_def column_names_def
        AList.update_conv' split: option.splits if_splits)
  have "map_of (sql_tables s2) ''package'' = Some t"
    by (rule untouched_script [OF assms(2)], simp, rule untouched_script [OF s0(2) up(2) t(1)])
  with t(2) show ?thesis
    unfolding up(1) script_append
    by (simp add: script_def alter_def add_column_def tags_column_def column_def_def)
qed

end
