(* ===== verification/Startup.thy ===== *)
theory Startup
  imports Router Upgrade
begin

text \<open>
  \<open>server::run\<close> of \<open>src/server.rs\<close> from the command line to the listening socket: the order of the
  steps, what each failure leaves behind, and what the service starts with. What the process finds
  (when the database answers, which migrations it has, what the store holds, whether the address is
  free) is the record \<open>machine\<close>.
\<close>

section \<open>The start of the process\<close>

record machine =
  connects :: "nat \<Rightarrow> bool"
  seconds :: "nat \<Rightarrow> nat"
  sql_host :: sql_server
  applied :: nat
  deployment :: sql_db
  mkdir_outcome :: io_outcome
  objects :: "(string \<times> bytes) list"
  can_bind :: "string \<Rightarrow> bool"

datatype fiducia_client = Internal_Client string string string | Public_Client string

definition fiducia_of :: "fiducia_config \<Rightarrow> fiducia_client" where
  "fiducia_of c =
     (case fc_internal_secret c of
        Some secret \<Rightarrow> Internal_Client (fc_url c) secret (fc_org_id c)
      | None \<Rightarrow> Public_Client (fc_url c))"

record service =
  sv_state :: app_state
  sv_store :: artifact_store
  sv_limiter :: "limiter option"
  sv_fiducia :: "fiducia_client option"
  sv_router :: router
  sv_addr :: string

datatype outcome =
  Administered command | Probed | Waiting | Failed string | Listening service

definition apply_migrations :: "machine \<Rightarrow> config \<Rightarrow> db_err + sql_db" where
  "apply_migrations m cfg =
     (if auto_migrate cfg then migrate_up (sql_host m) (applied m) (deployment m)
      else Inr (deployment m))"

definition service_of :: "(string \<Rightarrow> f64 option) \<Rightarrow> env \<Rightarrow> config \<Rightarrow> artifact_store \<Rightarrow> service" where
  "service_of parse_f64 env cfg store' =
     (let st = server_state env Postgres cfg
      in \<lparr>sv_state = st, sv_store = store', sv_limiter = server_limiter parse_f64 st,
          sv_fiducia = map_option fiducia_of (fiducia_cfg cfg), sv_router = router st (max_artifact_bytes cfg),
          sv_addr = bind_addr cfg\<rparr>)"

text \<open>What is left of the database is returned with the outcome.\<close>

definition start_service ::
    "(string \<Rightarrow> f64 option) \<Rightarrow> machine \<Rightarrow> env \<Rightarrow> nat \<Rightarrow> outcome \<times> sql_db" where
  "start_service parse_f64 m env fuel =
     (case config_from_env env of
        Inl e \<Rightarrow> (Failed e, deployment m)
      | Inr cfg \<Rightarrow>
     (case connect_loop (connects m) (seconds m) (connect_max_wait env) fuel 0 of
        None \<Rightarrow> (Waiting, deployment m)
      | Some (Inl e) \<Rightarrow> (Failed e, deployment m)
      | Some (Inr _) \<Rightarrow>
     (case apply_migrations m cfg of
        Inl e \<Rightarrow> (Failed ''migrations failed'', deployment m)
      | Inr migrated \<Rightarrow>
     (case store_from_config (mkdir_outcome m) (objects m) (storage_cfg cfg) of
        Inl e \<Rightarrow> (Failed e, migrated)
      | Inr store' \<Rightarrow>
          if can_bind m (bind_addr cfg)
          then (Listening (service_of parse_f64 env cfg store'), migrated)
          else (Failed (''cannot bind '' @ bind_addr cfg), migrated)))))"

definition run :: "(string \<Rightarrow> f64 option) \<Rightarrow> machine \<Rightarrow> env \<Rightarrow> string list \<Rightarrow> nat \<Rightarrow> outcome \<times> sql_db" where
  "run parse_f64 m env args fuel =
     (case process_command args of
        CreateToken rest \<Rightarrow> (Administered (CmdCreate rest), deployment m)
      | RevokeToken rest \<Rightarrow> (Administered (CmdRevoke rest), deployment m)
      | Healthcheck \<Rightarrow> (Probed, deployment m)
      | Serve \<Rightarrow> start_service parse_f64 m env fuel)"

section \<open>What starting means\<close>

lemma run_listening:
  assumes "run parse_f64 m env args fuel = (Listening s, migrated)"
  obtains cfg n store' where "process_command args = Serve" "config_from_env env = Inr cfg"
    "connect_loop (connects m) (seconds m) (connect_max_wait env) fuel 0 = Some (Inr n)"
    "apply_migrations m cfg = Inr migrated"
    "store_from_config (mkdir_outcome m) (objects m) (storage_cfg cfg) = Inr store'"
    "s = service_of parse_f64 env cfg store'"
  using assms
  by (auto simp: run_def start_service_def split: ProcessCommand.splits sum.splits option.splits if_splits)

lemma run_settles:
  assumes "\<And>n. seconds m n + 2 \<le> seconds m (Suc n)"
  shows "fst (run parse_f64 m env args (connect_fuel (connect_max_wait env))) \<noteq> Waiting"
proof -
  obtain r where "connect_loop (connects m) (seconds m) (connect_max_wait env)
      (connect_fuel (connect_max_wait env)) 0 = Some r"
    using connect_settles [of "seconds m" "connects m" "connect_max_wait env", OF assms] by blast
  then show ?thesis
    by (auto simp: run_def start_service_def split: ProcessCommand.splits sum.splits)
qed

text \<open>A start that fails leaves the database as it was, or fully migrated.\<close>

lemma run_failed:
  assumes "run parse_f64 m env args fuel = (Failed e, d)"
  shows "d = deployment m \<or> migrate_up (sql_host m) (applied m) (deployment m) = Inr d"
  using assms
  by (auto simp: run_def start_service_def apply_migrations_def
      split: ProcessCommand.splits sum.splits option.splits if_splits)

section \<open>Serving an upgraded deployment\<close>

lemma upgraded_chain_inv:
  "k < 8 \<Longrightarrow> constraints_hold (staged exts k d) \<Longrightarrow> chain_inv E (upgraded k d)"
  using staged_integrity [of k exts d] upgraded_logs [of k d E] by (simp add: chain_inv_def)

lemma run_migrates:
  assumes "run parse_f64 m env args fuel = (Listening s, migrated)"
    and "deployment m = staged exts k d" "applied m = k" "k \<le> 8"
    and "can_extend (sql_host m) exts" "constraints_hold (staged exts k d)"
  shows "migrated =
     (if env_or env ''AUTO_MIGRATE'' ''true'' = ''true'' then staged (extensions_after k exts) 8 (upgraded k d)
      else staged exts k d)"
proof -
  obtain cfg where cfg: "config_from_env env = Inr cfg" "apply_migrations m cfg = Inr migrated"
    by (rule run_listening [OF assms(1)])
  have "auto_migrate cfg \<longleftrightarrow> env_or env ''AUTO_MIGRATE'' ''true'' = ''true''"
    using cfg(1) by (auto simp: config_from_env_def split: sum.splits)
  with cfg(2) assms(2-3) migrate_up_staged [OF assms(4,5) staged_integrity(1) [OF assms(4,6)]]
  show ?thesis by (auto simp: apply_migrations_def)
qed

end
