(* ===== verification/Latest_Model.thy ===== *)
theory Latest_Model
  imports Commits
begin

text \<open>
  \<open>formal/latest_selection.qnt\<close>: the repository's own model of which version is advertised as
  latest, for three totally ordered versions of one package. Its invariant is proved here for
  every state it reaches, and the abstract machine of \<open>Commits\<close>, which the server refines, is
  shown to refine it: the versions endpoints' \<open>latest_visible_version\<close> is the model's advertised
  latest. The ghost flags of the model record which scenarios a simulation has met.
\<close>

section \<open>The model\<close>

definition NONE :: int where
  "NONE = 0"

definition VERSIONS :: "int set" where
  "VERSIONS = {1, 2, 3}"

record selection_state =
  qnt_published :: "int set"
  qnt_yanked :: "int set"
  advertised_latest :: int
  saw_out_of_order_publish :: bool
  saw_yank_latest :: bool
  saw_restore_newer :: bool
  saw_idempotent_replay :: bool

definition expected_latest :: "int set \<Rightarrow> int set \<Rightarrow> int" where
  "expected_latest p y =
     (if 3 \<in> p \<and> 3 \<notin> y then 3 else if 2 \<in> p \<and> 2 \<notin> y then 2 else if 1 \<in> p \<and> 1 \<notin> y then 1 else NONE)"

definition qnt_init :: selection_state where
  "qnt_init = \<lparr>qnt_published = {}, qnt_yanked = {}, advertised_latest = NONE,
     saw_out_of_order_publish = False, saw_yank_latest = False, saw_restore_newer = False,
     saw_idempotent_replay = False\<rparr>"

text \<open>An action is disabled (\<open>None\<close>) where one of the conditions of its \<open>all\<close> block fails.\<close>

definition qnt_publish :: "int \<Rightarrow> selection_state \<Rightarrow> selection_state option" where
  "qnt_publish v s =
     (if v \<in> VERSIONS \<and> v \<notin> qnt_published s
      then Some (s\<lparr>qnt_published := qnt_published s \<union> {v},
        advertised_latest := expected_latest (qnt_published s \<union> {v}) (qnt_yanked s),
        saw_out_of_order_publish := saw_out_of_order_publish s \<or> advertised_latest s > v\<rparr>)
      else None)"

definition qnt_yank :: "int \<Rightarrow> selection_state \<Rightarrow> selection_state option" where
  "qnt_yank v s =
     (if v \<in> qnt_published s \<and> v \<notin> qnt_yanked s
      then Some (s\<lparr>qnt_yanked := qnt_yanked s \<union> {v},
        advertised_latest := expected_latest (qnt_published s) (qnt_yanked s \<union> {v}),
        saw_yank_latest := saw_yank_latest s \<or> advertised_latest s = v\<rparr>)
      else None)"

definition qnt_restore :: "int \<Rightarrow> selection_state \<Rightarrow> selection_state option" where
  "qnt_restore v s =
     (if v \<in> qnt_yanked s
      then Some (s\<lparr>qnt_yanked := qnt_yanked s - {v},
        advertised_latest := expected_latest (qnt_published s) (qnt_yanked s - {v}),
        saw_restore_newer := saw_restore_newer s \<or> v > advertised_latest s\<rparr>)
      else None)"

definition qnt_replay_yank :: "int \<Rightarrow> selection_state \<Rightarrow> selection_state option" where
  "qnt_replay_yank v s = (if v \<in> qnt_yanked s then Some (s\<lparr>saw_idempotent_replay := True\<rparr>) else None)"

definition qnt_replay_restore :: "int \<Rightarrow> selection_state \<Rightarrow> selection_state option" where
  "qnt_replay_restore v s =
     (if v \<in> qnt_published s \<and> v \<notin> qnt_yanked s then Some (s\<lparr>saw_idempotent_replay := True\<rparr>) else None)"

inductive qnt_step :: "selection_state \<Rightarrow> selection_state \<Rightarrow> bool" where
  Publish: "v \<in> VERSIONS \<Longrightarrow> qnt_publish v s = Some s' \<Longrightarrow> qnt_step s s'"
| Yank: "v \<in> VERSIONS \<Longrightarrow> qnt_yank v s = Some s' \<Longrightarrow> qnt_step s s'"
| Restore: "v \<in> VERSIONS \<Longrightarrow> qnt_restore v s = Some s' \<Longrightarrow> qnt_step s s'"
| Replay_Yank: "v \<in> VERSIONS \<Longrightarrow> qnt_replay_yank v s = Some s' \<Longrightarrow> qnt_step s s'"
| Replay_Restore: "v \<in> VERSIONS \<Longrightarrow> qnt_replay_restore v s = Some s' \<Longrightarrow> qnt_step s s'"
| Idle: "qnt_step s s"

text \<open>The five parts of \<open>selection_safety\<close>.\<close>

definition selection_safety :: "selection_state \<Rightarrow> bool" where
  "selection_safety s \<longleftrightarrow>
     (qnt_published s \<subseteq> VERSIONS \<and> qnt_yanked s \<subseteq> VERSIONS \<and>
       (advertised_latest s = NONE \<or> advertised_latest s \<in> VERSIONS)) \<and>
     qnt_yanked s \<subseteq> qnt_published s \<and>
     advertised_latest s = expected_latest (qnt_published s) (qnt_yanked s) \<and>
     (advertised_latest s = NONE \<or>
       advertised_latest s \<in> qnt_published s \<and> advertised_latest s \<notin> qnt_yanked s) \<and>
     (advertised_latest s \<noteq> NONE \<or> (\<forall>v\<in>qnt_published s. v \<in> qnt_yanked s))"

section \<open>Its invariant\<close>

lemma expected_latest_visible:
  "p \<subseteq> VERSIONS \<Longrightarrow>
     (if expected_latest p y = NONE then \<forall>v\<in>p. v \<in> y
      else expected_latest p y \<in> p - y \<and> (\<forall>v\<in>p - y. v \<le> expected_latest p y))"
  by (auto simp: expected_latest_def NONE_def VERSIONS_def)

text \<open>Three of the parts determine the rest.\<close>

lemma selection_safety_iff:
  "selection_safety s \<longleftrightarrow> qnt_published s \<subseteq> VERSIONS \<and> qnt_yanked s \<subseteq> qnt_published s \<and>
     advertised_latest s = expected_latest (qnt_published s) (qnt_yanked s)"
  using expected_latest_visible [of "qnt_published s" "qnt_yanked s"]
  by (auto simp: selection_safety_def split: if_splits)

lemmas qnt_actions = qnt_publish_def qnt_yank_def qnt_restore_def qnt_replay_yank_def
  qnt_replay_restore_def

lemma qnt_step_safe: "qnt_step s s' \<Longrightarrow> selection_safety s \<Longrightarrow> selection_safety s'"
  by (induction rule: qnt_step.induct)
    (auto simp: selection_safety_iff qnt_actions split: if_splits)

text \<open>The claim of the model checker, for every state the steps reach.\<close>

lemma qnt_steps_safe: "qnt_step\<^sup>*\<^sup>* s s' \<Longrightarrow> selection_safety s \<Longrightarrow> selection_safety s'"
  by (induction rule: rtranclp_induct) (simp_all add: qnt_step_safe)

lemma qnt_init_safe: "selection_safety qnt_init"
  by (simp add: selection_safety_iff qnt_init_def expected_latest_def)

text \<open>The scenarios a simulation has to reach are all reached, by one run.\<close>

definition all_yanked_reached :: "selection_state \<Rightarrow> bool" where
  "all_yanked_reached s \<longleftrightarrow>
     card (qnt_published s) > 0 \<and> qnt_yanked s = qnt_published s \<and> advertised_latest s = NONE"

primrec run_actions :: "('s \<Rightarrow> 's option) list \<Rightarrow> 's \<Rightarrow> 's option" where
  "run_actions [] s = Some s"
| "run_actions (a # as) s = (case a s of None \<Rightarrow> None | Some s' \<Rightarrow> run_actions as s')"

lemma run_actions_steps:
  "\<forall>a\<in>set as. \<forall>s s'. a s = Some s' \<longrightarrow> R s s' \<Longrightarrow> run_actions as s = Some s' \<Longrightarrow> R\<^sup>*\<^sup>* s s'"
proof (induction as arbitrary: s)
  case (Cons a as)
  then obtain s1 where s1: "a s = Some s1" "run_actions as s1 = Some s'" by (auto split: option.splits)
  have "R\<^sup>*\<^sup>* s1 s'" using Cons.IH [OF _ s1(2)] Cons.prems(1) by simp
  moreover have "R s s1" using Cons.prems(1) s1(1) by simp
  ultimately show ?case by (rule converse_rtranclp_into_rtranclp [rotated])
qed simp

lemma qnt_scenarios_reached:
  "\<exists>s. qnt_step\<^sup>*\<^sup>* qnt_init s \<and> saw_out_of_order_publish s \<and> saw_yank_latest s \<and>
     saw_restore_newer s \<and> saw_idempotent_replay s \<and> all_yanked_reached s"
proof -
  let ?as = "[qnt_publish 2, qnt_publish 1, qnt_yank 2, qnt_replay_yank 2, qnt_restore 2, qnt_yank 2, qnt_yank 1]"
  obtain s where s: "run_actions ?as qnt_init = Some s" "saw_out_of_order_publish s" "saw_yank_latest s"
      "saw_restore_newer s" "saw_idempotent_replay s" "all_yanked_reached s"
    by (simp add: qnt_actions qnt_init_def VERSIONS_def NONE_def expected_latest_def all_yanked_reached_def
        insert_commute)
  have "qnt_step\<^sup>*\<^sup>* qnt_init s"
    by (rule run_actions_steps [OF _ s(1)]) (auto intro: qnt_step.intros simp: VERSIONS_def)
  with s(2-6) show ?thesis by blast
qed

section \<open>The server refines it\<close>

definition package_versions :: "uuid \<Rightarrow> database \<Rightarrow> version_row list" where
  "package_versions p d = filter (\<lambda>r. v_package r = p) (versions d)"

text \<open>\<open>ver\<close> names the three versions; \<open>older\<close> ones come later in the order of \<open>sort_desc\<close>.\<close>

definition three_versions :: "(string \<Rightarrow> string \<Rightarrow> bool) \<Rightarrow> (int \<Rightarrow> string) \<Rightarrow> bool" where
  "three_versions newer ver \<longleftrightarrow>
     ver 1 \<noteq> ver 2 \<and> ver 1 \<noteq> ver 3 \<and> ver 2 \<noteq> ver 3 \<and>
     newer (ver 3) (ver 2) \<and> newer (ver 3) (ver 1) \<and> newer (ver 2) (ver 1)"

definition confined :: "(int \<Rightarrow> string) \<Rightarrow> uuid \<Rightarrow> database \<Rightarrow> bool" where
  "confined ver p d \<longleftrightarrow> v_version ` set (package_versions p d) \<subseteq> ver ` VERSIONS"

definition published_in :: "(int \<Rightarrow> string) \<Rightarrow> uuid \<Rightarrow> database \<Rightarrow> int set" where
  "published_in ver p d = {i \<in> VERSIONS. \<exists>r\<in>set (package_versions p d). v_version r = ver i}"

definition yanked_in :: "(int \<Rightarrow> string) \<Rightarrow> uuid \<Rightarrow> database \<Rightarrow> int set" where
  "yanked_in ver p d = {i \<in> VERSIONS. \<exists>r\<in>set (package_versions p d). v_version r = ver i \<and> v_yanked r}"

text \<open>
  The database \<open>d\<close> shows the model's state for package \<open>p\<close>: its rows, its flags, and the version
  the endpoints answer as latest.
\<close>

definition shows_state :: "externals \<Rightarrow> (int \<Rightarrow> string) \<Rightarrow> uuid \<Rightarrow> database \<Rightarrow> selection_state \<Rightarrow> bool" where
  "shows_state E ver p d s \<longleftrightarrow>
     qnt_published s = published_in ver p d \<and> qnt_yanked s = yanked_in ver p d \<and>
     latest_visible_version E (versions_of E p d) =
       (if advertised_latest s = NONE then None else Some (ver (advertised_latest s)))"

lemma three_versions_inj:
  assumes "three_versions newer ver" "i \<in> VERSIONS" "j \<in> VERSIONS"
  shows "ver i = ver j \<longleftrightarrow> i = j"
  using assms by (auto simp: three_versions_def VERSIONS_def)

lemma three_versions_newer:
  assumes "three_versions newer ver" "i \<in> VERSIONS" "j \<in> VERSIONS" "i < j"
  shows "newer (ver j) (ver i)"
  using assms by (auto simp: three_versions_def VERSIONS_def)

lemma package_version_unique:
  assumes "db_ok d" "q \<in> set (package_versions p d)" "r \<in> set (package_versions p d)" "v_version q = v_version r"
  shows "q = r"
  using db_okD(4) [OF assms(1)] assms(2-4)
  by (auto simp: package_versions_def version_key_def dest: distinct_map_unique)

lemma visible_in:
  assumes "db_ok d"
  shows "i \<in> published_in ver p d - yanked_in ver p d \<longleftrightarrow>
     i \<in> VERSIONS \<and> (\<exists>r\<in>set (package_versions p d). v_version r = ver i \<and> \<not> v_yanked r)"
proof -
  have "\<not> (\<exists>q\<in>set (package_versions p d). v_version q = ver i \<and> v_yanked q)"
    if "r \<in> set (package_versions p d)" "v_version r = ver i" "\<not> v_yanked r" for r
    using that package_version_unique [OF assms, of _ p r] by metis
  then show ?thesis unfolding published_in_def yanked_in_def by blast
qed

lemma latest_shown:
  assumes ok: "db_ok d" and so: "sorts_versions E newer" and sc: "scans_ok E"
    and three: "three_versions newer ver" and conf: "confined ver p d"
  shows "latest_visible_version E (versions_of E p d) =
    (let i = expected_latest (published_in ver p d) (yanked_in ver p d)
     in if i = NONE then None else Some (ver i))"
proof -
  let ?R = "published_in ver p d" and ?Y = "yanked_in ver p d"
  let ?e = "expected_latest ?R ?Y"
  have rows: "set (versions_of E p d) = set (package_versions p d)"
    by (simp add: versions_of_def package_versions_def scans_ok_sets(2) [OF sc])
  note e = expected_latest_visible [of ?R ?Y]
  have R: "?R \<subseteq> VERSIONS" by (auto simp: published_in_def)
  show ?thesis
  proof (cases "latest_visible_version E (versions_of E p d)")
    case None
    then have "\<forall>r\<in>set (package_versions p d). v_yanked r"
      using latest_visible_None [OF so] rows by metis
    then have "?R - ?Y = {}" using visible_in [OF ok] by blast
    with e R have "?e = NONE" by (auto split: if_splits)
    with None show ?thesis by simp
  next
    case (Some v)
    note latest = latest_visible_Some [OF so Some, unfolded rows]
    from latest(1) obtain r where r: "r \<in> set (package_versions p d)" "\<not> v_yanked r" "v_version r = v" by blast
    with conf obtain i where i: "i \<in> VERSIONS" "v = ver i" unfolding confined_def by blast
    then have vis: "i \<in> ?R - ?Y" using r visible_in [OF ok] by blast
    with e R have top: "?e \<noteq> NONE" "?e \<in> ?R - ?Y" "i \<le> ?e" by (auto split: if_splits)
    then obtain q where q: "?e \<in> VERSIONS" "q \<in> set (package_versions p d)" "v_version q = ver ?e" "\<not> v_yanked q"
      using visible_in [OF ok] by blast
    have "i = ?e"
    proof (rule ccontr)
      assume "i \<noteq> ?e"
      with top(3) have up: "newer (ver ?e) v" using three_versions_newer [OF three i(1) q(1)] i(2) by simp
      have "v_version q \<noteq> v"
        using three_versions_inj [OF three q(1) i(1)] q(3) i(2) \<open>i \<noteq> ?e\<close> by simp
      with latest(2) [OF q(2,4)] q(3) up so have "v = v_version q" unfolding sorts_versions_def by metis
      with \<open>v_version q \<noteq> v\<close> show False by simp
    qed
    with Some i top show ?thesis by simp
  qed
qed

lemma shows_state_cong:
  "package_versions p d' = package_versions p d \<Longrightarrow> shows_state E ver p d' q = shows_state E ver p d q"
  by (simp add: shows_state_def published_in_def yanked_in_def versions_of_def package_versions_def)

lemma shows_state_expected:
  assumes "db_ok d" "sorts_versions E newer" "scans_ok E" "three_versions newer ver" "confined ver p d"
    and "qnt_published q = published_in ver p d" "qnt_yanked q = yanked_in ver p d"
    and "advertised_latest q = expected_latest (qnt_published q) (qnt_yanked q)"
  shows "shows_state E ver p d q"
  using latest_shown [OF assms(1-5)] assms(6-8) by (simp add: shows_state_def Let_def)

lemma flagged_rows:
  "package_versions p (update_version i (\<lambda>x. x\<lparr>v_yanked := y\<rparr>) d) =
     map_where (\<lambda>x. v_id x = i) (\<lambda>x. x\<lparr>v_yanked := y\<rparr>) (package_versions p d)"
  by (simp add: update_version_def package_versions_def map_where_filter)

lemma flagged_versions:
  assumes "db_ok d" "r \<in> set (package_versions p d)"
  shows "package_versions p (update_version (v_id r) (\<lambda>x. x\<lparr>v_yanked := y\<rparr>) d) =
    set_yanked (v_version r) y (package_versions p d)"
proof -
  have "v_id x = v_id r \<longleftrightarrow> v_version x = v_version r" if "x \<in> set (package_versions p d)" for x
    using that assms(2) package_version_unique [OF assms(1) that assms(2)] db_okD(9) [OF assms(1)]
    by (auto simp: package_versions_def dest: distinct_map_unique)
  then show ?thesis unfolding flagged_rows set_yanked_def map_where_def by (intro map_cong) auto
qed

lemma flag_unchanged:
  assumes "\<And>r. r \<in> set (package_versions p d) \<Longrightarrow> v_id r = i \<Longrightarrow> v_yanked r = y"
  shows "package_versions p (update_version i (\<lambda>x. x\<lparr>v_yanked := y\<rparr>) d) = package_versions p d"
  unfolding flagged_rows map_where_def
proof (rule map_idI)
  fix r assume "r \<in> set (package_versions p d)"
  with assms [of r] show "(if v_id r = i then r\<lparr>v_yanked := y\<rparr> else r) = r" by auto
qed

lemma set_yanked_flagged:
  assumes "\<exists>r\<in>set rows. v_version r = v"
  shows "(\<exists>r\<in>set (set_yanked v y rows). v_version r = u \<and> v_yanked r) \<longleftrightarrow>
     (if u = v then y else \<exists>r\<in>set rows. v_version r = u \<and> v_yanked r)"
proof (cases "u = v")
  case True
  have "(\<exists>r\<in>set (set_yanked v y rows). v_version r = v \<and> v_yanked r) \<longleftrightarrow> y \<and> (\<exists>r\<in>set rows. v_version r = v)"
    by (induction rows) (auto simp: set_yanked_def map_where_def)
  with assms True show ?thesis by simp
next
  case False
  then show ?thesis by (induction rows) (simp_all add: set_yanked_def map_where_def)
qed

lemma set_yanked_names: "v_version ` set (set_yanked v y rows) = v_version ` set rows"
  by (induction rows) (simp_all add: set_yanked_def map_where_def)

lemma flagged_shown:
  fixes i :: uuid and y :: bool
  assumes ok: "db_ok d" and so: "sorts_versions E newer" and sc: "scans_ok E"
    and three: "three_versions newer ver" and conf: "confined ver p d"
    and shown: "shows_state E ver p d q"
  defines "d' \<equiv> update_version i (\<lambda>x. x\<lparr>v_yanked := y\<rparr>) d"
  shows "\<exists>q'. qnt_step q q' \<and> shows_state E ver p d' q'"
proof (cases "\<exists>r\<in>set (package_versions p d). v_id r = i \<and> v_yanked r \<noteq> y")
  case False
  then have "package_versions p d' = package_versions p d"
    unfolding d'_def by (intro flag_unchanged) blast
  from iffD2 [OF shows_state_cong [OF this] shown] show ?thesis using qnt_step.Idle by blast
next
  case True
  then obtain r where r: "r \<in> set (package_versions p d)" "v_id r = i" "v_yanked r \<noteq> y" by blast
  with conf obtain k where k: "k \<in> VERSIONS" "v_version r = ver k" unfolding confined_def by blast
  have rows: "package_versions p d' = set_yanked (ver k) y (package_versions p d)"
    using flagged_versions [OF ok r(1), of y] r(2) k(2) by (simp add: d'_def)
  have some: "\<exists>x\<in>set (package_versions p d). v_version x = ver k" using r(1) k(2) by blast
  note sets = set_yanked_flagged [OF some, of y] set_yanked_names [of "ver k" y "package_versions p d"]
  have "published_in ver p x = {i \<in> VERSIONS. ver i \<in> v_version ` set (package_versions p x)}" for x
    unfolding published_in_def by (intro Collect_cong conj_cong refl) (auto simp: image_iff Bex_def dest: sym)
  then have R: "published_in ver p d' = published_in ver p d" by (simp only: rows sets(2))
  have Y: "yanked_in ver p d' = (if y then yanked_in ver p d \<union> {k} else yanked_in ver p d - {k})"
    unfolding yanked_in_def rows sets(1) using three_versions_inj [OF three _ k(1)] k(1) by auto
  have ok': "db_ok d'" using changed_ok(2) [OF ok] by (simp add: d'_def)
  have conf': "confined ver p d'" using conf sets(2) by (simp add: confined_def rows)
  have kR: "k \<in> published_in ver p d" using k some by (simp add: published_in_def)
  have kY: "k \<in> yanked_in ver p d \<longleftrightarrow> \<not> y"
  proof -
    have "(\<exists>x\<in>set (package_versions p d). v_version x = ver k \<and> v_yanked x) \<longleftrightarrow> v_yanked r"
      using r(1) k(2) package_version_unique [OF ok _ r(1)] by metis
    with r(3) k(1) show ?thesis by (auto simp: yanked_in_def)
  qed
  note expected = shows_state_expected [OF ok' so sc three conf']
  show ?thesis
  proof (cases y)
    case True
    then obtain q' where q': "qnt_yank k q = Some q'" "q' = q\<lparr>qnt_yanked := qnt_yanked q \<union> {k},
        advertised_latest := expected_latest (qnt_published q) (qnt_yanked q \<union> {k}),
        saw_yank_latest := saw_yank_latest q \<or> advertised_latest q = k\<rparr>"
      using kR kY shown by (simp add: qnt_yank_def shows_state_def)
    have "shows_state E ver p d' q'" by (rule expected) (use q'(2) R Y True shown in \<open>simp_all add: shows_state_def\<close>)
    with qnt_step.Yank [OF k(1) q'(1)] show ?thesis by blast
  next
    case False
    then obtain q' where q': "qnt_restore k q = Some q'" "q' = q\<lparr>qnt_yanked := qnt_yanked q - {k},
        advertised_latest := expected_latest (qnt_published q) (qnt_yanked q - {k}),
        saw_restore_newer := saw_restore_newer q \<or> k > advertised_latest q\<rparr>"
      using kY shown by (simp add: qnt_restore_def shows_state_def)
    have "shows_state E ver p d' q'" by (rule expected) (use q'(2) R Y False shown in \<open>simp_all add: shows_state_def\<close>)
    with qnt_step.Restore [OF k(1) q'(1)] show ?thesis by blast
  qed
qed

lemma released_shown:
  assumes ok: "db_ok d" and so: "sorts_versions E newer" and sc: "scans_ok E"
    and three: "three_versions newer ver" and conf: "confined ver p d'"
    and shown: "shows_state E ver p d q" and up: "upsert_package_row r d = Inr d1"
    and ins: "insert_version row d1 = Inr d'" and new: "\<not> v_yanked row"
  shows "\<exists>q'. qnt_step q q' \<and> shows_state E ver p d' q'"
proof -
  have ok': "db_ok d'" by (rule insert_version_ok [OF upsert_package_row_ok [OF ok up] ins])
  have vs: "versions d' = versions d @ [row]" "version_key row \<notin> version_key ` set (versions d)"
    using ins upsert_package_row_frame [OF up] by (auto simp: insert_version_Inr)
  show ?thesis
  proof (cases "v_package row = p")
    case False
    then have "package_versions p d' = package_versions p d" by (simp add: package_versions_def vs(1))
    from iffD2 [OF shows_state_cong [OF this] shown] show ?thesis using qnt_step.Idle by blast
  next
    case True
    then have rows: "package_versions p d' = package_versions p d @ [row]"
      by (simp add: package_versions_def vs(1))
    with conf obtain k where k: "k \<in> VERSIONS" "v_version row = ver k" unfolding confined_def by auto
    have none: "v_version x \<noteq> ver k" if "x \<in> set (package_versions p d)" for x
      using that vs(2) True k(2) by (auto simp: package_versions_def version_key_def image_iff)
    have R: "published_in ver p d' = published_in ver p d \<union> {k}"
      unfolding published_in_def rows using k three_versions_inj [OF three k(1)] by auto
    have Y: "yanked_in ver p d' = yanked_in ver p d"
      unfolding yanked_in_def rows using new by auto
    have "k \<notin> published_in ver p d" using none by (auto simp: published_in_def)
    then obtain q' where q': "qnt_publish k q = Some q'" "q' = q\<lparr>qnt_published := qnt_published q \<union> {k},
        advertised_latest := expected_latest (qnt_published q \<union> {k}) (qnt_yanked q),
        saw_out_of_order_publish := saw_out_of_order_publish q \<or> advertised_latest q > k\<rparr>"
      using k(1) shown by (simp add: qnt_publish_def shows_state_def)
    have "shows_state E ver p d' q'"
      by (rule shows_state_expected [OF ok' so sc three conf])
        (use q'(2) R Y shown in \<open>simp_all add: shows_state_def\<close>)
    with qnt_step.Publish [OF k(1) q'(1)] show ?thesis by blast
  qed
qed

text \<open>
  Along a run rows stay, all but their flag, so what holds of all rows at its end held before; a
  simulation of every move under such a condition is a simulation of the run.
\<close>

lemma commits_extend: "commits E whole x y \<Longrightarrow> extends (versions (fst x)) (fst y)"
  by (erule history.commits_keep) simp

lemma extended_row:
  assumes "extends (versions d) d'" "r \<in> set (versions d)"
  obtains r' where "r' \<in> set (versions d')" "v_package r' = v_package r" "v_version r' = v_version r"
    "v_sha256 r' = v_sha256 r" "v_format r' = v_format r"
proof -
  have "frozen r \<in> set (map frozen (versions d'))"
    using assms set_mono_prefix unfolding extends_def by fastforce
  then obtain r' where r': "r' \<in> set (versions d')" "frozen r' = frozen r" by auto
  from frozen_eq [OF r'(2)] have "v_package r' = v_package r" "v_version r' = v_version r"
    "v_sha256 r' = v_sha256 r" "v_format r' = v_format r"
    by (metis version_row.ext_inject version_row.surjective version_row.update_convs(10))+
  with r'(1) that show thesis by blast
qed

lemma commits_simulate:
  assumes "commits E whole x y" "db_ok (fst x)" "P (fst y)" "R x q"
    and earlier: "\<And>d d'. extends (versions d) d' \<Longrightarrow> P d' \<Longrightarrow> P d"
    and simulate: "\<And>x y q. commit E whole x y \<Longrightarrow> db_ok (fst x) \<Longrightarrow> P (fst y) \<Longrightarrow> R x q \<Longrightarrow> \<exists>q'. T q q' \<and> R y q'"
  shows "\<exists>q'. T\<^sup>*\<^sup>* q q' \<and> R y q'"
  using assms(1-4)
proof (induction rule: rtranclp_induct)
  case (step y z)
  have "P (fst y)" using earlier [OF commits_extend [OF r_into_rtranclp [of "commit E whole", OF step.hyps(2)]]] step.prems(2) .
  with step.IH step.prems obtain q1 where q1: "T\<^sup>*\<^sup>* q q1" "R y q1" by blast
  have "db_ok (fst y)" by (rule commits_db_ok [OF step.hyps(1) step.prems(1)])
  from simulate [OF step.hyps(2) this step.prems(2) q1(2)] q1(1) show ?case
    by (meson rtranclp.rtrancl_into_rtrancl)
qed blast

lemma confined_earlier:
  assumes "extends (versions d) d'" "confined ver p d'"
  shows "confined ver p d"
proof -
  have "v_version r \<in> v_version ` set (package_versions p d')" if r: "r \<in> set (package_versions p d)" for r
  proof -
    from r have "r \<in> set (versions d)" by (simp add: package_versions_def)
    from extended_row [OF assms(1) this] obtain r' where
      "r' \<in> set (versions d')" "v_package r' = v_package r" "v_version r' = v_version r"
      "v_sha256 r' = v_sha256 r" "v_format r' = v_format r" .
    with r show ?thesis by (intro image_eqI [of _ _ r']) (simp_all add: package_versions_def)
  qed
  with assms(2) show ?thesis unfolding confined_def by blast
qed

lemma commit_on_versions:
  assumes "commit E whole (d, s) (d', s')"
  obtains (Same) "versions d' = versions d"
  | (Flag) i y where "d' = update_version i (\<lambda>x. x\<lparr>v_yanked := y\<rparr>) d"
  | (Release) r d1 row where "upsert_package_row r d = Inr d1" "insert_version row d1 = Inr d'"
      "\<not> v_yanked row"
  using assms
  by cases (auto simp: insert_token_Inr insert_org_Inr insert_audit_Inr update_token_def)

lemma commit_shown:
  assumes "commit E whole (d, s) (d', s')" and ok: "db_ok d" and order: "sorts_versions E newer" "scans_ok E"
    "three_versions newer ver" and conf: "confined ver p d'" and shown: "shows_state E ver p d q"
  shows "\<exists>q'. qnt_step q q' \<and> shows_state E ver p d' q'"
proof -
  have before: "confined ver p d"
    using confined_earlier [OF _ conf] commits_extend [OF r_into_rtranclp [of "commit E whole", OF assms(1)]] by simp
  from assms(1) show ?thesis
  proof (cases rule: commit_on_versions)
    case Same
    then have "package_versions p d' = package_versions p d" by (simp add: package_versions_def)
    from iffD2 [OF shows_state_cong [OF this] shown] show ?thesis using qnt_step.Idle by blast
  next
    case (Flag i y)
    with flagged_shown [OF ok order before shown] show ?thesis by simp
  next
    case Release
    with released_shown [OF ok order conf shown] show ?thesis by blast
  qed
qed

lemma commits_shown:
  assumes "commits E whole x y" "db_ok (fst x)" and order: "sorts_versions E newer" "scans_ok E"
    "three_versions newer ver" and "confined ver p (fst y)" "shows_state E ver p (fst x) q"
  shows "\<exists>q'. qnt_step\<^sup>*\<^sup>* q q' \<and> shows_state E ver p (fst y) q'"
proof (rule commits_simulate [where P = "confined ver p" and R = "\<lambda>x. shows_state E ver p (fst x)",
      OF assms(1,2,6,7)])
  show "\<exists>q'. qnt_step q q' \<and> shows_state E ver p (fst y) q'"
    if "commit E whole x y" "db_ok (fst x)" "confined ver p (fst y)" "shows_state E ver p (fst x) q" for x y q
    using that commit_shown [OF _ _ order] by (cases x, cases y) simp
qed (rule confined_earlier)

text \<open>A package without versions, as the first publish finds it, shows the initial state.\<close>

lemma fresh_package_shown:
  assumes "sorts_versions E newer" "scans_ok E" "package_versions p d = []"
  shows "shows_state E ver p d qnt_init"
proof -
  have "set (versions_of E p d) = {}"
    using assms(3) by (simp only: versions_of_def package_versions_def scans_ok_sets(2) [OF assms(2)] list.set)
  then have "latest_visible_version E (versions_of E p d) = None"
    by (simp add: latest_visible_None [OF assms(1)])
  then show ?thesis using assms(3) by (simp add: shows_state_def qnt_init_def published_in_def yanked_in_def)
qed

end
