(* ===== verification/Publication_Model.thy ===== *)
theory Publication_Model
  imports Latest_Model
begin

text \<open>
  \<open>formal/package_publication.qnt\<close>: the repository's own model of two requests that race to publish
  one version, with uploads before the metadata transaction, crashes and failed transactions after
  an upload, and rejected requests. Its invariant is proved here for every state it reaches, and
  the abstract machine of \<open>Commits\<close>, which the server refines, is shown to refine it.
\<close>

section \<open>The model\<close>

datatype AttemptPhase = Idle | Uploaded | Finished

definition DIGEST_A :: int where
  "DIGEST_A = 1"

definition DIGESTS :: "int set" where
  "DIGESTS = {1, 2}"

record publication_state =
  attempt_a :: AttemptPhase
  attempt_b :: AttemptPhase
  digest_b :: int
  blobs :: "int set"
  committed_digest :: int
  advertised_digest :: int
  metadata_digest :: int
  commit_count :: int
  unauthorized_effects :: int
  saw_crash_after_upload :: bool
  saw_conflict :: bool
  saw_abort_after_upload :: bool
  saw_unauthorized_rejection :: bool

definition race_init :: "int \<Rightarrow> publication_state" where
  "race_init digest = \<lparr>attempt_a = Idle, attempt_b = Idle, digest_b = digest, blobs = {},
     committed_digest = NONE, advertised_digest = NONE, metadata_digest = NONE, commit_count = 0,
     unauthorized_effects = 0, saw_crash_after_upload = False, saw_conflict = False,
     saw_abort_after_upload = False, saw_unauthorized_rejection = False\<rparr>"

text \<open>An action is disabled (\<open>None\<close>) where one of the conditions of its \<open>all\<close> block fails.\<close>

definition upload_a :: "publication_state \<Rightarrow> publication_state option" where
  "upload_a s =
     (if attempt_a s = Idle
      then Some (s\<lparr>attempt_a := Uploaded, blobs := blobs s \<union> {DIGEST_A}\<rparr>) else None)"

definition upload_b :: "publication_state \<Rightarrow> publication_state option" where
  "upload_b s =
     (if attempt_b s = Idle
      then Some (s\<lparr>attempt_b := Uploaded, blobs := blobs s \<union> {digest_b s}\<rparr>) else None)"

definition finalize_a :: "publication_state \<Rightarrow> publication_state option" where
  "finalize_a s =
     (if attempt_a s = Uploaded \<and> committed_digest s = NONE \<and> DIGEST_A \<in> blobs s
      then Some (s\<lparr>attempt_a := Finished, committed_digest := DIGEST_A,
        advertised_digest := DIGEST_A, metadata_digest := DIGEST_A,
        commit_count := commit_count s + 1\<rparr>)
      else None)"

definition finalize_b :: "publication_state \<Rightarrow> publication_state option" where
  "finalize_b s =
     (if attempt_b s = Uploaded \<and> committed_digest s = NONE \<and> digest_b s \<in> blobs s
      then Some (s\<lparr>attempt_b := Finished, committed_digest := digest_b s,
        advertised_digest := digest_b s, metadata_digest := digest_b s,
        commit_count := commit_count s + 1\<rparr>)
      else None)"

definition conflict_a :: "publication_state \<Rightarrow> publication_state option" where
  "conflict_a s =
     (if attempt_a s = Uploaded \<and> committed_digest s \<noteq> NONE
      then Some (s\<lparr>attempt_a := Finished, saw_conflict := True\<rparr>) else None)"

definition conflict_b :: "publication_state \<Rightarrow> publication_state option" where
  "conflict_b s =
     (if attempt_b s = Uploaded \<and> committed_digest s \<noteq> NONE
      then Some (s\<lparr>attempt_b := Finished, saw_conflict := True\<rparr>) else None)"

definition crash_a :: "publication_state \<Rightarrow> publication_state option" where
  "crash_a s =
     (if attempt_a s = Uploaded
      then Some (s\<lparr>attempt_a := Finished, saw_crash_after_upload := True\<rparr>) else None)"

definition abort_b :: "publication_state \<Rightarrow> publication_state option" where
  "abort_b s =
     (if attempt_b s = Uploaded
      then Some (s\<lparr>attempt_b := Finished, saw_abort_after_upload := True\<rparr>) else None)"

definition reject_unauthorized :: "publication_state \<Rightarrow> publication_state option" where
  "reject_unauthorized s = Some (s\<lparr>saw_unauthorized_rejection := True\<rparr>)"

definition race_actions :: "(publication_state \<Rightarrow> publication_state option) list" where
  "race_actions = [upload_a, upload_b, finalize_a, finalize_b, conflict_a, conflict_b, crash_a, abort_b,
     reject_unauthorized, Some]"

text \<open>The last action is \<open>idle\<close>.\<close>

inductive race_step :: "publication_state \<Rightarrow> publication_state \<Rightarrow> bool" where
  Step: "a \<in> set race_actions \<Longrightarrow> a s = Some s' \<Longrightarrow> race_step s s'"

text \<open>The six parts of \<open>publication_safety\<close>.\<close>

definition publication_safety :: "publication_state \<Rightarrow> bool" where
  "publication_safety s \<longleftrightarrow>
     (digest_b s \<in> DIGESTS \<and> (committed_digest s = NONE \<or> committed_digest s \<in> DIGESTS) \<and>
       (\<forall>digest\<in>blobs s. digest \<in> DIGESTS)) \<and>
     (commit_count s = 0 \<and> committed_digest s = NONE \<or>
       commit_count s = 1 \<and> committed_digest s \<in> DIGESTS) \<and>
     advertised_digest s = committed_digest s \<and>
     metadata_digest s = committed_digest s \<and>
     (committed_digest s = NONE \<or> committed_digest s \<in> blobs s) \<and>
     unauthorized_effects s = 0"

section \<open>Its invariant\<close>

lemmas race_defs = upload_a_def upload_b_def finalize_a_def finalize_b_def conflict_a_def conflict_b_def
  crash_a_def abort_b_def reject_unauthorized_def

lemma publication_safety_iff:
  "publication_safety s \<longleftrightarrow> digest_b s \<in> DIGESTS \<and> blobs s \<subseteq> DIGESTS \<and>
     committed_digest s \<in> insert NONE (blobs s) \<and>
     commit_count s = (if committed_digest s = NONE then 0 else 1) \<and>
     advertised_digest s = committed_digest s \<and> metadata_digest s = committed_digest s \<and>
     unauthorized_effects s = 0"
proof -
  have "NONE \<notin> DIGESTS" by (simp add: DIGESTS_def NONE_def)
  then show ?thesis unfolding publication_safety_def by (cases "committed_digest s = NONE") auto
qed

lemma race_step_cases:
  "race_step s s' \<longleftrightarrow>
     upload_a s = Some s' \<or> upload_b s = Some s' \<or> finalize_a s = Some s' \<or> finalize_b s = Some s' \<or>
     conflict_a s = Some s' \<or> conflict_b s = Some s' \<or> crash_a s = Some s' \<or> abort_b s = Some s' \<or>
     reject_unauthorized s = Some s' \<or> s' = s"
  by (subst race_step.simps) (auto simp: race_actions_def)

lemma race_step_safe:
  assumes "race_step s s'" "publication_safety s"
  shows "publication_safety s'"
proof -
  note inv = assms(2) [unfolded publication_safety_iff]
  then have "DIGEST_A \<in> DIGESTS" "digest_b s \<noteq> NONE" "DIGEST_A \<noteq> NONE"
    by (auto simp: DIGEST_A_def DIGESTS_def NONE_def)
  with assms(1) inv show ?thesis
    unfolding race_step_cases publication_safety_iff
    by (elim disjE) (auto simp: race_defs split: if_splits)
qed

lemma race_steps_safe: "race_step\<^sup>*\<^sup>* s s' \<Longrightarrow> publication_safety s \<Longrightarrow> publication_safety s'"
  by (induction rule: rtranclp_induct) (simp_all add: race_step_safe)

lemma race_init_safe: "digest \<in> DIGESTS \<Longrightarrow> publication_safety (race_init digest)"
  by (simp add: publication_safety_def race_init_def)

text \<open>The scenarios a simulation has to reach are reached.\<close>

definition same_digest_race_reached :: "publication_state \<Rightarrow> bool" where
  "same_digest_race_reached s \<longleftrightarrow>
     digest_b s = DIGEST_A \<and> DIGEST_A \<in> blobs s \<and> (attempt_a s = Uploaded \<or> attempt_b s = Uploaded)"

lemma race_run:
  assumes "\<exists>s. run_actions as i = Some s \<and> P s" "set as \<subseteq> set race_actions"
  shows "\<exists>s. race_step\<^sup>*\<^sup>* i s \<and> P s"
  using assms run_actions_steps [of as race_step i] race_step.Step by blast

lemma race_scenarios_reached:
  "\<exists>s. race_step\<^sup>*\<^sup>* (race_init 2) s \<and> saw_crash_after_upload s \<and> saw_abort_after_upload s \<and>
     saw_unauthorized_rejection s"
  "\<exists>s. race_step\<^sup>*\<^sup>* (race_init 1) s \<and> saw_conflict s"
  "\<exists>s. race_step\<^sup>*\<^sup>* (race_init 1) s \<and> same_digest_race_reached s"
  by (rule race_run [of "[upload_a, crash_a, upload_b, abort_b, reject_unauthorized]"],
      simp_all add: race_defs race_init_def race_actions_def)
    (rule race_run [of "[upload_a, upload_b, finalize_a, conflict_b]"]
        race_run [of "[upload_a, upload_b, finalize_a]"],
      simp_all add: race_defs race_init_def race_actions_def same_digest_race_reached_def DIGEST_A_def NONE_def)+

section \<open>The server refines it\<close>

text \<open>
  \<open>art\<close> gives each of the two digests of the model a digest and a format; \<open>p\<close> and \<open>v\<close> are the
  package and version that are raced for.
\<close>

type_synonym artifact = "string \<times> string"

definition two_artifacts :: "(int \<Rightarrow> artifact) \<Rightarrow> bool" where
  "two_artifacts art \<longleftrightarrow> case_prod artifact_key (art 1) \<noteq> case_prod artifact_key (art 2)"

definition artifact_of :: "version_row \<Rightarrow> artifact" where
  "artifact_of r = (v_sha256 r, v_format r)"

definition release_rows :: "uuid \<Rightarrow> string \<Rightarrow> database \<Rightarrow> version_row list" where
  "release_rows p v d = filter (\<lambda>r. v_package r = p \<and> v_version r = v) (versions d)"

definition only_artifacts :: "(int \<Rightarrow> artifact) \<Rightarrow> uuid \<Rightarrow> string \<Rightarrow> database \<Rightarrow> bool" where
  "only_artifacts art p v d \<longleftrightarrow> artifact_of ` set (release_rows p v d) \<subseteq> art ` DIGESTS"

definition blobs_in :: "(int \<Rightarrow> artifact) \<Rightarrow> artifact_store \<Rightarrow> int set" where
  "blobs_in art s = {i \<in> DIGESTS. stored s (case_prod artifact_key (art i)) \<noteq> None}"

fun digest_shown :: "(int \<Rightarrow> artifact) \<Rightarrow> artifact option \<Rightarrow> int \<Rightarrow> bool" where
  "digest_shown art None i \<longleftrightarrow> i = NONE"
| "digest_shown art (Some a) i \<longleftrightarrow> i \<in> DIGESTS \<and> art i = a"

text \<open>
  What of the model's state the shared state shows: the blobs in the store, the committed row, the
  version the artifact endpoints look up, the version among the package's metadata, and the number
  of rows. Phases are not in the shared state: an attempt is idle until its blob is there and is
  not finished as long as nothing is committed, which makes the two attempts the first upload of
  either digest.
\<close>

definition shows_race ::
    "externals \<Rightarrow> (int \<Rightarrow> artifact) \<Rightarrow> uuid \<Rightarrow> string \<Rightarrow> shared \<Rightarrow> publication_state \<Rightarrow> bool" where
  "shows_race E art p v x q \<longleftrightarrow>
     blobs q = blobs_in art (snd x) \<and>
     digest_shown art (map_option artifact_of (find (\<lambda>r. True) (release_rows p v (fst x)))) (committed_digest q) \<and>
     digest_shown art (map_option artifact_of (version_by_name p v (fst x))) (advertised_digest q) \<and>
     digest_shown art
       (map_option artifact_of (find (\<lambda>r. v_version r = v) (versions_of E p (fst x)))) (metadata_digest q) \<and>
     commit_count q = int (length (release_rows p v (fst x))) \<and>
     digest_b q = 2 \<and> (attempt_a q = Idle \<longleftrightarrow> 1 \<notin> blobs q) \<and> (attempt_b q = Idle \<longleftrightarrow> 2 \<notin> blobs q) \<and>
     (committed_digest q = NONE \<longrightarrow> attempt_a q \<noteq> Finished \<and> attempt_b q \<noteq> Finished)"

definition release_artifacts :: "uuid \<Rightarrow> string \<Rightarrow> database \<Rightarrow> artifact list" where
  "release_artifacts p v d = map artifact_of (release_rows p v d)"

text \<open>In an intact database the three look-ups agree, so one of them is enough.\<close>

lemma lookups_agree:
  assumes "db_ok d" "scans_ok E"
  shows "version_by_name p v d = find (\<lambda>r. True) (release_rows p v d)"
    and "find (\<lambda>r. v_version r = v) (versions_of E p d) = find (\<lambda>r. True) (release_rows p v d)"
    and "release_rows p v d = (case version_by_name p v d of None \<Rightarrow> [] | Some r \<Rightarrow> [r])"
proof -
  have unique: "x = r" if "x \<in> set (versions d)" "r \<in> set (versions d)" "v_package x = v_package r"
    "v_version x = v_version r" for x r
    using that db_okD(4) [OF assms(1)] by (auto simp: version_key_def dest: distinct_map_unique)
  have dist: "distinct (release_rows p v d)"
    using db_okD(4) [OF assms(1)] by (auto simp: release_rows_def distinct_map)
  show rows: "release_rows p v d = (case version_by_name p v d of None \<Rightarrow> [] | Some r \<Rightarrow> [r])"
  proof (cases "version_by_name p v d")
    case None
    then have "release_rows p v d = []"
      by (simp add: release_rows_def version_by_name_def find_None filter_empty_conv)
    with None show ?thesis by simp
  next
    case (Some r)
    then have r: "r \<in> set (versions d)" "v_package r = p" "v_version r = v"
      using version_by_name_iff [OF assms(1)] by blast+
    then have "set (release_rows p v d) = {r}" using unique by (auto simp: release_rows_def)
    with dist Some show ?thesis by (cases "release_rows p v d") (auto simp: subset_singleton_iff)
  qed
  then show "version_by_name p v d = find (\<lambda>r. True) (release_rows p v d)" by (simp split: option.splits)
  have listed: "x \<in> set (versions_of E p d) \<and> v_version x = v \<longleftrightarrow> version_by_name p v d = Some x" for x
    by (auto simp: versions_of_def scans_ok_sets(2) [OF assms(2)] version_by_name_iff [OF assms(1)])
  have "find (\<lambda>r. v_version r = v) (versions_of E p d) = version_by_name p v d"
  proof (cases "find (\<lambda>r. v_version r = v) (versions_of E p d)")
    case None
    then show ?thesis using listed by (cases "version_by_name p v d") (auto simp: find_None)
  next
    case (Some x)
    from find_SomeD [OF this] listed [of x] Some show ?thesis by simp
  qed
  then show "find (\<lambda>r. v_version r = v) (versions_of E p d) = find (\<lambda>r. True) (release_rows p v d)"
    by (simp add: rows split: option.splits)
qed

definition race_view :: "(int \<Rightarrow> artifact) \<Rightarrow> int set \<Rightarrow> artifact list \<Rightarrow> publication_state \<Rightarrow> bool" where
  "race_view art B as q \<longleftrightarrow>
     blobs q = B \<and>
     (\<forall>i\<in>{committed_digest q, advertised_digest q, metadata_digest q}.
        digest_shown art (find (\<lambda>_. True) as) i) \<and>
     commit_count q = int (length as) \<and>
     digest_b q = 2 \<and> (attempt_a q = Idle \<longleftrightarrow> 1 \<notin> B) \<and> (attempt_b q = Idle \<longleftrightarrow> 2 \<notin> B) \<and>
     (committed_digest q = NONE \<longrightarrow> attempt_a q \<noteq> Finished \<and> attempt_b q \<noteq> Finished)"

lemma shows_race_iff:
  assumes "db_ok d" "scans_ok E"
  shows "shows_race E art p v (d, s) q \<longleftrightarrow> race_view art (blobs_in art s) (release_artifacts p v d) q"
proof -
  have first: "map_option artifact_of (find (\<lambda>_. True) (release_rows p v d)) =
      find (\<lambda>_. True) (release_artifacts p v d)"
    by (cases "release_rows p v d") (simp_all add: release_artifacts_def)
  have count: "length (release_rows p v d) = length (release_artifacts p v d)"
    by (simp add: release_artifacts_def)
  show ?thesis
    unfolding shows_race_def race_view_def fst_conv snd_conv lookups_agree(1,2) [OF assms] first count
    by (simp only: ball_simps conj_assoc simp_thms) blast
qed

lemma view_upload:
  assumes "i \<in> DIGESTS" "i \<notin> B" "race_view art B as q"
  shows "\<exists>q'. race_step q q' \<and> race_view art (insert i B) as q'"
proof (cases "i = 1")
  case True
  with assms have "upload_a q = Some (q\<lparr>attempt_a := Uploaded, blobs := blobs q \<union> {DIGEST_A}\<rparr>)"
    by (simp add: upload_a_def race_view_def)
  with True assms show ?thesis
    by (intro exI [of _ "q\<lparr>attempt_a := Uploaded, blobs := blobs q \<union> {DIGEST_A}\<rparr>"])
      (simp add: race_step_cases race_view_def DIGEST_A_def)
next
  case False
  with assms have i: "i = 2" "upload_b q = Some (q\<lparr>attempt_b := Uploaded, blobs := blobs q \<union> {2}\<rparr>)"
    by (auto simp: upload_b_def race_view_def DIGESTS_def)
  with assms show ?thesis
    by (intro exI [of _ "q\<lparr>attempt_b := Uploaded, blobs := blobs q \<union> {2}\<rparr>"])
      (simp add: race_step_cases race_view_def)
qed

lemma view_release:
  assumes "i \<in> DIGESTS" "i \<in> B" "race_view art B [] q"
  shows "\<exists>q'. race_step q q' \<and> race_view art B [art i] q'"
proof -
  let ?q = "q\<lparr>committed_digest := i, advertised_digest := i, metadata_digest := i,
      commit_count := commit_count q + 1\<rparr>"
  have none: "committed_digest q = NONE" using assms(3) by (simp add: race_view_def)
  have "NONE \<noteq> i" using assms(1) by (auto simp: DIGESTS_def NONE_def)
  show ?thesis
  proof (cases "i = 1")
    case True
    with assms none have "attempt_a q = Uploaded"
      by (cases "attempt_a q") (simp_all add: race_view_def)
    with True assms none have "finalize_a q = Some (?q\<lparr>attempt_a := Finished\<rparr>)"
      by (simp add: finalize_a_def race_view_def DIGEST_A_def)
    with True assms \<open>NONE \<noteq> i\<close> show ?thesis
      by (intro exI [of _ "?q\<lparr>attempt_a := Finished\<rparr>"]) (simp add: race_step_cases race_view_def)
  next
    case False
    with assms(1) have i: "i = 2" by (simp add: DIGESTS_def)
    with assms none have "attempt_b q = Uploaded"
      by (cases "attempt_b q") (simp_all add: race_view_def)
    with i assms none have "finalize_b q = Some (?q\<lparr>attempt_b := Finished\<rparr>)"
      by (simp add: finalize_b_def race_view_def)
    with i assms \<open>NONE \<noteq> i\<close> show ?thesis
      by (intro exI [of _ "?q\<lparr>attempt_b := Finished\<rparr>"]) (simp add: race_step_cases race_view_def)
  qed
qed

text \<open>What a move of the machine does to the two artifacts and the release.\<close>

lemma two_artifacts_inj:
  assumes "two_artifacts art" "i \<in> DIGESTS" "j \<in> DIGESTS"
  shows "case_prod artifact_key (art i) = case_prod artifact_key (art j) \<longleftrightarrow> i = j"
  using assms by (auto simp: two_artifacts_def DIGESTS_def)

lemma upload_blobs:
  assumes two: "two_artifacts art" and put: "store_put io (artifact_key sha ext) bs s = (r, s')"
  obtains "blobs_in art s' = blobs_in art s"
  | i where "i \<in> DIGESTS" "i \<notin> blobs_in art s" "blobs_in art s' = insert i (blobs_in art s)"
proof -
  let ?key = "\<lambda>i. case_prod artifact_key (art i)"
  have srv: "server_key (?key i)" for i by (simp split: prod.split)
  have other: "stored s' (?key i) = stored s (?key i)" if "?key i \<noteq> artifact_key sha ext" for i
    using any_store.put_other [OF put _ srv that] by simp
  have keeps: "stored s (?key i) \<noteq> None \<Longrightarrow> stored s' (?key i) \<noteq> None" for i
    using other any_store.put_keeps [OF put] by (cases "?key i = artifact_key sha ext") auto
  show thesis
  proof (cases "\<exists>i\<in>DIGESTS. i \<notin> blobs_in art s \<and> i \<in> blobs_in art s'")
    case True
    then obtain i where i: "i \<in> DIGESTS" "i \<notin> blobs_in art s" "i \<in> blobs_in art s'" by blast
    have "?key i = artifact_key sha ext"
    proof (rule ccontr)
      assume "?key i \<noteq> artifact_key sha ext"
      from other [OF this] i show False by (simp add: blobs_in_def)
    qed
    then have same: "stored s' (?key j) = stored s (?key j)" if "j \<in> DIGESTS" "j \<noteq> i" for j
      using other [of j] two_artifacts_inj [OF two that(1) i(1)] that(2) by simp
    have "j \<in> blobs_in art s' \<longleftrightarrow> j = i \<or> j \<in> blobs_in art s" for j
      using i(3) same [of j] by (cases "j = i"; cases "j \<in> DIGESTS") (simp_all add: blobs_in_def)
    with i(1,2) show thesis by (intro that(2)) auto
  next
    case False
    with keeps show thesis by (intro that(1)) (auto simp: blobs_in_def)
  qed
qed

lemma commit_race:
  assumes step: "commit E whole (d, s) (d', s')" and two: "two_artifacts art"
    and only: "only_artifacts art p v d'"
  obtains (Stay) "release_artifacts p v d' = release_artifacts p v d" "blobs_in art s' = blobs_in art s"
  | (Blob) i where "i \<in> DIGESTS" "i \<notin> blobs_in art s" "blobs_in art s' = insert i (blobs_in art s)"
      "release_artifacts p v d' = release_artifacts p v d"
  | (Row) i where "i \<in> DIGESTS" "i \<in> blobs_in art s" "blobs_in art s' = blobs_in art s"
      "release_artifacts p v d = []" "release_artifacts p v d' = [art i]"
  using step
proof cases
  case (Uploaded io bs ext res)
  with upload_blobs [OF two Uploaded(2)] that(1,2) show thesis by metis
next
  case (Flagged i y)
  have "release_rows p v d' = map_where (\<lambda>r. v_id r = i) (\<lambda>r. r\<lparr>v_yanked := y\<rparr>) (release_rows p v d)"
    unfolding Flagged release_rows_def update_version_def by (simp add: map_where_filter)
  then have "release_artifacts p v d' = release_artifacts p v d"
    by (simp add: release_artifacts_def map_where_def artifact_of_def)
  with Flagged that(1) show thesis by simp
next
  case (Released pkg d1 row)
  have vs: "versions d' = versions d @ [row]" "version_key row \<notin> version_key ` set (versions d)"
    using Released(3) upsert_package_row_frame [OF Released(2)] by (auto simp: insert_version_Inr)
  show thesis
  proof (cases "v_package row = p \<and> v_version row = v")
    case False
    then have "release_rows p v d' = release_rows p v d" by (auto simp: release_rows_def vs(1))
    with Released(1) that(1) show thesis by (simp add: release_artifacts_def)
  next
    case True
    then have none: "release_rows p v d = []" and rows: "release_rows p v d' = [row]"
      using vs by (auto simp: release_rows_def version_key_def image_iff filter_empty_conv)
    from only rows obtain i where i: "i \<in> DIGESTS" "artifact_of row = art i"
      by (auto simp: only_artifacts_def)
    then have "i \<in> blobs_in art s"
      using Released(5) by (auto simp: blobs_in_def backed_def held_def artifact_of_def split: prod.splits)
    with i none rows Released(1) show thesis by (intro that(3) [of i]) (simp_all add: release_artifacts_def)
  qed
qed (use that(1) in \<open>auto simp: release_artifacts_def release_rows_def insert_token_Inr insert_org_Inr
      insert_audit_Inr update_token_def\<close>)

lemma commit_race_shown:
  assumes step: "commit E whole (d, s) (d', s')" and ok: "db_ok d" and sc: "scans_ok E"
    and two: "two_artifacts art" and only: "only_artifacts art p v d'"
    and shown: "shows_race E art p v (d, s) q"
  shows "\<exists>q'. race_step q q' \<and> shows_race E art p v (d', s') q'"
proof -
  have ok': "db_ok d'" using commits_db_ok [OF r_into_rtranclp [of "commit E whole", OF step]] ok by simp
  note before = shown [unfolded shows_race_iff [OF ok sc]]
  from step two only have "\<exists>q'. race_step q q' \<and> race_view art (blobs_in art s') (release_artifacts p v d') q'"
  proof (cases rule: commit_race)
    case Stay
    with before have "race_view art (blobs_in art s') (release_artifacts p v d') q" by simp
    then show ?thesis by (auto simp: race_step_cases)
  next
    case (Blob i)
    with view_upload [OF Blob(1,2) before] show ?thesis by simp
  next
    case (Row i)
    with view_release [OF Row(1,2)] before show ?thesis by simp
  qed
  then show ?thesis by (simp only: shows_race_iff [OF ok' sc])
qed

lemma only_artifacts_earlier:
  assumes "extends (versions d) d'" "only_artifacts art p v d'"
  shows "only_artifacts art p v d"
proof -
  have "artifact_of r \<in> artifact_of ` set (release_rows p v d')" if r: "r \<in> set (release_rows p v d)" for r
  proof -
    from r have "r \<in> set (versions d)" by (simp add: release_rows_def)
    from extended_row [OF assms(1) this] obtain r' where
      "r' \<in> set (versions d')" "v_package r' = v_package r" "v_version r' = v_version r"
      "v_sha256 r' = v_sha256 r" "v_format r' = v_format r" .
    with r show ?thesis by (intro image_eqI [of _ _ r']) (simp_all add: release_rows_def artifact_of_def)
  qed
  with assms(2) show ?thesis unfolding only_artifacts_def by blast
qed

lemma commits_race_shown:
  assumes "commits E whole x y" "db_ok (fst x)" "scans_ok E" "two_artifacts art"
    and "only_artifacts art p v (fst y)" "shows_race E art p v x q"
  shows "\<exists>q'. race_step\<^sup>*\<^sup>* q q' \<and> shows_race E art p v y q'"
proof (rule commits_simulate [where P = "only_artifacts art p v" and R = "shows_race E art p v",
      OF assms(1,2,5,6)])
  show "\<exists>q'. race_step q q' \<and> shows_race E art p v y q'"
    if "commit E whole x y" "db_ok (fst x)" "only_artifacts art p v (fst y)" "shows_race E art p v x q" for x y q
    using that commit_race_shown [OF _ _ assms(3,4)] by (cases x, cases y) simp
qed (rule only_artifacts_earlier)

text \<open>Before the first upload of either artifact, the initial state is shown.\<close>

lemma fresh_race_shown:
  assumes "db_ok d" "scans_ok E" "version_by_name p v d = None" "blobs_in art s = {}"
  shows "shows_race E art p v (d, s) (race_init 2)"
  using assms lookups_agree(3) [OF assms(1,2), of p v]
  by (simp add: shows_race_iff release_artifacts_def race_view_def race_init_def)

end
