(* ===== verification/Quota.thy ===== *)
theory Quota
  imports Concurrent
begin

text \<open>
  The limit on the orgs a token may claim. No constraint of the schema says "at most so many rows
  per token", so \<open>claim_org_serialized\<close> counts and inserts under a Postgres advisory lock keyed on
  the token. Here the server of \<open>Concurrent\<close> is refined by that lock: a claim waits for it, holds it
  until its transaction ends, and gives it up when it vanishes. Everything else interleaves as
  before, and the limit holds of every state the server reaches.
\<close>

section \<open>Processes that leave the owners of orgs alone\<close>

text \<open>The tokens that have claimed an org, in the order of the orgs.\<close>

definition claimants :: "database \<Rightarrow> uuid list" where
  "claimants d = concat (map (\<lambda>r. case o_created_by r of None \<Rightarrow> [] | Some i \<Rightarrow> [i]) (orgs d))"

lemma claimed_by_claimants: "claimed_by i d = count_list (claimants d) i"
proof -
  have "length (filter (\<lambda>r. o_created_by r = Some i) os) =
      count_list (concat (map (\<lambda>r. case o_created_by r of None \<Rightarrow> [] | Some i \<Rightarrow> [i]) os)) i" for os
    by (induction os) (auto split: option.split)
  then show ?thesis by (simp add: claimed_by_def claimants_def)
qed

lemma claimants_orgs: "orgs d' = orgs d \<Longrightarrow> claimants d' = claimants d"
  by (simp add: claimants_def)

inductive calm :: "'a proc \<Rightarrow> bool" where
  Done: "calm (Done x)"
| Act: "(\<And>w p w'. f w = (p, w') \<Longrightarrow> claimants (db w') = claimants (db w) \<and> calm p) \<Longrightarrow> calm (Act f)"

inductive_cases calm_ActE: "calm (Act f)"

lemma calm_step: "calm (Act f) \<Longrightarrow> f w = (p, w') \<Longrightarrow> claimants (db w') = claimants (db w) \<and> calm p"
  by (erule calm_ActE) blast

lemma calm_bind: "calm p \<Longrightarrow> (\<And>x. calm (k x)) \<Longrightarrow> calm (bind_proc p k)"
proof (induction rule: calm.induct)
  case (Act f)
  show ?case
    unfolding bind_proc.simps
  proof (rule calm.Act)
    fix w q w' assume "(map_prod (\<lambda>p. bind_proc p k) id \<circ> f) w = (q, w')"
    then obtain p where "f w = (p, w')" "q = bind_proc p k" by (cases "f w") simp
    with Act show "claimants (db w') = claimants (db w) \<and> calm q" by blast
  qed
qed simp

lemma calm_thenP: "calm p \<Longrightarrow> (\<And>x. calm (k x)) \<Longrightarrow> calm (thenP p k)"
  unfolding thenP_def by (rule calm_bind) (auto intro: calm.Done split: sum.split)

abbreviation quiet :: "('e, 'a) io \<Rightarrow> bool" where
  "quiet m \<equiv> \<forall>c. keeps (\<lambda>d. claimants d = c) m"

lemma quietD: "quiet m \<Longrightarrow> m w = (r, w') \<Longrightarrow> claimants (db w') = claimants (db w)"
  using keepsD by blast

lemma quiet_pure: "pure_read m \<Longrightarrow> quiet m"
  by (auto simp: keeps_def pure_read_def)

lemma calm_action:
  "(\<And>w r w'. m w = (r, w') \<Longrightarrow> claimants (db w') = claimants (db w)) \<Longrightarrow> calm (atomic m)"
  unfolding atomic_def
proof (rule calm.Act)
  fix w p w'
  assume "\<And>w r w'. m w = (r, w') \<Longrightarrow> claimants (db w') = claimants (db w)"
    and "(map_prod Done id \<circ> m) w = (p, w')"
  then show "claimants (db w') = claimants (db w) \<and> calm p" by (cases "m w") (auto intro: calm.Done)
qed

lemma calm_atomic: "quiet m \<Longrightarrow> calm (atomic m)"
  by (rule calm_action) (erule (1) quietD)

lemma calm_read: "pure_read m \<Longrightarrow> calm (atomic m)"
  by (rule calm_atomic) (rule quiet_pure)

lemma calm_cases:
  "calm p \<Longrightarrow> calm q \<Longrightarrow> calm (if b then p else q)"
  "calm p \<Longrightarrow> (\<And>x. calm (k x)) \<Longrightarrow> calm (case v of None \<Rightarrow> p | Some x \<Rightarrow> k x)"
  "(\<And>a b. calm (l a b)) \<Longrightarrow> calm (case x of (a, b) \<Rightarrow> l a b)"
  "(\<And>e. calm (m e)) \<Longrightarrow> (\<And>y. calm (n y)) \<Longrightarrow> calm (case r of Inl e \<Rightarrow> m e | Inr y \<Rightarrow> n y)"
  by (auto split: option.splits sum.splits prod.splits)

lemmas calm_intros = calm.Done calm_thenP calm_bind calm_read calm_cases

lemma keeps_and_commit [keeps_intro]: "keeps P m \<Longrightarrow> keeps P (and_commit conv m)"
  by (rule keepsI)
    (auto simp: and_commit_def select_eq split: prod.splits sum.splits option.splits dest: keepsD)

lemma quiet_insert:
  "(\<And>d d'. ins x d = Inr d' \<Longrightarrow> orgs d' = orgs d) \<Longrightarrow> quiet (insert_stmt ins x)"
  by (intro allI keeps_insert) (metis claimants_orgs)

lemma quiet_update: "(\<And>d. orgs (f d) = orgs d) \<Longrightarrow> quiet (update_stmt f)"
  by (intro allI keeps_update) (metis claimants_orgs)

lemma quiet_statements:
  "quiet (insert_stmt insert_audit x)" "quiet (insert_stmt insert_token t)"
  "quiet (insert_stmt insert_version v)" "quiet (insert_stmt upsert_package_row p)"
  "quiet (update_stmt (update_version i fv))" "quiet (update_stmt (update_token j ft))"
proof -
  show "quiet (insert_stmt insert_audit x)" "quiet (insert_stmt insert_token t)"
    "quiet (insert_stmt insert_version v)"
    by (rule quiet_insert, simp add: insert_audit_Inr insert_token_Inr insert_version_Inr)+
  show "quiet (insert_stmt upsert_package_row p)"
    by (rule quiet_insert, drule upsert_package_row_frame) force
  show "quiet (update_stmt (update_version i fv))" "quiet (update_stmt (update_token j ft))"
    by (rule quiet_update, simp add: update_version_def update_token_def)+
qed

lemmas quiet_keeps = quiet_statements [rule_format]

lemma calm_operator: "calm (operator_proc E)"
  unfolding operator_proc_def
  by (intro calm_intros keeps_intro allI calm_atomic [OF quiet_statements(2)])

lemma calm_require: "calm (require_proc E st h)"
  by (simp add: require_proc_def calm_operator calm_read [OF require_token_pure])

lemma calm_append: "calm (append_proc E st org tok act sub det)"
  unfolding append_proc_def
  by (intro calm_intros calm_atomic allI keeps_intro quiet_keeps)

lemma calm_record: "calm (record_proc E st org tok act sub det)"
proof -
  have "calm (record_loop_proc (append_proc E st org tok act sub det) n e)" for n e
    by (induction n arbitrary: e) (auto intro!: calm_bind calm_append calm.Done split: sum.split)
  then show ?thesis by (simp add: record_proc_def)
qed

lemma calm_publish: "calm (publish_proc E st h s n v form)"
  unfolding publish_proc_def publish_writes_proc_def immutable_proc_def find_package_row_def Let_def
    publish_txn_def upsert_package_def record_version_def
  by (intro calm_intros calm_require calm_record calm_atomic allI keeps_intro quiet_keeps)

lemma calm_yank: "calm (yank_proc E st h s n v y)"
  unfolding yank_proc_def find_org_def find_package_def find_version_def
  by (intro calm_intros calm_require calm_record calm_atomic allI keeps_intro quiet_keeps)

lemma quiet_embedding: "quiet (map_err f (embeddings_upsert E p m v c))"
  unfolding embeddings_upsert_def
  by (intro allI keeps_intro quiet_insert [rule_format]) (auto dest!: upsert_embedding_row_frame)

lemma calm_embedding: "calm (embedding_proc E st h s n m v c)"
  unfolding embedding_proc_def find_org_def find_package_def
  by (intro calm_atomic [OF quiet_embedding] calm_thenP calm_require calm_read keeps_intro)

lemma calm_find_or_create: "calm (find_or_create_proc slug)"
proof -
  have "quiet (map_err CliDb (insert_stmt insert_org
      \<lparr>o_id = i, o_slug = slug, o_created_at = now, o_created_by = None\<rparr>))" for i now
    by (intro allI keeps_map_err keeps_insert)
      (auto simp: insert_org_Inr claimants_def)
  then show ?thesis
    unfolding find_or_create_proc_def
    by (intro calm_atomic calm_thenP calm_cases calm_read keeps_intro)
qed

lemma calm_create: "calm (create_proc E st args)"
  unfolding create_proc_def mint_def Let_def
  by (intro calm_thenP calm_cases calm_find_or_create calm_read [OF pure_read_map_err] calm_atomic allI
      keeps_intro quiet_keeps)

lemma calm_revoke: "calm (revoke_proc E st args)"
proof -
  have "calm (revoke_loop_proc now rows n)" for now rows n
    by (induction rows arbitrary: n) (auto intro!: calm_thenP calm_atomic keeps_intro quiet_keeps)
  then show ?thesis
    unfolding revoke_proc_def
    by (intro calm_thenP calm_cases calm_read keeps_intro)
qed

lemma calm_answer: "quiet m \<Longrightarrow> calm (atomic (answer m))"
  by (rule calm_action) (auto simp: answer_def dest: quietD split: prod.splits sum.splits)

lemma quiet_require: "quiet (require_token E st h)"
  unfolding require_token_def insecure_operator_token_def
  by (intro allI keeps_intro quiet_keeps)

lemma quiet_audit_reads: "quiet (get_audit_log E st h s q)" "quiet (verify_audit_log E st h s)"
  unfolding get_audit_log_def verify_audit_log_def
  by (intro allI keeps_intro quiet_require [rule_format] reads_pure(1) | rule quiet_pure [rule_format])+

lemma quiet_semantic: "quiet (semantic_search E st m v tags l)"
  unfolding semantic_search_def embeddings_search_def Let_def
  by (intro allI keeps_intro | rule quiet_pure [OF collect_hits_pure, rule_format])+

fun is_claim :: "request \<Rightarrow> bool" where
  "is_claim (PostOrg _ _ _) = True"
| "is_claim _ = False"

lemma calm_status: "calm p \<Longrightarrow> calm (status_of p)"
  unfolding status_of_def by (erule calm_bind) (rule calm.Done)

lemma calm_request: "\<not> is_claim req \<Longrightarrow> calm (request_proc E st req)"
  by (cases req)
    (auto intro!: calm_status calm_publish calm_yank calm_embedding calm_answer quiet_pure [rule_format]
      quiet_audit_reads [rule_format] quiet_semantic [rule_format] reads_pure listing_pure)

lemma calm_command: "calm (command_proc E st cmd)"
  by (cases cmd) (auto intro!: calm_bind calm_create calm_revoke calm.Done)

section \<open>A claim, around its lock\<close>

text \<open>Up to the lock: an answer, or the token for which a transaction has begun.\<close>

definition claim_front ::
    "externals \<Rightarrow> app_state \<Rightarrow> string option \<Rightarrow> string \<Rightarrow> (api_err + claim_response + token_row) proc" where
  "claim_front E st header slug =
     thenP (require_proc E st header) (\<lambda>token.
       if \<not> is_slug E slug then
         atomic (fail (err_bad_request ''invalid_slug'' ''org slugs are lowercase letters, digits, and hyphens''))
       else
         thenP (atomic (dbq (select (org_by_slug slug)))) (\<lambda>found.
           case found of
             Some existing \<Rightarrow>
               if t_org token = Some (o_id existing)
               then atomic (ret (Inl \<lparr>cl_slug = slug, cl_created = False\<rparr>))
               else atomic (fail (org_taken slug))
           | None \<Rightarrow> thenP (atomic (dbq (select (\<lambda>_. ())))) (\<lambda>_. Done (Inr (Inr token)))))"

definition advisory_lock :: "app_state \<Rightarrow> (api_err, unit) io" where
  "advisory_lock st = (if backend st = Postgres then dbq (select (\<lambda>_. ())) else ret ())"

text \<open>Under the lock.\<close>

definition claim_critical :: "app_state \<Rightarrow> token_row \<Rightarrow> string \<Rightarrow> (api_err + uuid) proc" where
  "claim_critical st token slug =
     thenP (atomic (check_quota st token)) (\<lambda>_.
       atomic (and_commit from_db_err (insert_new_org token slug)))"

text \<open>After the transaction, which gave up the lock.\<close>

definition claim_back ::
    "externals \<Rightarrow> app_state \<Rightarrow> token_row \<Rightarrow> string \<Rightarrow> api_err + uuid \<Rightarrow> (api_err + claim_response) proc" where
  "claim_back E st token slug r =
     (case r of
        Inl e \<Rightarrow> Done (Inl e)
      | Inr new_org_id \<Rightarrow>
          thenP (record_proc E st new_org_id token OrgClaim slug None) (\<lambda>_.
            atomic (ret \<lparr>cl_slug = slug, cl_created = True\<rparr>)))"

fun claim_rest ::
    "externals \<Rightarrow> app_state \<Rightarrow> string \<Rightarrow> api_err + claim_response + token_row \<Rightarrow>
     (api_err + claim_response) proc" where
  "claim_rest E st slug (Inl e) = Done (Inl e)"
| "claim_rest E st slug (Inr (Inl resp)) = Done (Inr resp)"
| "claim_rest E st slug (Inr (Inr token)) =
     thenP (atomic (advisory_lock st)) (\<lambda>_. bind_proc (claim_critical st token slug) (claim_back E st token slug))"

lemma bind_assoc: "bind_proc (bind_proc p k) l = bind_proc p (\<lambda>x. bind_proc (k x) l)"
proof (induction p)
  case (Act f)
  have "map_prod (\<lambda>p. bind_proc p l) id (map_prod (\<lambda>p. bind_proc p k) id (f w)) =
      map_prod (\<lambda>p. bind_proc p (\<lambda>x. bind_proc (k x) l)) id (f w)" for w
  proof -
    obtain p w' where f: "f w = (p, w')" by (cases "f w")
    have "bind_proc (bind_proc p k) l = bind_proc p (\<lambda>x. bind_proc (k x) l)"
      by (rule Act.IH [of "f w" p]) (metis f rangeI, simp add: f)
    then show ?thesis by (simp add: f)
  qed
  then show ?case by (simp add: comp_def)
qed simp

lemma bind_atomic: "bind_proc (atomic m) k = Act (map_prod k id \<circ> m)"
  by (simp add: atomic_def comp_def map_prod_def split_def)

lemma thenP_bind:
  "(\<And>e. l (Inl e) = Done (Inl e)) \<Longrightarrow>
     bind_proc (thenP p k) l = thenP p (\<lambda>x. bind_proc (k x) l)"
  unfolding thenP_def bind_assoc
  by (rule arg_cong [where f = "bind_proc p"]) (auto split: sum.split)

lemma bind_cases:
  "bind_proc (if b then p else q) l = (if b then bind_proc p l else bind_proc q l)"
  "bind_proc (case v of None \<Rightarrow> p | Some x \<Rightarrow> r x) l =
     (case v of None \<Rightarrow> bind_proc p l | Some x \<Rightarrow> bind_proc (r x) l)"
  by (simp_all split: option.split)

lemma bind_answer:
  "l (Inr x) = Done (Inr y) \<Longrightarrow> bind_proc (atomic (ret x)) l = atomic (ret y)"
  "(\<And>e. l (Inl e) = Done (Inl e)) \<Longrightarrow> bind_proc (atomic (fail e)) l = atomic (fail e)"
  unfolding bind_atomic unfolding atomic_def by (auto simp: fun_eq_iff)

lemma claim_split: "claim_proc E st lk h s = bind_proc (claim_front E st h s) (claim_rest E st s)"
proof -
  have tail: "thenP (claim_txn_proc st tok s) (\<lambda>new_org_id.
        thenP (record_proc E st new_org_id tok OrgClaim s None) (\<lambda>_.
          atomic (ret \<lparr>cl_slug = s, cl_created = True\<rparr>))) =
      thenP (atomic (dbq (select (\<lambda>_. ())))) (\<lambda>_. claim_rest E st s (Inr (Inr tok)))" for tok
  proof -
    have b: "claim_back E st tok s = (\<lambda>r. case r of Inl e \<Rightarrow> Done (Inl e) | Inr i \<Rightarrow>
        thenP (record_proc E st i tok OrgClaim s None) (\<lambda>_. atomic (ret \<lparr>cl_slug = s, cl_created = True\<rparr>)))"
      by (rule ext) (simp add: claim_back_def)
    show ?thesis
      unfolding claim_txn_proc_def claim_rest.simps advisory_lock_def b thenP_def [of "thenP _ _"]
      by (simp add: thenP_bind claim_critical_def)
  qed
  show ?thesis
    unfolding claim_proc_def claim_front_def
    by (simp add: thenP_bind bind_cases bind_answer tail cong: if_cong option.case_cong)
qed

section \<open>The token a claim goes on with is in the database\<close>

definition known :: "token_row \<Rightarrow> database \<Rightarrow> bool" where
  "known tok d \<longleftrightarrow> (\<exists>t\<in>set (tokens d). t_id t = t_id tok \<and> t_org t = t_org tok)"

lemma known_commits: "commits E whole x y \<Longrightarrow> known tok (fst x) \<Longrightarrow> known tok (fst y)"
proof -
  assume "commits E whole x y" "known tok (fst x)"
  then obtain t pre suf where t: "t \<in> set (tokens (fst x))" "t_id t = t_id tok" "t_org t = t_org tok"
    and d: "tokens (fst y) = pre @ suf" "list_all2 token_le (tokens (fst x)) pre"
    using commits_tokens [of E whole x y] by (auto simp: known_def tokens_extend_def)
  from t(1) obtain i where i: "i < length (tokens (fst x))" "t = tokens (fst x) ! i"
    by (auto simp: in_set_conv_nth)
  with d(2) have "token_le t (pre ! i)" "pre ! i \<in> set pre" by (auto simp: list_all2_conv_all_nth)
  with t d(1) show "known tok (fst y)" by (auto simp: known_def token_le_def intro!: bexI [of _ "pre ! i"])
qed

definition token_answer :: "shared \<Rightarrow> 'e + token_row \<Rightarrow> bool" where
  "token_answer s r \<longleftrightarrow> (case r of Inl _ \<Rightarrow> True | Inr tok \<Rightarrow> known tok (fst s))"

lemma token_answer_simps [simp]:
  "token_answer s (Inl e)" "token_answer s (Inr tok) \<longleftrightarrow> known tok (fst s)"
  by (simp_all add: token_answer_def)

lemma found_known: "token_by_id i d = Some tok \<Longrightarrow> known tok d"
  by (auto simp: token_by_id_def known_def dest!: find_SomeD)

lemma safe_answer_token: "known tok (fst s) \<Longrightarrow> safe E whole token_answer s (atomic (ret tok))"
  by (rule safe_atomic) (auto dest: known_commits)

lemma safe_require_known: "safe E whole token_answer s (require_proc E st h)"
proof (cases "auth_disabled st")
  case False
  have "safe E whole token_answer s (atomic (require_token E st h))"
  proof (rule safe_atomic)
    fix w r w' assume run: "require_token E st h w = (r, w')"
    have p: "pure_read (require_token E st h)" by (rule require_token_pure [OF False])
    have "token_answer (shared w') r"
    proof (cases r)
      case (Inr tok)
      with require_token_sound(1) [OF False] run pure_readD [OF p run] show ?thesis by (auto simp: known_def)
    qed simp
    with pure_read_advances [OF p run] show "advances E whole w w' \<and> token_answer (shared w') r" by blast
  qed
  with False show ?thesis by (simp add: require_proc_def)
next
  case True
  have found: "known tok (db w)" if "dbq (select (token_by_id operator_id)) w = (Inr (Some tok), w')" for w w' tok
    using that by (simp add: select_Inr) (metis found_known)
  have insert: "safe E whole (\<lambda>s' r. case r of Inl _ \<Rightarrow> True | Inr tok \<Rightarrow> known tok (fst s')) s1
      (atomic (insert_stmt insert_token row))" for s1 row
  proof (rule safe_atomic)
    fix w r w' assume run: "insert_stmt insert_token row w = (r, w')"
    have "advances E whole w w'" using movesD [OF moves_insert [OF commit.New_Token] run] .
    with run show "advances E whole w w' \<and> (case r of Inl _ \<Rightarrow> True | Inr tok \<Rightarrow> known tok (fst (shared w')))"
      by (cases r) (auto simp: insert_stmt_Inr insert_token_Inr known_def)
  qed
  have again: "safe E whole token_answer s1
      (thenP (atomic (dbq (select (token_by_id operator_id)))) (\<lambda>again. atomic (or_else again e)))" for s1 e
  proof (rule safe_read_known)
    fix w x w' assume q: "dbq (select (token_by_id operator_id)) w = (Inr x, w')"
    show "safe E whole token_answer (shared w) (atomic (or_else x e))"
    proof (rule safe_atomic)
      fix v r v' assume v: "commits E whole (shared w) (shared v)" "or_else x e v = (r, v')"
      with q found known_commits [OF v(1)] show "advances E whole v v' \<and> token_answer (shared v') r"
        by (cases x) (auto simp: or_else_def)
    qed
  qed (auto intro: keeps_intro)
  have "safe E whole token_answer s (operator_proc E)"
    unfolding operator_proc_def
  proof (rule safe_read_known)
    fix w x w' assume q: "dbq (select (token_by_id operator_id)) w = (Inr x, w')"
    show "safe E whole token_answer (shared w) (case x of Some row \<Rightarrow> atomic (ret row)
      | None \<Rightarrow>
         thenP (atomic utc_now) (\<lambda>now.
         bind_proc (atomic (insert_stmt insert_token (operator_row E now))) (\<lambda>inserted.
           case inserted of
             Inr row \<Rightarrow> atomic (ret row)
           | Inl error \<Rightarrow>
               thenP (atomic (dbq (select (token_by_id operator_id)))) (\<lambda>again.
                 atomic (or_else again (from_db_err error))))))"
    proof (cases x)
      case None
      then show ?thesis
        by (auto intro!: safe_read_then keeps_intro safe_bind [OF insert] again safe_answer_token split: sum.splits)
    next
      case (Some row)
      with found q show ?thesis by (auto intro!: safe_answer_token)
    qed
  qed (auto intro: keeps_intro)
  with True show ?thesis by (simp add: require_proc_def)
qed

text \<open>What the front of a claim answers.\<close>

definition front_answer :: "shared \<Rightarrow> 'e + 'a + token_row \<Rightarrow> bool" where
  "front_answer s r \<longleftrightarrow> (case r of Inr (Inr tok) \<Rightarrow> known tok (fst s) | _ \<Rightarrow> True)"

lemma front_answer_simps [simp]:
  "front_answer s (Inl e)" "front_answer s (Inr (Inl x))" "front_answer s (Inr (Inr tok)) \<longleftrightarrow> known tok (fst s)"
  by (simp_all add: front_answer_def)

lemma safe_front: "safe E whole front_answer s (claim_front E st h slug)"
  unfolding claim_front_def
proof (rule safe_thenP [OF safe_require_known])
  fix s1 tok assume "token_answer s1 (Inr tok :: api_err + token_row)"
  then have k: "known tok (fst s1)" by simp
  have fin: "safe E whole front_answer s2 (atomic (ret (Inl x)))" "safe E whole front_answer s2 (atomic (fail e))" for s2 x e
    by (rule safe_atomic; auto)+
  have go: "safe E whole front_answer s2 (thenP (atomic (dbq (select (\<lambda>_. ())))) (\<lambda>_. Done (Inr (Inr tok))))"
    if "commits E whole s1 s2" for s2
    by (rule safe_read_then) (use known_commits that k in \<open>auto intro!: keeps_intro dest: rtranclp_trans [OF that]\<close>)
  show "safe E whole front_answer s1
      (if \<not> is_slug E slug then
         atomic (fail (err_bad_request ''invalid_slug'' ''org slugs are lowercase letters, digits, and hyphens''))
       else
         thenP (atomic (dbq (select (org_by_slug slug)))) (\<lambda>found.
           case found of
             Some existing \<Rightarrow>
               if t_org tok = Some (o_id existing)
               then atomic (ret (Inl \<lparr>cl_slug = slug, cl_created = False\<rparr>))
               else atomic (fail (org_taken slug))
           | None \<Rightarrow> thenP (atomic (dbq (select (\<lambda>_. ())))) (\<lambda>_. Done (Inr (Inr tok)))))"
    by (intro safe_if safe_read_then safe_case_option fin go keeps_intro) simp_all
qed simp

lemma calm_front: "calm (claim_front E st h slug)"
  unfolding claim_front_def by (intro calm_thenP calm_require calm_cases calm_read calm.Done keeps_intro)

lemma calm_back: "calm (claim_back E st tok slug r)"
  unfolding claim_back_def by (intro calm_thenP calm_record calm_cases calm_read calm.Done keeps_intro)

section \<open>The server with the lock\<close>

text \<open>
  A request or command in flight: a claim that has not come to its transaction, one that has begun
  it and waits for the lock, one that holds the lock, or anything else.
\<close>

datatype flight =
    Other "nat proc"
  | Asking app_state string "(api_err + claim_response + token_row) proc"
  | Waiting app_state string token_row
  | Holding app_state string token_row "(api_err + uuid) proc"

text \<open>Whether a session may have the lock of this token: no session holds it.\<close>

fun holder :: "flight \<Rightarrow> uuid option" where
  "holder (Holding st slug tok p) = Some (t_id tok)"
| "holder _ = None"

definition lock_free :: "token_row \<Rightarrow> flight list \<Rightarrow> bool" where
  "lock_free token fs \<longleftrightarrow> Some (t_id token) \<notin> holder ` set fs"

fun after_front :: "app_state \<Rightarrow> string \<Rightarrow> api_err + claim_response + token_row \<Rightarrow> flight" where
  "after_front st slug (Inl e) = Other (Done (err_status e))"
| "after_front st slug (Inr (Inl resp)) = Other (Done 200)"
| "after_front st slug (Inr (Inr token)) = Waiting st slug token"

fun after_lock :: "app_state \<Rightarrow> string \<Rightarrow> token_row \<Rightarrow> api_err + unit \<Rightarrow> flight" where
  "after_lock st slug token (Inl e) = Other (Done (err_status e))"
| "after_lock st slug token (Inr _) = Holding st slug token (claim_critical st token slug)"

text \<open>
  The steps of servers on Postgres that allow a token at most \<open>limit\<close> orgs. A claim that ends its
  transaction gives up the lock, and so does one that vanishes.
\<close>

type_synonym flights = "world \<times> flight list"

inductive locked_step :: "externals \<Rightarrow> bool \<Rightarrow> nat \<Rightarrow> flights \<Rightarrow> flights \<Rightarrow> bool" for E whole limit where
  Arrive: "\<not> is_claim req \<Longrightarrow> locked_step E whole limit (w, fs) (w, fs @ [Other (request_proc E st req)])"
| Claim: "backend st = Postgres \<Longrightarrow> max_orgs_per_token st \<le> limit \<Longrightarrow>
    locked_step E whole limit (w, fs) (w, fs @ [Asking st slug (claim_front E st h slug)])"
| Launch: "locked_step E whole limit (w, fs) (w, fs @ [Other (command_proc E st cmd)])"
| Vanish: "locked_step E whole limit (w, fs @ f # gs) (w, fs @ gs)"
| Environment: "shared w' = shared w \<Longrightarrow> locked_step E whole limit (w, fs) (w', fs)"
| Progress: "events_ok whole w \<Longrightarrow> f w = (p, w') \<Longrightarrow>
    locked_step E whole limit (w, fs @ Other (Act f) # gs) (w', fs @ Other p # gs)"
| Ask: "events_ok whole w \<Longrightarrow> f w = (p, w') \<Longrightarrow>
    locked_step E whole limit (w, fs @ Asking st slug (Act f) # gs) (w', fs @ Asking st slug p # gs)"
| Asked: "locked_step E whole limit (w, fs @ Asking st slug (Done r) # gs) (w, fs @ after_front st slug r # gs)"
| Lock: "events_ok whole w \<Longrightarrow> lock_free token (fs @ gs) \<Longrightarrow> advisory_lock st w = (r, w') \<Longrightarrow>
    locked_step E whole limit (w, fs @ Waiting st slug token # gs) (w', fs @ after_lock st slug token r # gs)"
| Work: "events_ok whole w \<Longrightarrow> f w = (p, w') \<Longrightarrow>
    locked_step E whole limit (w, fs @ Holding st slug token (Act f) # gs)
      (w', fs @ Holding st slug token p # gs)"
| Unlock: "locked_step E whole limit (w, fs @ Holding st slug token (Done r) # gs)
    (w, fs @ Other (status_of (claim_back E st token slug r)) # gs)"

definition served_locked :: "externals \<Rightarrow> bool \<Rightarrow> nat \<Rightarrow> world \<Rightarrow> world \<Rightarrow> bool" where
  "served_locked E whole limit w w' \<longleftrightarrow> (\<exists>fs. (locked_step E whole limit)\<^sup>*\<^sup>* (w, []) (w', fs))"

section \<open>It is a refinement of the server without the lock\<close>

fun unlocked :: "externals \<Rightarrow> flight \<Rightarrow> nat proc" where
  "unlocked E (Other p) = p"
| "unlocked E (Asking st slug p) = status_of (bind_proc p (claim_rest E st slug))"
| "unlocked E (Waiting st slug tok) = status_of (claim_rest E st slug (Inr (Inr tok)))"
| "unlocked E (Holding st slug tok p) = status_of (bind_proc p (claim_back E st tok slug))"

lemma status_Done: "status_of (Done r) = Done (case r of Inl e \<Rightarrow> err_status e | Inr _ \<Rightarrow> 200)"
  by (simp add: status_of_def)

lemma status_Act: "status_of (Act f) = Act (map_prod status_of id \<circ> f)"
  unfolding status_of_def by simp

lemma unlocked_after_front: "unlocked E (after_front st slug r) = status_of (claim_rest E st slug r)"
  by (cases "(E, st, slug, r)" rule: claim_rest.cases) (simp_all add: status_Done)

lemma unlocked_lock:
  "unlocked E (Waiting st slug tok) =
     Act (map_prod (\<lambda>r. unlocked E (after_lock st slug tok r)) id \<circ> advisory_lock st)"
proof -
  have "status_of (case r of Inl e \<Rightarrow> Done (Inl e)
      | Inr u \<Rightarrow> bind_proc (claim_critical st tok slug) (claim_back E st tok slug)) =
      unlocked E (after_lock st slug tok r)" for r
    by (cases r) (simp_all add: status_Done)
  then show ?thesis
    by (simp add: thenP_def bind_atomic status_Act fun_eq_iff map_prod_def split_def)
qed

lemma locked_refines:
  assumes "locked_step E whole limit (w, fs) (w', fs')"
  shows "interleave E whole (w, map (unlocked E) fs) (w', map (unlocked E) fs') \<or>
    w' = w \<and> map (unlocked E) fs' = map (unlocked E) fs"
  using assms
proof cases
  case (Claim st slug h)
  have "unlocked E (Asking st slug (claim_front E st h slug)) = request_proc E st (PostOrg h NoClient slug)"
    by (simp add: claim_split)
  with Claim interleave.Arrive [of E whole w "map (unlocked E) fs" st "PostOrg h NoClient slug"] show ?thesis by simp
next
  case (Ask f p as st slug bs)
  then show ?thesis by (auto simp: status_Act intro!: interleave.Progress)
next
  case (Lock tok as bs st r slug)
  have "interleave E whole (w, map (unlocked E) as @
      Act (map_prod (\<lambda>r. unlocked E (after_lock st slug tok r)) id \<circ> advisory_lock st) # map (unlocked E) bs)
      (w', map (unlocked E) as @ unlocked E (after_lock st slug tok r) # map (unlocked E) bs)"
    using Lock(3,5) by (intro interleave.Progress) simp_all
  then show ?thesis unfolding Lock(1,2) map_append list.map unlocked_lock by blast
next
  case (Work f p as st slug tok bs)
  then show ?thesis by (auto simp: status_Act intro!: interleave.Progress)
qed (auto simp: unlocked_after_front intro: interleave.intros)

lemma locked_refines_steps:
  "(locked_step E whole limit)\<^sup>*\<^sup>* (w, fs) (w', fs') \<Longrightarrow>
     (interleave E whole)\<^sup>*\<^sup>* (w, map (unlocked E) fs) (w', map (unlocked E) fs')"
proof (induction "(w', fs')" arbitrary: w' fs' rule: rtranclp_induct)
  case (step y)
  obtain v gs where y: "y = (v, gs)" by (cases y)
  from step(3) [OF y] locked_refines [OF step(2) [unfolded y]] show ?case
    by (metis rtranclp.rtrancl_into_rtrancl)
qed simp

lemma served_locked_served: "served_locked E whole limit w w' \<Longrightarrow> served E whole w w'"
  unfolding served_locked_def served_def using locked_refines_steps by fastforce

section \<open>The limit\<close>

text \<open>No scoped token has claimed more orgs than the limit.\<close>

definition within_quota :: "nat \<Rightarrow> database \<Rightarrow> bool" where
  "within_quota limit d \<longleftrightarrow> (\<forall>t\<in>set (tokens d). t_org t \<noteq> None \<longrightarrow> claimed_by (t_id t) d \<le> limit)"

lemma known_scope:
  assumes "db_ok d" "known tok d" "t \<in> set (tokens d)" "t_id t = t_id tok"
  shows "t_org t = t_org tok"
  using assms unfolding known_def by (metis distinct_map_unique [OF db_okD(8) [OF assms(1)]])

text \<open>A token can have claimed orgs only if it was there when they were claimed.\<close>

lemma within_quota_kept:
  assumes ok: "db_ok d" "db_ok d'" and ts: "tokens_extend (tokens d) d'"
    and same: "claimants d' = claimants d" and q: "within_quota limit d"
  shows "within_quota limit d'"
  unfolding within_quota_def
proof (intro ballI impI)
  fix t assume t: "t \<in> set (tokens d')" "t_org t \<noteq> None"
  have n: "claimed_by (t_id t) d' = claimed_by (t_id t) d" using same by (simp add: claimed_by_claimants)
  show "claimed_by (t_id t) d' \<le> limit"
  proof (cases "claimed_by (t_id t) d = 0")
    case False
    then obtain r where "r \<in> set (orgs d)" "o_created_by r = Some (t_id t)"
      by (auto simp: claimed_by_def filter_empty_conv)
    with ok(1) obtain t0 where t0: "t0 \<in> set (tokens d)" "t_id t0 = t_id t"
      by (fastforce simp: db_ok_def fk_ok_def)
    from t0(1) ts obtain t1 where t1: "t1 \<in> set (tokens d')" "token_le t0 t1"
      by (auto simp: tokens_extend_def list_all2_conv_all_nth in_set_conv_nth) (metis nth_append length_append trans_less_add1)
    then have "t1 = t" using distinct_map_unique [OF db_okD(8) [OF ok(2)]] t(1) t0(2) by (auto simp: token_le_def)
    with t1(2) t(2) have "t_org t0 \<noteq> None" by (auto simp: token_le_def)
    with q t0 n show ?thesis by (auto simp: within_quota_def)
  qed (simp add: n)
qed

text \<open>What the holder of a lock may be about to do.\<close>

definition holding_ok :: "nat \<Rightarrow> database \<Rightarrow> app_state \<Rightarrow> token_row \<Rightarrow> string \<Rightarrow> (api_err + uuid) proc \<Rightarrow> bool" where
  "holding_ok limit d st tok slug p \<longleftrightarrow>
     p = claim_critical st tok slug \<or>
     p = atomic (and_commit from_db_err (insert_new_org tok slug)) \<and>
       (t_org tok \<noteq> None \<longrightarrow> claimed_by (t_id tok) d < limit) \<or>
     (\<exists>r. p = Done r)"

fun flight_ok :: "externals \<Rightarrow> bool \<Rightarrow> nat \<Rightarrow> shared \<Rightarrow> flight \<Rightarrow> bool" where
  "flight_ok E whole limit s (Other p) \<longleftrightarrow> calm p"
| "flight_ok E whole limit s (Asking st slug p) \<longleftrightarrow>
     max_orgs_per_token st \<le> limit \<and> calm p \<and> safe E whole front_answer s p"
| "flight_ok E whole limit s (Waiting st slug tok) \<longleftrightarrow> max_orgs_per_token st \<le> limit \<and> known tok (fst s)"
| "flight_ok E whole limit s (Holding st slug tok p) \<longleftrightarrow>
     max_orgs_per_token st \<le> limit \<and> known tok (fst s) \<and> holding_ok limit (fst s) st tok slug p"

definition holders :: "flight list \<Rightarrow> uuid option list" where
  "holders fs = filter (\<lambda>h. h \<noteq> None) (map holder fs)"

lemma distinct_holders:
  "distinct (holders (fs @ f # gs)) \<longleftrightarrow>
     distinct (holders (fs @ gs)) \<and> (holder f \<noteq> None \<longrightarrow> holder f \<notin> holder ` set (fs @ gs))"
  by (cases "holder f") (auto simp: holders_def image_iff)

definition flights_ok :: "externals \<Rightarrow> bool \<Rightarrow> nat \<Rightarrow> flights \<Rightarrow> bool" where
  "flights_ok E whole limit c \<longleftrightarrow>
     db_ok (db (fst c)) \<and> within_quota limit (db (fst c)) \<and>
     in_flight_ok E whole (fst c, map (unlocked E) (snd c)) \<and>
     (\<forall>f\<in>set (snd c). flight_ok E whole limit (shared (fst c)) f) \<and> distinct (holders (snd c))"

lemma flights_okD:
  assumes "flights_ok E whole limit (w, fs)"
  shows "db_ok (db w)" "within_quota limit (db w)" "in_flight_ok E whole (w, map (unlocked E) fs)"
    "f \<in> set fs \<Longrightarrow> flight_ok E whole limit (shared w) f" "distinct (holders fs)"
  using assms by (auto simp: flights_ok_def)

lemma front_answer_later: "front_answer s r \<Longrightarrow> commits E whole s s' \<Longrightarrow> front_answer s' r"
  unfolding front_answer_def by (auto split: sum.splits intro: known_commits)

lemma flight_ok_later:
  assumes "flight_ok E whole limit s f" "commits E whole s s'"
    and "\<And>i. holder f = Some i \<Longrightarrow> claimed_by i (fst s') = claimed_by i (fst s)"
  shows "flight_ok E whole limit s' f"
proof (cases f)
  case (Asking st slug p)
  with assms(1,2) show ?thesis by (cases p) (auto intro: safe_later front_answer_later)
qed (use assms in \<open>auto simp: holding_ok_def intro: known_commits\<close>)

text \<open>One flight moves on; the tokens of the other lock holders claim nothing meanwhile.\<close>

lemma flights_ok_move:
  assumes ok: "flights_ok E whole limit (w, fs @ f # gs)" and c: "commits E whole (shared w) (shared w')"
    and i: "in_flight_ok E whole (w', map (unlocked E) (fs @ f' # gs))"
    and q: "within_quota limit (db w')" and f': "flight_ok E whole limit (shared w') f'"
    and h: "holder f' \<noteq> None \<Longrightarrow> holder f' = holder f \<or> holder f' \<notin> holder ` set (fs @ gs)"
    and others: "\<And>j. Some j \<in> holder ` set (fs @ gs) \<Longrightarrow> claimed_by j (db w') = claimed_by j (db w)"
  shows "flights_ok E whole limit (w', fs @ f' # gs)"
proof -
  have "flight_ok E whole limit (shared w') g" if "g \<in> set (fs @ gs)" for g
  proof (rule flight_ok_later [OF _ c])
    show "flight_ok E whole limit (shared w) g" using that flights_okD(4) [OF ok, of g] by auto
    fix j assume "holder g = Some j"
    with that have "Some j \<in> holder ` set (fs @ gs)" by (metis imageI)
    from others [OF this] show "claimed_by j (fst (shared w')) = claimed_by j (fst (shared w))" by simp
  qed
  moreover have "distinct (holders (fs @ f' # gs))"
    using flights_okD(5) [OF ok] h unfolding distinct_holders by metis
  moreover have "db_ok (db w')" using commits_db_ok [OF c] flights_okD(1) [OF ok] by simp
  ultimately show ?thesis using i q f' by (auto simp: flights_ok_def)
qed

lemma flights_ok_calm:
  assumes ok: "flights_ok E whole limit (w, fs @ f # gs)" and c: "commits E whole (shared w) (shared w')"
    and i: "in_flight_ok E whole (w', map (unlocked E) (fs @ f' # gs))"
    and same: "claimants (db w') = claimants (db w)" and f': "flight_ok E whole limit (shared w') f'"
    and h: "holder f' \<noteq> None \<Longrightarrow> holder f' = holder f \<or> holder f' \<notin> holder ` set (fs @ gs)"
  shows "flights_ok E whole limit (w', fs @ f' # gs)"
proof (rule flights_ok_move [OF ok c i _ f'])
  have "db_ok (db w')" using commits_db_ok [OF c] flights_okD(1) [OF ok] by simp
  with within_quota_kept [OF flights_okD(1) [OF ok] _ _ same flights_okD(2) [OF ok]] commits_tokens [OF c]
  show "within_quota limit (db w')" by simp
  show "holder f' \<noteq> None \<Longrightarrow> holder f' = holder f \<or> holder f' \<notin> holder ` set (fs @ gs)" by (rule h)
qed (simp only: claimed_by_claimants same)

text \<open>The insert of a claim, under the lock.\<close>

lemma insert_claim:
  assumes run: "and_commit from_db_err (insert_new_org tok slug) w = (r, w')"
    and ok: "db_ok (db w)" and q: "within_quota limit (db w)" and k: "known tok (db w)"
    and room: "t_org tok \<noteq> None \<Longrightarrow> claimed_by (t_id tok) (db w) < limit"
  shows "within_quota limit (db w')" "j \<noteq> t_id tok \<Longrightarrow> claimed_by j (db w') = claimed_by j (db w)"
proof -
  consider "db w' = db w" | i now where "insert_org
      \<lparr>o_id = i, o_slug = slug, o_created_at = now, o_created_by = Some (t_id tok)\<rparr> (db w) = Inr (db w')"
    using run
    by (auto simp: and_commit_def insert_new_org_def run_simps insert_stmt_def statement_eq select_eq
        map_sum_Inr_iff split: option.splits sum.splits prod.splits if_splits)
  then have "within_quota limit (db w') \<and> (j \<noteq> t_id tok \<longrightarrow> claimed_by j (db w') = claimed_by j (db w))" for j
  proof cases
    case 2
    then have t: "tokens (db w') = tokens (db w)"
      and n: "claimed_by i (db w') = claimed_by i (db w) + (if i = t_id tok then 1 else 0)" for i
      by (auto simp: insert_org_Inr claimed_by_def)
    have "claimed_by (t_id t) (db w') \<le> limit" if "t \<in> set (tokens (db w))" "t_org t \<noteq> None" for t
    proof (cases "t_id t = t_id tok")
      case True
      from known_scope [OF ok k that(1) True] that(2) room True n show ?thesis by simp
    qed (use that q n in \<open>auto simp: within_quota_def\<close>)
    with t n show ?thesis by (simp add: within_quota_def)
  qed (use q in simp)
  then show "within_quota limit (db w')" "j \<noteq> t_id tok \<Longrightarrow> claimed_by j (db w') = claimed_by j (db w)" by auto
qed

lemma Act_atomic: "Act f = atomic m \<Longrightarrow> f w = (p, w') \<Longrightarrow> \<exists>r. m w = (r, w') \<and> p = Done r"
  by (cases "m w") (auto simp: atomic_def)

lemma Act_thenP_atomic:
  assumes "Act f = thenP (atomic m) k" "f w = (p, w')"
  shows "\<exists>r. m w = (r, w') \<and> p = (case r of Inl e \<Rightarrow> Done (Inl e) | Inr x \<Rightarrow> k x)"
  using assms by (cases "m w") (auto simp: thenP_def bind_atomic)

lemma work_ok:
  assumes ok: "flights_ok E whole limit (w, fs @ Holding st slug tok (Act f) # gs)"
    and run: "f w = (p, w')" and c: "commits E whole (shared w) (shared w')"
    and i: "in_flight_ok E whole (w', map (unlocked E) (fs @ Holding st slug tok p # gs))"
  shows "flights_ok E whole limit (w', fs @ Holding st slug tok p # gs)"
proof -
  have f: "max_orgs_per_token st \<le> limit" "known tok (db w)" "holding_ok limit (db w) st tok slug (Act f)"
    using flights_okD(4) [OF ok, of "Holding st slug tok (Act f)"] by simp_all
  have k': "known tok (db w')" using known_commits [OF c] f(2) by simp
  from f(3) consider (count) "Act f = claim_critical st tok slug"
    | (insert) "Act f = atomic (and_commit from_db_err (insert_new_org tok slug))"
      "t_org tok \<noteq> None \<longrightarrow> claimed_by (t_id tok) (db w) < limit"
    by (auto simp: holding_ok_def)
  then show ?thesis
  proof cases
    case count
    then obtain r where r: "check_quota st tok w = (r, w')"
      "p = (case r of Inl e \<Rightarrow> Done (Inl e)
        | Inr _ \<Rightarrow> atomic (and_commit from_db_err (insert_new_org tok slug)))"
      using Act_thenP_atomic [of f "check_quota st tok" _ w p w'] run unfolding claim_critical_def by blast
    have same: "db w' = db w" using pure_readD [OF check_quota_pure r(1)] by simp
    have "holding_ok limit (db w') st tok slug p"
      using r f(1) same check_quota_Inr [of st tok w _ w'] by (cases r) (auto simp: holding_ok_def)
    then show ?thesis using f(1) k' same by (intro flights_ok_calm [OF ok c i]) simp_all
  next
    case insert
    then obtain r where r: "and_commit from_db_err (insert_new_org tok slug) w = (r, w')" "p = Done r"
      using Act_atomic [of f _ w p w'] run by blast
    note ins = insert_claim [OF r(1) flights_okD(1,2) [OF ok] f(2)]
    show ?thesis
    proof (rule flights_ok_move [OF ok c i])
      show "within_quota limit (db w')" using ins(1) insert(2) by blast
      show "flight_ok E whole limit (shared w') (Holding st slug tok p)"
        using f(1) k' r(2) by (simp add: holding_ok_def)
      fix j assume "Some j \<in> holder ` set (fs @ gs)"
      moreover have "Some (t_id tok) \<notin> holder ` set (fs @ gs)"
        using flights_okD(5) [OF ok] unfolding distinct_holders by simp
      ultimately have "j \<noteq> t_id tok" by blast
      then show "claimed_by j (db w') = claimed_by j (db w)" using ins(2) insert(2) by blast
    qed simp
  qed
qed

lemma flights_ok_arrive:
  assumes "flights_ok E whole limit (w, fs)" "flight_ok E whole limit (shared w) f" "holder f = None"
    and "in_flight_ok E whole (w, map (unlocked E) (fs @ [f]))"
  shows "flights_ok E whole limit (w, fs @ [f])"
  using assms by (auto simp: flights_ok_def distinct_holders [of fs f "[]", simplified])

lemma locked_step_ok:
  assumes step: "locked_step E whole limit (w, fs) (w', fs')" and ok: "flights_ok E whole limit (w, fs)"
    and hex: "whole \<longrightarrow> hex_digests E"
  shows "flights_ok E whole limit (w', fs')"
proof -
  have "commits E whole (shared w) (shared w') \<and> in_flight_ok E whole (w', map (unlocked E) fs')"
    using locked_refines [OF step] flights_okD(3) [OF ok] interleave_commits [OF _ _ hex] by (metis rtranclp.rtrancl_refl)
  then have c: "commits E whole (shared w) (shared w')" and i: "in_flight_ok E whole (w', map (unlocked E) fs')"
    by blast+
  from step show ?thesis
  proof cases
    case (Arrive req st)
    with ok i show ?thesis by (auto intro!: flights_ok_arrive calm_request)
  next
    case (Claim st slug h)
    with ok i show ?thesis by (auto intro!: flights_ok_arrive calm_front safe_front)
  next
    case (Launch st cmd)
    with ok i show ?thesis by (auto intro!: flights_ok_arrive calm_command)
  next
    case (Vanish as f bs)
    with ok show ?thesis by (auto simp: flights_ok_def in_flight_ok_def distinct_holders)
  next
    case Environment
    then have "db w' = db w" by (simp add: shared_def)
    with Environment ok i show ?thesis by (auto simp: flights_ok_def)
  next
    case (Progress f p as bs)
    then have "calm (Act f)" using flights_okD(4) [OF ok, of "Other (Act f)"] by simp
    from calm_step [OF this Progress(4)] show ?thesis
      unfolding Progress(2)
      by (intro flights_ok_calm [OF ok [unfolded Progress(1)] c i [unfolded Progress(2)]]) simp_all
  next
    case (Ask f p as st slug bs)
    then have a: "max_orgs_per_token st \<le> limit" "calm (Act f)" "safe E whole front_answer (shared w) (Act f)"
      using flights_okD(4) [OF ok, of "Asking st slug (Act f)"] by simp_all
    from calm_step [OF a(2) Ask(4)] safe_step [OF a(3) _ Ask(3,4)] a(1) show ?thesis
      unfolding Ask(2)
      by (intro flights_ok_calm [OF ok [unfolded Ask(1)] c i [unfolded Ask(2)]]) simp_all
  next
    case (Asked as st slug r bs)
    then have a: "max_orgs_per_token st \<le> limit" "front_answer (shared w) r"
      using flights_okD(4) [OF ok, of "Asking st slug (Done r)"] by simp_all
    then have "flight_ok E whole limit (shared w) (after_front st slug r) \<and> holder (after_front st slug r) = None"
      by (cases "(st, slug, r)" rule: after_front.cases) (auto intro: calm.Done)
    then show ?thesis
      unfolding Asked(2,3)
      by (intro flights_ok_calm [OF ok [unfolded Asked(1)] _ i [unfolded Asked(2,3)]]) simp_all
  next
    case (Lock tok as bs st r slug)
    then have a: "max_orgs_per_token st \<le> limit" "known tok (db w)"
      using flights_okD(4) [OF ok, of "Waiting st slug tok"] by simp_all
    have same: "db w' = db w"
      using pure_readD [of "advisory_lock st", OF _ Lock(5)] by (auto simp: advisory_lock_def intro!: keeps_intro)
    have "flight_ok E whole limit (shared w') (after_lock st slug tok r)"
      using a same by (cases r) (auto simp: holding_ok_def intro: calm.Done)
    moreover have "holder (after_lock st slug tok r) \<noteq> None \<Longrightarrow> holder (after_lock st slug tok r) \<notin> holder ` set (as @ bs)"
      using Lock(4) by (cases r) (auto simp: lock_free_def)
    ultimately show ?thesis
      unfolding Lock(2) using same
      by (intro flights_ok_calm [OF ok [unfolded Lock(1)] c i [unfolded Lock(2)]]) simp_all
  next
    case (Work f p as st slug tok bs)
    with work_ok ok c i show ?thesis by blast
  next
    case (Unlock as st slug tok r bs)
    then show ?thesis
      unfolding Unlock(2,3)
      by (intro flights_ok_calm [OF ok [unfolded Unlock(1)] _ i [unfolded Unlock(2,3)]])
        (simp_all add: calm_status calm_back)
  qed
qed

lemma locked_steps_ok:
  "(locked_step E whole limit)\<^sup>*\<^sup>* (w, fs) (w', fs') \<Longrightarrow> flights_ok E whole limit (w, fs) \<Longrightarrow>
     whole \<longrightarrow> hex_digests E \<Longrightarrow> flights_ok E whole limit (w', fs')"
proof (induction "(w', fs')" arbitrary: w' fs' rule: rtranclp_induct)
  case (step y)
  obtain v gs where y: "y = (v, gs)" by (cases y)
  from step(3) [OF y step(4,5)] show ?case using locked_step_ok [OF step(2) [unfolded y] _ step(5)] by blast
qed

text \<open>
  C26: No scoped token ever owns more orgs than the limit, however many claims of the same token
  race on however many replicas, whatever else is served, fails or vanishes in the middle: the
  count and the insert under the advisory lock keep it, and nothing else creates an org for a
  token.
\<close>

theorem quota_never_exceeded:
  assumes "whole \<longrightarrow> hex_digests E" "served_locked E whole limit w w'"
    and "db_ok (db w)" "within_quota limit (db w)"
  shows "within_quota limit (db w')"
proof -
  obtain fs where "(locked_step E whole limit)\<^sup>*\<^sup>* (w, []) (w', fs)"
    using assms(2) by (auto simp: served_locked_def)
  moreover have "flights_ok E whole limit (w, [])"
    using assms(3,4) by (simp add: flights_ok_def in_flight_ok_def holders_def)
  ultimately show ?thesis using locked_steps_ok [OF _ _ assms(1)] flights_okD(2) by blast
qed

section \<open>A claim that nothing interrupts is one of the runs\<close>

lemma flight_runs:
  assumes step: "\<And>w f p w'. events_ok whole w \<Longrightarrow> f w = (p, w') \<Longrightarrow>
      locked_step E whole limit (w, [F (Act f)]) (w', [F p])"
    and "safe E whole Q (shared w) p" "events_ok whole w" "run_proc p w = (r, w')"
  shows "(locked_step E whole limit)\<^sup>*\<^sup>* (w, [F p]) (w', [F (Done r)]) \<and> events_ok whole w'"
  using assms(2-4)
proof (induction p arbitrary: w rule: proc.induct)
  case (Act f)
  obtain p v where f: "f w = (p, v)" by (cases "f w")
  from safe_step [OF Act.prems(1) _ Act.prems(2) f] have
    s: "advances E whole w v" "safe E whole Q (shared v) p" by simp_all
  have "run_proc p v = (r, w')" using Act.prems(3) by (simp add: f)
  then have "(locked_step E whole limit)\<^sup>*\<^sup>* (v, [F p]) (w', [F (Done r)]) \<and> events_ok whole w'"
    using Act.IH [of "f w" p v] s advances_events [OF s(1) Act.prems(2)] by (metis f fsts.intros rangeI fst_conv)
  moreover have "locked_step E whole limit (w, [F (Act f)]) (v, [F p])" by (rule step) (rule Act.prems(2), rule f)
  ultimately show ?case by (metis converse_rtranclp_into_rtranclp)
qed simp

lemma safe_critical: "safe E whole (\<lambda>_ _. True) s (claim_critical st tok slug)"
  unfolding claim_critical_def
  by (intro safe_read_then check_quota_pure keeps_intro TrueI safe_moves [OF claim_tail_moves])

lemma safe_back: "safe E whole (\<lambda>_ _. True) s (status_of (claim_back E st tok slug r))"
proof -
  have "safe E whole (\<lambda>_ _. True) s (claim_back E st tok slug r)"
    unfolding claim_back_def
    by (cases r) (auto intro!: safe_thenP [OF safe_record] safe_moves [OF moves_pure] keeps_intro)
  then show ?thesis by (rule safe_status)
qed

text \<open>From the lock on, with nobody else there.\<close>

lemma waiting_runs:
  assumes ev: "events_ok whole w"
  shows "\<exists>fs. (locked_step E whole limit)\<^sup>*\<^sup>* (w, [Waiting st slug tok])
    (snd (run_proc (claim_rest E st slug (Inr (Inr tok))) w), fs)"
proof -
  let ?R = "(locked_step E whole limit)\<^sup>*\<^sup>*"
  obtain q w3 where q: "advisory_lock st w = (q, w3)" by (cases "advisory_lock st w")
  have locked: "?R (w, [Waiting st slug tok]) (w3, [after_lock st slug tok q])"
    using locked_step.Lock [OF ev _ q, of tok "[]" "[]" E limit slug] by (auto simp: lock_free_def)
  have "moves E whole (advisory_lock st)" unfolding advisory_lock_def by (intro moves_intro moves_pure keeps_intro)
  from advances_events [OF movesD [OF this q] ev] have ev3: "events_ok whole w3" .
  show ?thesis
  proof (cases q)
    case (Inl e)
    then have "snd (run_proc (claim_rest E st slug (Inr (Inr tok))) w) = w3" using q by (simp add: andThen_def)
    with locked show ?thesis by auto
  next
    case (Inr u)
    obtain x w4 where x: "run_proc (claim_critical st tok slug) w3 = (x, w4)"
      by (cases "run_proc (claim_critical st tok slug) w3")
    have work: "?R (w3, [Holding st slug tok (claim_critical st tok slug)]) (w4, [Holding st slug tok (Done x)]) \<and>
        events_ok whole w4"
      by (rule flight_runs [where F = "Holding st slug tok", OF _ safe_critical ev3 x])
        (use locked_step.Work [of whole _ _ _ _ E limit "[]" _ _ _ "[]"] in simp)
    let ?after = "status_of (claim_back E st tok slug x)"
    have unlock: "?R (w4, [Holding st slug tok (Done x)]) (w4, [Other ?after])"
      using locked_step.Unlock [of E whole limit w4 "[]" st slug tok x "[]"] by auto
    obtain y w5 where y: "run_proc ?after w4 = (y, w5)" by (cases "run_proc ?after w4")
    have finish: "?R (w4, [Other ?after]) (w5, [Other (Done y)])"
      using work
      by (intro flight_runs [where F = Other, OF _ safe_back _ y, THEN conjunct1])
        (use locked_step.Progress [of whole _ _ _ _ E limit "[]" "[]"] in simp_all)
    have "snd (run_proc (claim_rest E st slug (Inr (Inr tok))) w) = w5"
      using q Inr x y by (simp add: andThen_def run_bind run_status answer_def split: prod.splits sum.splits)
    moreover have "?R (w, [Waiting st slug tok]) (w5, [Other (Done y)])"
      using locked [unfolded Inr after_lock.simps] work unlock finish by (metis rtranclp_trans)
    ultimately show ?thesis by blast
  qed
qed

lemma served_locked_claim:
  assumes s: "served_locked E whole limit w w0" and w1: "shared w1 = shared w0" "events_ok whole w1"
    and st: "backend st = Postgres" "max_orgs_per_token st \<le> limit"
  shows "served_locked E whole limit w (snd (claim_org E st lk h slug w1))"
proof -
  let ?R = "(locked_step E whole limit)\<^sup>*\<^sup>*"
  from s obtain fs where fs: "?R (w, []) (w0, fs)" by (auto simp: served_locked_def)
  have vanish: "?R (w0, gs) (w0, [])" for gs
  proof (induction gs)
    case (Cons g gs)
    then show ?case
      using locked_step.Vanish [of E whole limit w0 "[]" g gs] by (simp add: converse_rtranclp_into_rtranclp)
  qed simp
  let ?front = "claim_front E st h slug"
  obtain r w2 where r: "run_proc ?front w1 = (r, w2)" by (cases "run_proc ?front w1")
  have "?R (w1, [Asking st slug ?front]) (w2, [Asking st slug (Done r)]) \<and> events_ok whole w2"
    by (rule flight_runs [where F = "Asking st slug", OF _ safe_front w1(2) r])
      (use locked_step.Ask [of whole _ _ _ _ E limit "[]" _ _ "[]"] in simp)
  moreover have "?R (w2, [Asking st slug (Done r)]) (w2, [after_front st slug r])"
    using locked_step.Asked [of E whole limit w2 "[]" st slug r "[]"] by auto
  moreover have "?R (w0, []) (w1, [Asking st slug ?front])"
    using locked_step.Environment [OF w1(1), of E whole limit "[]"] locked_step.Claim [OF st, of E whole w1 "[]" slug h]
    by (simp add: converse_rtranclp_into_rtranclp)
  ultimately have asked: "?R (w, []) (w2, [after_front st slug r])" and ev2: "events_ok whole w2"
    using fs vanish [of fs] by (metis rtranclp_trans)+
  have res: "claim_org E st lk h slug w1 = run_proc (claim_rest E st slug r) w2"
    using run_claim [of E st lk h slug, THEN fun_cong, of w1] r by (simp add: claim_split run_bind)
  show ?thesis
  proof (cases "(st, slug, r)" rule: after_front.cases)
    case (3 st' slug' tok)
    with asked waiting_runs [OF ev2, of E limit st slug tok] res show ?thesis
      unfolding served_locked_def by (metis Pair_inject after_front.simps(3) rtranclp_trans)
  qed (use asked res in \<open>auto simp: served_locked_def\<close>)
qed

end
