(* ===== verification/Limiter_Tests.thy ===== *)
theory Limiter_Tests
  imports Rate_Limit
begin

text \<open>
  The unit tests of \<open>src/ratelimit.rs\<close> and of its layer in \<open>src/routes/mod.rs\<close>, run on the
  model with the rounding of \<open>f64\<close>. A test is the conjunction of its assertions over the times
  at which it reads the clock; each passes at every such time.
\<close>

section \<open>\<open>ratelimit.rs\<close>\<close>

definition limiter_len :: "limiter \<Rightarrow> nat" where
  "limiter_len l = card (dom (buckets l))"

text \<open>\<open>n\<close> checks of a key at the same time: the decisions, and the limiter afterwards.\<close>

fun checks :: "nat \<Rightarrow> string \<Rightarrow> nat \<Rightarrow> limiter \<Rightarrow> decision list \<times> limiter" where
  "checks 0 key now l = ([], l)"
| "checks (Suc n) key now l =
     (case check_at key now l of (d, l1) \<Rightarrow> (case checks n key now l1 of (ds, l2) \<Rightarrow> (d # ds, l2)))"

lemma checks_app:
  "checks m key now l = (ds, l1) \<Longrightarrow> checks n key now l1 = (es, l2) \<Longrightarrow> checks (m + n) key now l = (ds @ es, l2)"
  by (induction m arbitrary: l ds) (auto split: prod.splits)

lemma checks_1 [simp]: "checks 1 key now l = (case check_at key now l of (d, l1) \<Rightarrow> ([d], l1))"
  by (simp split: prod.splits)

lemma checks_2:
  "check_at key now l = (d, l1) \<Longrightarrow> check_at key now l1 = (e, l2) \<Longrightarrow> checks 2 key now l = ([d, e], l2)"
  by (simp add: numeral_2_eq_2)

fun is_deny :: "decision \<Rightarrow> bool" where
  "is_deny (Deny _) = True"
| "is_deny Allow = False"

definition burst_is_allowed_then_the_bucket_empties :: "nat \<Rightarrow> bool" where
  "burst_is_allowed_then_the_bucket_empties now =
     (case checks 3 ''tok'' now (limiter_new 3 (Fnum 1)) of
        (ds, l) \<Rightarrow> ds = [Allow, Allow, Allow] \<and>
          (case fst (check_at ''tok'' now l) of Deny retry_after_secs \<Rightarrow> retry_after_secs \<ge> 1 | Allow \<Rightarrow> False))"

definition the_bucket_refills_over_time :: "nat \<Rightarrow> bool" where
  "the_bucket_refills_over_time start =
     (case checks 3 ''tok'' start (limiter_new 2 (Fnum 10)) of
        ([a, b, c], l) \<Rightarrow> a = Allow \<and> b = Allow \<and> is_deny c \<and>
          (case checks 2 ''tok'' (start + 150000000) l of
             ([d, e], _) \<Rightarrow> d = Allow \<and> is_deny e
           | _ \<Rightarrow> False)
      | _ \<Rightarrow> False)"

definition refill_never_exceeds_the_burst_ceiling :: "nat \<Rightarrow> bool" where
  "refill_never_exceeds_the_burst_ceiling start =
     (let much_later = start + 3600 * 10 ^ 9
      in case checks 5 ''tok'' much_later (limiter_new 5 (Fnum 1000)) of
           (ds, l) \<Rightarrow> ds = replicate 5 Allow \<and> is_deny (fst (check_at ''tok'' much_later l)))"

definition callers_are_isolated_from_each_other :: "nat \<Rightarrow> bool" where
  "callers_are_isolated_from_each_other now =
     (case checks 2 ''alice'' now (limiter_new 1 (f64_of (1 / 1000))) of
        ([a, b], l) \<Rightarrow> a = Allow \<and> is_deny b \<and> fst (check_at ''bob'' now l) = Allow
      | _ \<Rightarrow> False)"

definition retry_after_reflects_the_refill_rate_and_is_never_zero :: "nat \<Rightarrow> bool" where
  "retry_after_reflects_the_refill_rate_and_is_never_zero now \<longleftrightarrow>
     fst (checks 2 ''tok'' now (limiter_new 1 (Fnum (1 / 2)))) = [Allow, Deny 2] \<and>
     fst (checks 2 ''t'' now (limiter_new 1 (Fnum 1000))) = [Allow, Deny 1]"

definition the_sweep_evicts_only_idle_buckets :: "nat \<Rightarrow> bool" where
  "the_sweep_evicts_only_idle_buckets start =
     (let l1 = snd (check_at ''old'' start (limiter_new 5 (Fnum 1)));
          l2 = snd (check_at ''fresh'' (start + IDLE_EVICTION) l1);
          now = start + IDLE_EVICTION + 10 ^ 9;
          l3 = sweep_at now l2
      in limiter_len l2 = 2 \<and> limiter_len l3 = 1 \<and> fst (check_at ''fresh'' now l3) = Allow)"

definition degenerate_settings_fall_back_to_something_usable :: "nat \<Rightarrow> bool" where
  "degenerate_settings_fall_back_to_something_usable now =
     (fst (check_at ''tok'' now (limiter_new 0 (Fnum 0))) = Allow)"

text \<open>A fresh limiter, and a key that has spent all but \<open>k\<close> tokens at this instant.\<close>

definition spent :: "nat \<Rightarrow> nat \<Rightarrow> string \<Rightarrow> limiter \<Rightarrow> limiter" where
  "spent k now key l = l\<lparr>buckets := (buckets l)(key \<mapsto> \<lparr>bk_tokens = Fnum (real k), bk_last_seen = now\<rparr>)\<rparr>"

lemma fresh_limiter:
  assumes "1 \<le> b" "b < 2 ^ 32" "0 < r"
  shows "limiter_ok (limiter_new b (Fnum r))" "buckets (limiter_new b (Fnum r)) key = None"
    "burst (limiter_new b (Fnum r)) = Fnum (real b)" "per_second (limiter_new b (Fnum r)) = Fnum r"
proof -
  have "b < 2 ^ 53" using assms(2) by (rule less_trans) simp
  then show "limiter_ok (limiter_new b (Fnum r))" "buckets (limiter_new b (Fnum r)) key = None"
    "burst (limiter_new b (Fnum r)) = Fnum (real b)" "per_second (limiter_new b (Fnum r)) = Fnum r"
    using assms f64_nat_exact [of b] limiter_new_ok [of b "Fnum r"]
    by (simp_all add: limiter_new_def f64_less_0 max_def)
qed

lemma rnd_pred: "0 < k \<Longrightarrow> k < 2 ^ 53 \<Longrightarrow> rnd (real k - 1) = real (k - 1)"
  using rnd_nat [of "k - 1"] by (simp add: of_nat_diff)

lemma first_charge:
  assumes "limiter_ok l" "buckets l key = None" "burst l = Fnum (real b)" "1 \<le> b" "b < 2 ^ 53"
  shows "check_at key now l = (Allow, spent (b - 1) now key l)"
  using assms avail_new [OF assms(1,2)] rnd_pred [of b] by (simp add: check_at_eq spent_def)

lemma spent_ok:
  assumes "limiter_ok l" "burst l = Fnum (real b)" "k \<le> b"
  shows "limiter_ok (spent k now key l)" "burst (spent k now key l) = Fnum (real b)"
    "per_second (spent k now key l) = per_second l"
  using assms by (auto simp: limiter_ok_def spent_def)

lemma spent_again [simp]: "spent j t key (spent k now key l) = spent j t key l"
  by (simp add: spent_def)

lemma next_charge:
  assumes ok: "limiter_ok l" and b: "burst l = Fnum (real b)" "per_second l = Fnum r" and k: "k \<le> b" "b < 2 ^ 53"
  shows "check_at key now (spent k now key l) =
    (if 1 \<le> k then (Allow, spent (k - 1) now key l)
     else (Deny (retry_secs (f64_div (Fnum 1) (Fnum r))), spent 0 now key l))"
proof -
  note ok' = spent_ok [OF ok b(1) k(1), of now key]
  have "k < 2 ^ 53" using k by linarith
  then have a: "avail (spent k now key l) key now = real k"
    using avail_eq [OF ok'(1) ok'(3) [unfolded b(2)], of key _ now] ok'(2) k rnd_nat [of k]
    by (simp add: spent_def)
  have "f64_of 1 = Fnum 1" using f64_of_finite [of 1 1] rnd_nat [of 1] by simp
  then show ?thesis
    using ok'(3) b(2) rnd_pred [of k] \<open>k < 2 ^ 53\<close>
    unfolding check_at_eq [OF ok'(1)] a by (cases "k = 0") (simp_all, simp_all add: spent_def)
qed

lemma burst_checks:
  assumes "limiter_ok l" "burst l = Fnum (real b)" "per_second l = Fnum r" "k \<le> b" "b < 2 ^ 53"
  shows "checks k key now (spent k now key l) = (replicate k Allow, spent 0 now key l)"
  using assms(4)
proof (induction k)
  case (Suc k)
  then show ?case using next_charge [OF assms(1-3) Suc.prems assms(5), of key now] by simp
qed simp

lemma fresh_checks:
  assumes b: "1 \<le> b" "b < 2 ^ 32" and r: "0 < r"
  shows "checks b key now (limiter_new b (Fnum r)) =
    (replicate b Allow, spent 0 now key (limiter_new b (Fnum r)))"
    and "check_at key now (spent 0 now key (limiter_new b (Fnum r))) =
      (Deny (retry_secs (f64_div (Fnum 1) (Fnum r))), spent 0 now key (limiter_new b (Fnum r)))"
proof -
  let ?l = "limiter_new b (Fnum r)"
  note f = fresh_limiter [OF b r]
  have b53: "b < 2 ^ 53" using b(2) by (rule less_trans) simp
  obtain n where n: "b = Suc n" using b(1) by (cases b) simp_all
  have "checks n key now (spent n now key ?l) = (replicate n Allow, spent 0 now key ?l)"
    using burst_checks [OF f(1,3,4) _ b53, of n] n by simp
  then show "checks b key now ?l = (replicate b Allow, spent 0 now key ?l)"
    using first_charge [OF f(1,2,3) b(1) b53, of key now] n by simp
  show "check_at key now (spent 0 now key ?l) = (Deny (retry_secs (f64_div (Fnum 1) (Fnum r))), spent 0 now key ?l)"
    using next_charge [OF f(1,3,4) _ b53, of 0 key now] by simp
qed

lemma one_too_many:
  assumes "1 \<le> b" "b < 2 ^ 32" "0 < r"
  shows "checks (Suc b) key now (limiter_new b (Fnum r)) =
    (replicate b Allow @ [Deny (retry_secs (f64_div (Fnum 1) (Fnum r)))],
     spent 0 now key (limiter_new b (Fnum r)))"
proof -
  note c = fresh_checks [OF assms, of key now]
  have "checks (b + 1) key now (limiter_new b (Fnum r)) =
      (replicate b Allow @ [Deny (retry_secs (f64_div (Fnum 1) (Fnum r)))],
       spent 0 now key (limiter_new b (Fnum r)))"
    by (rule checks_app [OF c(1)]) (simp only: checks_1 c(2) prod.case)
  then show ?thesis by simp
qed

text \<open>The waits the tests look at.\<close>

lemma whole_waits: "retry_secs (f64_div (Fnum 1) (Fnum (1 / 2))) = 2"
  using f64_of_finite [of 2 2] rnd_nat [of 2] by (simp add: retry_secs_def f64_max_def)

lemma replicate_one: "replicate 1 x @ xs = x # xs"
  by simp

lemma replicate_two: "replicate 2 x = [x, x]"
  by (simp add: numeral_2_eq_2)

lemma f64_max_Fnum: "f64_max (Fnum a) (Fnum b) = Fnum (max a b)"
  by (simp add: f64_max_def max_def)

lemma short_waits: "1 \<le> r \<Longrightarrow> retry_secs (f64_div (Fnum 1) (Fnum r)) = 1"
proof -
  assume r: "1 \<le> r"
  then have x: "0 \<le> 1 / r" "1 / r \<le> real (1 :: nat)" by simp_all
  have "f64_of (1 / r) = Fnum (rnd (1 / r))" by (rule f64_of_finite [OF x]) simp
  moreover have "rnd (1 / r) \<le> 1" "0 \<le> rnd (1 / r)" using rnd_le_nat [OF x] rnd_nonneg [OF x(1)] by simp_all
  moreover have "f64_max (Fnum (of_int \<lceil>y\<rceil>)) (Fnum 1) = Fnum 1" if "y \<le> 1" for y :: real
  proof -
    have "\<lceil>y\<rceil> \<le> 1" using that by (simp add: ceiling_le_iff)
    then show ?thesis by (simp add: f64_max_Fnum)
  qed
  ultimately show ?thesis using r by (simp add: retry_secs_def)
qed

lemma millis_150:
  "1 \<le> rnd (dur_secs 150000000 * 10)" "rnd (dur_secs 150000000 * 10) \<le> 8 / 5"
proof -
  have "dur_secs 150000000 \<le> 3 / 20 * ((1 + eps) * (1 + eps))" using dur_secs_le [of 150000000] by simp
  then have hi: "dur_secs 150000000 * 10 \<le> 31 / 20" by (simp add: eps_def)
  have "3 / 20 * ((1 - eps) * (1 - eps)) \<le> dur_secs 150000000" using dur_secs_lower [of 150000000] by simp
  then have lo: "1 \<le> dur_secs 150000000 * 10" by (simp add: eps_def)
  show "1 \<le> rnd (dur_secs 150000000 * 10)" using rnd_ge_nat [of 1 "dur_secs 150000000 * 10"] lo by simp
  have "dur_secs 150000000 * 10 * eps \<le> 31 / 20 * eps" using hi eps_bounds(1) by (intro mult_right_mono) simp_all
  then have "rnd (dur_secs 150000000 * 10) \<le> 31 / 20 + 31 / 20 * eps + eps"
    using rnd_close [of "dur_secs 150000000 * 10"] hi tiny_bounds(3) by simp
  then show "rnd (dur_secs 150000000 * 10) \<le> 8 / 5" by (simp add: eps_def)
qed

lemma refill_test: "the_bucket_refills_over_time start"
proof -
  let ?l = "limiter_new 2 (Fnum 10)" and ?t = "start + 150000000" and ?x = "dur_secs 150000000 * 10"
  note f = fresh_limiter [of 2 10, simplified]
  let ?s = "spent 0 start ''tok'' ?l"
  have three: "checks 3 ''tok'' start ?l =
      ([Allow, Allow, Deny (retry_secs (f64_div (Fnum 1) (Fnum 10)))], ?s)"
    using one_too_many [of 2 10 "''tok''" start, simplified] by (simp only: Suc_numeral replicate_two) simp
  have s: "limiter_ok ?s" "burst ?s = Fnum 2" "per_second ?s = Fnum 10"
    using spent_ok [of ?l 2 0 start "''tok''"] f by simp_all
  let ?a = "rnd (0 + rnd ?x)"
  have x: "1 \<le> rnd ?x" "rnd ?x \<le> 8 / 5" by (rule millis_150)+
  have a: "1 \<le> ?a" "?a \<le> 2" using x rnd_ge_nat [of 1 "rnd ?x"] rnd_le_nat [of "rnd ?x" 2] by simp_all
  have "rnd ?x * eps \<le> 8 / 5 * eps" using x(2) eps_bounds(1) by (intro mult_right_mono) simp_all
  then have "?a \<le> 8 / 5 + 8 / 5 * eps + eps" using rnd_close [of "rnd ?x"] x tiny_bounds(3) by simp
  then have a': "?a \<le> 17 / 10" by (simp add: eps_def)
  have av: "avail ?s ''tok'' ?t = ?a"
    using avail_eq [OF s(1,3), of "''tok''" "\<lparr>bk_tokens = Fnum 0, bk_last_seen = start\<rparr>" ?t] s(2) a(2)
    by (simp add: spent_def)
  define u where "u = ?s\<lparr>buckets := (buckets ?s)(''tok'' \<mapsto> \<lparr>bk_tokens = Fnum (rnd (?a - 1)), bk_last_seen = ?t\<rparr>)\<rparr>"
  have first: "check_at ''tok'' ?t ?s = (Allow, u)" using av a(1) by (simp add: check_at_eq [OF s(1)] u_def)
  note u = check_at_ok [OF s(1) first]
  let ?b = "rnd (?a - 1)"
  have "(?a - 1) * eps \<le> 7 / 10 * eps" using a' eps_bounds(1) by (intro mult_right_mono) simp_all
  then have "?b \<le> 7 / 10 + 7 / 10 * eps + eps" using rnd_close [of "?a - 1"] a(1) a' tiny_bounds(3) by simp
  then have b: "0 \<le> ?b" "?b \<le> 3 / 4" using a(1) by (simp_all add: eps_def rnd_nonneg)
  have "?b * eps \<le> 3 / 4 * eps" using b(2) eps_bounds(1) by (intro mult_right_mono) simp_all
  then have "rnd ?b \<le> 3 / 4 + 3 / 4 * eps + eps" using rnd_close [OF b(1)] b(2) tiny_bounds(3) by simp
  then have b1: "rnd ?b < 1" by (simp add: eps_def)
  have "avail u ''tok'' ?t \<le> rnd ?b"
    using avail_eq [OF u(1), of 10 "''tok''" "\<lparr>bk_tokens = Fnum ?b, bk_last_seen = ?t\<rparr>" ?t] u(3) s(3)
    by (simp add: u_def)
  then have "fst (check_at ''tok'' ?t u) \<noteq> Allow" using b1 by (simp add: check_at_eq [OF u(1)])
  then have "is_deny (fst (check_at ''tok'' ?t u))" by (cases "fst (check_at ''tok'' ?t u)") simp_all
  then obtain w u' where w: "check_at ''tok'' ?t u = (Deny w, u')"
    by (cases "check_at ''tok'' ?t u"; cases "fst (check_at ''tok'' ?t u)") simp_all
  have "checks 2 ''tok'' ?t ?s = ([Allow, Deny w], u')" by (rule checks_2 [OF first w])
  then show ?thesis by (simp add: the_bucket_refills_over_time_def three)
qed

lemma sweep_test: "the_sweep_evicts_only_idle_buckets start"
proof -
  let ?l = "limiter_new 5 (Fnum 1)"
  note f = fresh_limiter [of 5 1, simplified]
  let ?l1 = "spent 4 start ''old'' ?l" and ?t = "start + IDLE_EVICTION"
  let ?l2 = "spent 4 ?t ''fresh'' ?l1" and ?now = "start + IDLE_EVICTION + 10 ^ 9"
  have 1: "check_at ''old'' start ?l = (Allow, ?l1)" using first_charge [OF f(1,2), of 5] f(3) by simp
  note ok1 = spent_ok [OF f(1), of 5 4 start "''old''", simplified f, simplified]
  have none: "buckets ?l k = None" for k by (simp add: limiter_new_def)
  have 2: "check_at ''fresh'' ?t ?l1 = (Allow, ?l2)"
    using first_charge [OF ok1(1), of "''fresh''" 5 ?t] ok1(2) none by (simp add: spent_def)
  let ?l3 = "sweep_at ?now ?l2"
  have b3: "buckets ?l3 = [''fresh'' \<mapsto> \<lparr>bk_tokens = Fnum 4, bk_last_seen = ?t\<rparr>]"
    using none by (auto simp: fun_eq_iff sweep_at_def spent_def IDLE_EVICTION_def)
  have "buckets ?l2 = [''old'' \<mapsto> \<lparr>bk_tokens = Fnum 4, bk_last_seen = start\<rparr>,
      ''fresh'' \<mapsto> \<lparr>bk_tokens = Fnum 4, bk_last_seen = ?t\<rparr>]"
    using none by (simp add: fun_eq_iff spent_def)
  then have len: "limiter_len ?l2 = 2" "limiter_len ?l3 = 1" using b3 by (simp_all add: limiter_len_def)
  have ok2: "limiter_ok ?l2" using check_at_ok(1) [OF ok1(1) 2] .
  have ok3: "limiter_ok ?l3" by (rule sweep_ok [OF ok2])
  have e: "burst ?l3 = Fnum 5" "per_second ?l3 = Fnum 1" using f by (simp_all add: sweep_at_def spent_def)
  have "dur_secs (10 ^ 9) = 1" using rnd_nat [of 1] by (simp add: dur_secs_def)
  then have "avail ?l3 ''fresh'' ?now = 5"
    using avail_eq [OF ok3 e(2), of "''fresh''" _ ?now] b3 e(1) rnd_nat [of 1] rnd_nat [of 5]
    by simp
  then have "fst (check_at ''fresh'' ?now ?l3) = Allow" unfolding check_at_eq [OF ok3] by (simp only:) simp
  with len show ?thesis by (simp add: the_sweep_evicts_only_idle_buckets_def 1 2)
qed

lemma burst_test: "burst_is_allowed_then_the_bucket_empties now"
proof -
  note c = fresh_checks [of 3 1 "''tok''" now, simplified]
  have "replicate 3 Allow = [Allow, Allow, Allow]" by (simp add: numeral_3_eq_3)
  then show ?thesis
    unfolding burst_is_allowed_then_the_bucket_empties_def c(1) using short_waits [of 1] by (simp add: c(2))
qed

lemma ceiling_test: "refill_never_exceeds_the_burst_ceiling start"
proof -
  note c = fresh_checks [of 5 1000 "''tok''", simplified]
  show ?thesis
    unfolding refill_never_exceeds_the_burst_ceiling_def Let_def c(1) by (simp add: c(2))
qed

lemma isolation_test: "callers_are_isolated_from_each_other now"
proof -
  have x: "0 \<le> (1 / 1000 :: real)" "1 / 1000 \<le> real (1 :: nat)" by simp_all
  have f: "f64_of (1 / 1000) = Fnum (rnd (1 / 1000))" by (rule f64_of_finite [OF x]) simp
  have "\<bar>rnd (1 / 1000) - 1 / 1000\<bar> \<le> 1 / 1000 * eps + eps"
    using rnd_close [of "1 / 1000"] tiny_bounds(3) by simp
  then have r: "0 < rnd (1 / 1000)" by (simp add: eps_def abs_if split: if_splits)
  let ?l = "limiter_new 1 (Fnum (rnd (1 / 1000)))" and ?s = "\<lambda>key. spent 0 now key"
  have b: "(1 :: nat) \<le> 1" "(1 :: nat) < 2 ^ 32" by simp_all
  note c = fresh_checks [OF b r, of "''alice''" now] and h = fresh_limiter [OF b r]
  have ok: "limiter_ok (?s ''alice'' ?l)" "burst (?s ''alice'' ?l) = Fnum (real 1)"
    using spent_ok [OF h(1,3), of 0] by simp_all
  have "buckets (?s ''alice'' ?l) ''bob'' = None" using h(2) [of "''bob''"] by (simp add: spent_def)
  from first_charge [OF ok(1) this ok(2)]
  have bob: "fst (check_at ''bob'' now (?s ''alice'' ?l)) = Allow" by simp
  have "checks 2 ''alice'' now ?l =
      ([Allow, Deny (retry_secs (f64_div (Fnum 1) (Fnum (rnd (1 / 1000)))))], ?s ''alice'' ?l)"
    using one_too_many [OF b r, of "''alice''" now] by (simp only: Suc_1 replicate_one)
  with bob show ?thesis by (simp add: callers_are_isolated_from_each_other_def f)
qed

lemma two_checks:
  assumes "0 < r"
  shows "fst (checks 2 key now (limiter_new 1 (Fnum r))) = [Allow, Deny (retry_secs (f64_div (Fnum 1) (Fnum r)))]"
  using one_too_many [OF _ _ assms, of 1 key now] by (simp only: Suc_1 replicate_one fst_conv) simp

lemma ratelimit_tests:
  "retry_after_reflects_the_refill_rate_and_is_never_zero now"
  "degenerate_settings_fall_back_to_something_usable now"
proof -
  show "retry_after_reflects_the_refill_rate_and_is_never_zero now"
    unfolding retry_after_reflects_the_refill_rate_and_is_never_zero_def
    using two_checks [of "1 / 2" "''tok''" now] two_checks [of 1000 "''t''" now] whole_waits short_waits [of 1000]
    by simp
  have "limiter_new 0 (Fnum 0) = limiter_new 1 (Fnum 1)" by (simp add: limiter_new_def f64_less_def)
  moreover have "fst (check_at ''tok'' now (limiter_new 1 (Fnum 1))) = Allow"
    using first_charge [of "limiter_new 1 (Fnum 1)" "''tok''" 1 now] fresh_limiter [of 1 1] by simp
  ultimately show "degenerate_settings_fall_back_to_something_usable now"
    by (simp add: degenerate_settings_fall_back_to_something_usable_def)
qed

section \<open>\<open>routes/mod.rs\<close>\<close>

text \<open>
  The two tests of the rate limiting layer, over the readings of the clock: an admitted request
  reaches its handler, which is \<open>/healthz\<close> and always answers.
\<close>

definition exhausted_token_gets_429_with_retry_after :: "externals \<Rightarrow> nat \<Rightarrow> nat \<Rightarrow> nat \<Rightarrow> bool" where
  "exhausted_token_gets_429_with_retry_after E t1 t2 t3 =
     (case rate_layer E (Some ''Bearer zpkg_alice'') t1 (Some (limiter_new 1 (f64_of (1 / 1000)))) of (first, lm1) \<Rightarrow>
      case rate_layer E (Some ''Bearer zpkg_alice'') t2 lm1 of (second, lm2) \<Rightarrow>
      case rate_layer E (Some ''Bearer zpkg_bob'') t3 lm2 of (other, _) \<Rightarrow>
        first = Inr () \<and>
        (case second of
           Inr _ \<Rightarrow> False
         | Inl resp \<Rightarrow> resp_status resp = TOO_MANY_REQUESTS \<and>
             (case Option.bind (map_of (resp_headers resp) ''retry-after'') parse_u64 of
                None \<Rightarrow> False
              | Some retry_after \<Rightarrow> retry_after \<ge> 1)) \<and>
        other = Inr ())"

fun layered :: "externals \<Rightarrow> (string option \<times> nat) list \<Rightarrow> limiter option \<Rightarrow> (response + unit) list \<times> limiter option" where
  "layered E [] lm = ([], lm)"
| "layered E ((header, now) # reqs) lm =
     (case rate_layer E header now lm of (r, lm1) \<Rightarrow> (case layered E reqs lm1 of (rs, lm2) \<Rightarrow> (r # rs, lm2)))"

definition anonymous_requests_are_not_token_limited :: "externals \<Rightarrow> nat list \<Rightarrow> nat list \<Rightarrow> bool" where
  "anonymous_requests_are_not_token_limited E hog anon =
     (let lm = snd (layered E (map (\<lambda>t. (Some ''Bearer zpkg_hog'', t)) hog) (Some (limiter_new 1 (f64_of (1 / 1000)))))
      in list_all (\<lambda>r. r = Inr ()) (fst (layered E (map (\<lambda>t. (None, t)) anon) lm)))"

lemma anonymous_test: "anonymous_requests_are_not_token_limited E hog anon"
proof -
  have "fst (layered E (map (\<lambda>t. (None, t)) anon) lm) = map (\<lambda>_. Inr ()) anon" for lm
  proof (induction anon arbitrary: lm)
    case (Cons t anon)
    have "rate_layer E None t lm = (Inr (), lm)" by (simp add: rate_layer_def bearer_token_def split: option.splits)
    then show ?case using Cons by (simp add: prod.case_eq_if)
  qed simp
  then show ?thesis by (simp add: anonymous_requests_are_not_token_limited_def Let_def list_all_iff)
qed

lemma slow_rate:
  "f64_of (1 / 1000) = Fnum (rnd (1 / 1000))" "0 < rnd (1 / 1000)" "rnd (1 / 1000) \<le> 2 / 1000"
proof -
  have x: "0 \<le> (1 / 1000 :: real)" "1 / 1000 \<le> real (1 :: nat)" by simp_all
  show "f64_of (1 / 1000) = Fnum (rnd (1 / 1000))" by (rule f64_of_finite [OF x]) simp
  have "\<bar>rnd (1 / 1000) - 1 / 1000\<bar> \<le> 1 / 1000 * eps + eps"
    using rnd_close [of "1 / 1000"] tiny_bounds(3) by simp
  then show "0 < rnd (1 / 1000)" "rnd (1 / 1000) \<le> 2 / 1000" by (simp_all add: eps_def abs_if split: if_splits)
qed

text \<open>Within a minute such a rate does not make up for a token.\<close>

lemma slow_refill:
  assumes "d \<le> 60 * 10 ^ 9"
  shows "rnd (rnd (dur_secs d * rnd (1 / 1000))) < 1"
proof -
  let ?x = "dur_secs d * rnd (1 / 1000)"
  have "real d / 10 ^ 9 \<le> 60" using assms by simp
  then have "dur_secs d \<le> 60 * ((1 + eps) * (1 + eps))"
    using dur_secs_le [of d] eps_bounds(1) by (meson mult_right_mono order_trans add_nonneg_nonneg mult_nonneg_nonneg zero_le_one less_imp_le)
  then have "dur_secs d \<le> 61" by (simp add: eps_def)
  then have "?x \<le> 61 * (2 / 1000)" using slow_rate(2,3) by (intro mult_mono) simp_all
  moreover have x: "0 \<le> ?x" using slow_rate(2) by simp
  moreover have "?x * eps \<le> 1 * eps" using \<open>?x \<le> _\<close> eps_bounds(1) by (intro mult_right_mono) simp_all
  ultimately have y: "rnd ?x \<le> 1 / 4" "0 \<le> rnd ?x"
    using rnd_close [OF x] tiny_bounds(3) by (simp_all add: eps_def rnd_nonneg)
  have "rnd ?x * eps \<le> 1 * eps" using y eps_bounds(1) by (intro mult_right_mono) simp_all
  then show ?thesis using rnd_close [OF y(2)] y(1) tiny_bounds(3) by (simp add: eps_def)
qed

lemma retry_secs_range: "1 \<le> retry_secs x \<and> retry_secs x \<le> U64_MAX"
proof (cases x)
  case (Fnum y)
  have "retry_secs x \<le> U64_MAX" by (simp add: retry_secs_def Fnum f64_max_def)
  then show ?thesis using retry_secs_bounds(1) [of y] Fnum by blast
qed (simp_all add: retry_secs_def f64_max_def)

lemma layer_test:
  assumes "hash_token E ''zpkg_alice'' \<noteq> hash_token E ''zpkg_bob''" "t2 \<le> t1 + 60 * 10 ^ 9"
  shows "exhausted_token_gets_429_with_retry_after E t1 t2 t3"
proof -
  let ?l = "limiter_new 1 (Fnum (rnd (1 / 1000)))"
  let ?a = "hash_token E ''zpkg_alice''" and ?b = "hash_token E ''zpkg_bob''"
  have bearer: "bearer_token (Some ''Bearer zpkg_alice'') = Some ''zpkg_alice''"
    "bearer_token (Some ''Bearer zpkg_bob'') = Some ''zpkg_bob''" by code_simp+
  have b: "(1 :: nat) \<le> 1" "(1 :: nat) < 2 ^ 32" "(1 :: nat) < 2 ^ 53" by simp_all
  note h = fresh_limiter [OF b(1,2) slow_rate(2)]
  let ?s = "spent 0 t1 ?a ?l"
  have first: "check_at ?a t1 ?l = (Allow, ?s)" using first_charge [OF h(1,2,3) b(1,3)] by simp
  have s: "limiter_ok ?s" "burst ?s = Fnum 1" "per_second ?s = Fnum (rnd (1 / 1000))"
    using spent_ok [OF h(1,3), of 0] h(4) by simp_all
  have d: "t2 - t1 \<le> DURATION_MAX" "t2 - t1 \<le> 60 * 10 ^ 9" using assms(2) by simp_all
  have av: "avail ?s ?a t2 < 1"
    using avail_eq [OF s(1,3), of ?a _ t2] d(1) slow_refill [OF d(2)] by (simp add: spent_def)
  define x where "x = f64_div (f64_of (1 - avail ?s ?a t2)) (Fnum (rnd (1 / 1000)))"
  obtain l2 where second: "check_at ?a t2 ?s = (Deny (retry_secs x), l2)" and l2: "l2 =
      ?s\<lparr>buckets := (buckets ?s)(?a \<mapsto> \<lparr>bk_tokens = Fnum (avail ?s ?a t2), bk_last_seen = t2\<rparr>)\<rparr>"
    using av s(3) unfolding check_at_eq [OF s(1)] x_def by simp
  note ok2 = check_at_ok [OF s(1) second]
  have "buckets l2 ?b = None" using l2 assms(1) h(2) [of ?b] by (simp add: spent_def)
  from first_charge [OF ok2(1) this _ b(1,3)] s(2) ok2(2)
  have third: "fst (check_at ?b t3 l2) = Allow" by simp
  have retry: "1 \<le> retry_secs x" "parse_u64 (nat_str (retry_secs x)) = Some (retry_secs x)"
    using retry_secs_range [of x] by (simp_all add: parse_u64_def parse_nat_str)
  have 1: "rate_layer E (Some ''Bearer zpkg_alice'') t1 (Some (limiter_new 1 (f64_of (1 / 1000)))) = (Inr (), Some ?s)"
    by (simp only: rate_layer_def option.case bearer first slow_rate(1) prod.case decision.case)
  have 2: "rate_layer E (Some ''Bearer zpkg_alice'') t2 (Some ?s) = (Inl (rate_limited (retry_secs x)), Some l2)"
    by (simp only: rate_layer_def option.case bearer second prod.case decision.case)
  have 3: "fst (rate_layer E (Some ''Bearer zpkg_bob'') t3 (Some l2)) = Inr ()"
    using third by (simp add: rate_layer_def bearer prod.case_eq_if)
  show ?thesis
    unfolding exhausted_token_gets_429_with_retry_after_def 1 prod.case 2
    using 3 retry by (simp add: prod.case_eq_if rate_limited_def)
qed

end
