(* ===== verification/Chain_Tests.thy ===== *)
theory Chain_Tests
  imports Audit_Props
begin

text \<open>
  The unit tests of \<open>src/audit.rs\<close>, run on the model of the chain and its verifier. Each test is
  the conjunction of its assertions, over the organization, the draws \<open>u\<close> of
  \<open>Uuid::new_v4()\<close> and the readings \<open>now\<close> of the clock; it passes, or the digest collides on the
  two inputs the test tells apart.
\<close>

section \<open>The fixtures\<close>

definition token_fixture :: "uuid \<Rightarrow> timestamp \<Rightarrow> uuid option \<Rightarrow> string \<Rightarrow> token_row" where
  "token_fixture i now org role =
     \<lparr>t_id = i, t_name = ''t'', t_hash = ''h'', t_org = org, t_role = role, t_created_at = now,
      t_expires_at = None, t_revoked_at = None\<rparr>"

definition chained_row ::
    "externals \<Rightarrow> uuid \<Rightarrow> (nat \<Rightarrow> uuid) \<Rightarrow> (nat \<Rightarrow> timestamp) \<Rightarrow> nat \<Rightarrow> string \<Rightarrow> audit_row" where
  "chained_row E org u now n prev =
     (let row = \<lparr>a_id = u (2 * n), a_org = org, a_at = chain_timestamp (now n), a_action = ''publish'',
          a_subject = ''acme/pkg@1.0.'' @ nat_str n, a_token_id = Some (u (2 * n + 1)),
          a_token_name = ''ci'', a_role = ''publisher'', a_detail = None, a_seq = int n, a_hash = [],
          a_prev = (if prev = [] then None else Some prev)\<rparr>
      in row\<lparr>a_hash := expected_hash E row prev\<rparr>)"

text \<open>The rows \<open>n\<close>, \<open>n + 1\<close>, \<dots>, after the hash \<open>prev\<close>; the fixture starts at 1 with none.\<close>

fun chained_from ::
    "externals \<Rightarrow> uuid \<Rightarrow> (nat \<Rightarrow> uuid) \<Rightarrow> (nat \<Rightarrow> timestamp) \<Rightarrow> nat \<Rightarrow> string \<Rightarrow> nat \<Rightarrow> audit_row list" where
  "chained_from E org u now n prev 0 = []"
| "chained_from E org u now n prev (Suc k) =
     (let row = chained_row E org u now n prev
      in row # chained_from E org u now (Suc n) (a_hash row) k)"

definition chained_rows ::
    "externals \<Rightarrow> uuid \<Rightarrow> (nat \<Rightarrow> uuid) \<Rightarrow> (nat \<Rightarrow> timestamp) \<Rightarrow> nat \<Rightarrow> audit_row list" where
  "chained_rows E org u now k = chained_from E org u now 1 [] k"

definition legacy_row :: "uuid \<Rightarrow> uuid \<Rightarrow> timestamp \<Rightarrow> audit_row" where
  "legacy_row i org now =
     \<lparr>a_id = i, a_org = org, a_at = chain_timestamp now, a_action = ''publish'',
      a_subject = ''acme/old@0.1.0'', a_token_id = None, a_token_name = ''legacy'', a_role = ''owner'',
      a_detail = None, a_seq = 0, a_hash = [], a_prev = None\<rparr>"

section \<open>The tests\<close>

definition admin_tokens_are_labelled_admin :: "uuid \<Rightarrow> timestamp \<Rightarrow> uuid \<Rightarrow> bool" where
  "admin_tokens_are_labelled_admin i now org \<longleftrightarrow>
     actor_role (token_fixture i now None ''owner'') = ADMIN_ROLE \<and>
     actor_role (token_fixture i now (Some org) ''publisher'') = ''publisher''"

definition an_untouched_chain_verifies ::
    "externals \<Rightarrow> uuid \<Rightarrow> (nat \<Rightarrow> uuid) \<Rightarrow> (nat \<Rightarrow> timestamp) \<Rightarrow> bool" where
  "an_untouched_chain_verifies E org u now =
     (let rows = chained_rows E org u now 5; report = verify_chain E rows
      in rep_intact report \<and> rep_checked report = 5 \<and> rep_head report = Some (a_hash (last rows)))"

definition edits :: "(audit_row \<Rightarrow> audit_row) list" where
  "edits =
     [\<lambda>r. r\<lparr>a_subject := ''acme/evil@9.9.9''\<rparr>, \<lambda>r. r\<lparr>a_action := ''unyank''\<rparr>,
      \<lambda>r. r\<lparr>a_token_name := ''someone-else''\<rparr>, \<lambda>r. r\<lparr>a_role := ''reader''\<rparr>,
      \<lambda>r. r\<lparr>a_detail := Some ''sha256=deadbeef''\<rparr>]"

definition editing_an_entry_is_detected ::
    "externals \<Rightarrow> uuid \<Rightarrow> (nat \<Rightarrow> uuid) \<Rightarrow> (nat \<Rightarrow> timestamp) \<Rightarrow> (audit_row \<Rightarrow> audit_row) \<Rightarrow> bool" where
  "editing_an_entry_is_detected E org u now mutate =
     (let rows = chained_rows E org u now 4; report = verify_chain E (rows[1 := mutate (rows ! 1)])
      in \<not> rep_intact report \<and> rep_first_bad report = Some 2 \<and> rep_problem report = Some HashMismatch)"

definition deleting_an_entry_is_detected ::
    "externals \<Rightarrow> uuid \<Rightarrow> (nat \<Rightarrow> uuid) \<Rightarrow> (nat \<Rightarrow> timestamp) \<Rightarrow> bool" where
  "deleting_an_entry_is_detected E org u now =
     (let rows = chained_rows E org u now 5; report = verify_chain E (take 2 rows @ drop 3 rows)
      in \<not> rep_intact report \<and> rep_problem report = Some SequenceGap \<and> rep_first_bad report = Some 3 \<and>
         rep_checked report = 2)"

definition truncating_the_tail_still_verifies_but_moves_the_head ::
    "externals \<Rightarrow> uuid \<Rightarrow> (nat \<Rightarrow> uuid) \<Rightarrow> (nat \<Rightarrow> timestamp) \<Rightarrow> bool" where
  "truncating_the_tail_still_verifies_but_moves_the_head E org u now =
     (let rows = chained_rows E org u now 5; full_head = rep_head (verify_chain E rows);
          truncated = verify_chain E (take 3 rows)
      in rep_intact truncated \<and> rep_head truncated \<noteq> full_head)"

definition a_rewritten_link_is_reported_as_a_broken_link ::
    "externals \<Rightarrow> uuid \<Rightarrow> (nat \<Rightarrow> uuid) \<Rightarrow> (nat \<Rightarrow> timestamp) \<Rightarrow> bool" where
  "a_rewritten_link_is_reported_as_a_broken_link E org u now =
     (let rows = chained_rows E org u now 4; forged_prev = replicate 64 CHR ''0'';
          r = (rows ! 2)\<lparr>a_prev := Some forged_prev\<rparr>;
          report = verify_chain E (rows[2 := r\<lparr>a_hash := expected_hash E r forged_prev\<rparr>])
      in \<not> rep_intact report \<and> rep_first_bad report = Some 3 \<and> rep_problem report = Some BrokenLink)"

definition legacy_unchained_rows_do_not_report_tampering ::
    "externals \<Rightarrow> uuid \<Rightarrow> uuid \<Rightarrow> timestamp \<Rightarrow> (nat \<Rightarrow> uuid) \<Rightarrow> (nat \<Rightarrow> timestamp) \<Rightarrow> bool" where
  "legacy_unchained_rows_do_not_report_tampering E org i t u now =
     (let report = verify_chain E (legacy_row i org t # chained_rows E org u now 3)
      in rep_intact report \<and> rep_checked report = 3)"

definition an_empty_chain_is_intact :: "externals \<Rightarrow> bool" where
  "an_empty_chain_is_intact E =
     (let report = verify_chain E []
      in rep_intact report \<and> rep_checked report = 0 \<and> rep_head report = None)"

section \<open>They pass\<close>

text \<open>What the fixture promises: each row hashes itself and its predecessor, in order.\<close>

fun linked :: "externals \<Rightarrow> nat \<Rightarrow> string \<Rightarrow> audit_row list \<Rightarrow> bool" where
  "linked E n prev [] \<longleftrightarrow> True"
| "linked E n prev (r # rs) \<longleftrightarrow>
     a_seq r = int n \<and> a_hash r = expected_hash E r prev \<and> or_empty (a_prev r) = prev \<and>
     a_action r = ''publish'' \<and> a_subject r = ''acme/pkg@1.0.'' @ nat_str n \<and> a_token_name r = ''ci'' \<and>
     a_role r = ''publisher'' \<and> a_detail r = None \<and> linked E (Suc n) (a_hash r) rs"

lemma expected_hash_cong:
  "row_input E r p = row_input E r' p \<Longrightarrow> expected_hash E r p = expected_hash E r' p"
  by (simp add: expected_hash_def)

lemma row_input_hash [simp]:
  "row_input E (r\<lparr>a_hash := h\<rparr>) p = row_input E r p" "row_input E (r\<lparr>a_prev := q\<rparr>) p = row_input E r p"
  "expected_hash E (r\<lparr>a_hash := h\<rparr>) p = expected_hash E r p"
  "expected_hash E (r\<lparr>a_prev := q\<rparr>) p = expected_hash E r p"
  by (simp_all add: row_input_def expected_hash_def)

lemma linked_from: "linked E n prev (chained_from E org u now n prev k)"
proof (induction k arbitrary: n prev)
  case (Suc k)
  have "expected_hash E (chained_row E org u now n prev) prev = a_hash (chained_row E org u now n prev)"
    unfolding chained_row_def Let_def row_input_hash by simp
  then show ?case using Suc by (simp add: Let_def) (simp add: chained_row_def or_empty_def)
qed simp

lemma length_chained [simp]: "length (chained_from E org u now n prev k) = k"
  by (induction k arbitrary: n prev) (simp_all add: Let_def)

lemma rows_of:
  shows "linked E 1 [] (chained_rows E org u now k)" "length (chained_rows E org u now k) = k"
  by (simp_all add: chained_rows_def linked_from)

lemma linked_chain:
  "linked E n prev rows \<Longrightarrow> want = None \<or> want = Some (int n) \<Longrightarrow> chain_ok E prev want rows"
  by (induction E n prev rows arbitrary: want rule: linked.induct) (auto simp: add.commute)

lemma linked_chained:
  "linked E n prev rows \<Longrightarrow> (\<And>s. sha256_hex E s \<noteq> []) \<Longrightarrow> 0 < n \<Longrightarrow> \<forall>r\<in>set rows. chained r"
  by (induction E n prev rows rule: linked.induct) (auto simp: chained_def expected_hash_def entry_digest_def)

text \<open>Rows of a fixture by name, with what is known of each.\<close>

lemma three_rows:
  assumes "length rows = 3"
  obtains r1 r2 r3 where "rows = [r1, r2, r3]"
  using assms by (auto simp: length_Suc_conv numeral_3_eq_3)

lemma four_rows:
  assumes "length rows = 4"
  obtains r1 r2 r3 r4 where "rows = [r1, r2, r3, r4]"
proof -
  obtain r1 rest where "rows = r1 # rest" "length rest = 3" using assms by (cases rows) auto
  with that three_rows [of rest] show thesis by metis
qed

lemma five_rows:
  assumes "length rows = 5"
  obtains r1 r2 r3 r4 r5 where "rows = [r1, r2, r3, r4, r5]"
proof -
  obtain r1 rest where "rows = r1 # rest" "length rest = 4" using assms by (cases rows) auto
  with that four_rows [of rest] show thesis by metis
qed

lemma actor_test: "admin_tokens_are_labelled_admin i now org"
  by (simp add: admin_tokens_are_labelled_admin_def token_fixture_def actor_role_def)

lemma empty_test: "an_empty_chain_is_intact E"
  by (simp add: an_empty_chain_is_intact_def verify_chain_def)

lemma linked_report:
  assumes "linked E 1 [] rows" "\<And>s. sha256_hex E s \<noteq> []" "rows \<noteq> []"
  shows "verify_chain E rows =
     \<lparr>rep_intact = True, rep_checked = length rows, rep_first_bad = None, rep_problem = None,
      rep_head = Some (a_hash (last rows))\<rparr>"
  using linked_chain [OF assms(1), of None] linked_chained [OF assms(1,2)] assms(3)
  by (simp add: verify_chain_def filter_chained_id verify_loop_ok)

lemma fixture_report:
  assumes "\<And>s. sha256_hex E s \<noteq> []" "0 < k"
  shows "verify_chain E (chained_rows E org u now k) =
     \<lparr>rep_intact = True, rep_checked = k, rep_first_bad = None, rep_problem = None,
      rep_head = Some (a_hash (last (chained_rows E org u now k)))\<rparr>"
proof -
  have "chained_rows E org u now k \<noteq> []" using rows_of(2) [of E org u now k] assms(2) by auto
  from linked_report [OF rows_of(1) assms(1) this] show ?thesis unfolding rows_of(2) .
qed

lemma untouched_test:
  "(\<And>s. sha256_hex E s \<noteq> []) \<Longrightarrow> an_untouched_chain_verifies E org u now"
  by (simp add: an_untouched_chain_verifies_def Let_def fixture_report)

lemma legacy_test:
  assumes "\<And>s. sha256_hex E s \<noteq> []"
  shows "legacy_unchained_rows_do_not_report_tampering E org i t u now"
proof -
  have "\<not> chained (legacy_row i org t)" by (simp add: legacy_row_def chained_def)
  then have "verify_chain E (legacy_row i org t # chained_rows E org u now 3) = verify_chain E (chained_rows E org u now 3)"
    by (simp add: verify_chain_def)
  then show ?thesis
    by (simp add: legacy_unchained_rows_do_not_report_tampering_def Let_def fixture_report [OF assms])
qed

lemma deletion_test:
  assumes ne: "\<And>s. sha256_hex E s \<noteq> []"
  shows "deleting_an_entry_is_detected E org u now"
proof -
  obtain r1 r2 r3 r4 r5 where rows: "chained_rows E org u now 5 = [r1, r2, r3, r4, r5]"
    using rows_of(2) [of E org u now 5] by (rule five_rows)
  have l: "linked E 1 [] [r1, r2, r3, r4, r5]" unfolding rows [symmetric] by (rule rows_of)
  have "\<forall>r\<in>set [r1, r2, r3, r4, r5]. chained r" using linked_chained [OF l ne] by simp
  then show ?thesis
    using l by (simp add: deleting_an_entry_is_detected_def Let_def rows verify_chain_def)
qed

lemma edit_test:
  fixes E org u now
  defines "rows \<equiv> chained_rows E org u now 4"
  assumes ne: "\<And>s. sha256_hex E s \<noteq> []" and m: "mutate \<in> set edits"
    and dg: "\<not> collision E (row_input E (mutate (rows ! 1)) (a_hash (rows ! 0))) (row_input E (rows ! 1) (a_hash (rows ! 0)))"
  shows "editing_an_entry_is_detected E org u now mutate"
proof -
  obtain r1 r2 r3 r4 where rows: "chained_rows E org u now 4 = [r1, r2, r3, r4]"
    using rows_of(2) [of E org u now 4] by (rule four_rows)
  have l: "linked E 1 [] [r1, r2, r3, r4]" unfolding rows [symmetric] by (rule rows_of)
  have c: "\<forall>r\<in>set [r1, r2, r3, r4]. chained r" using linked_chained [OF l ne] by simp
  have same: "a_seq (mutate r2) = a_seq r2" "a_hash (mutate r2) = a_hash r2" "a_prev (mutate r2) = a_prev r2"
    using m by (auto simp: edits_def)
  then have c2: "chained (mutate r2)" using c by (simp add: chained_def)
  have "row_input E (mutate r2) (a_hash r1) \<noteq> row_input E r2 (a_hash r1)"
    using m l by (auto simp: edits_def row_input_def)
  then have "expected_hash E (mutate r2) (a_hash r1) \<noteq> expected_hash E r2 (a_hash r1)"
    using dg by (simp add: collision_def expected_hash_def rows_def rows)
  with l c c2 same show ?thesis
    by (simp add: editing_an_entry_is_detected_def Let_def rows verify_chain_def)
qed

lemma truncation_test:
  fixes E org u now
  defines "rows \<equiv> chained_rows E org u now 5"
  assumes ne: "\<And>s. sha256_hex E s \<noteq> []"
    and dg: "\<not> collision E (row_input E (rows ! 2) (a_hash (rows ! 1))) (row_input E (rows ! 4) (a_hash (rows ! 3)))"
  shows "truncating_the_tail_still_verifies_but_moves_the_head E org u now"
proof -
  obtain r1 r2 r3 r4 r5 where rows: "chained_rows E org u now 5 = [r1, r2, r3, r4, r5]"
    using rows_of(2) [of E org u now 5] by (rule five_rows)
  have l: "linked E 1 [] [r1, r2, r3, r4, r5]" unfolding rows [symmetric] by (rule rows_of)
  have l3: "linked E 1 [] [r1, r2, r3]" using l by simp
  have "row_input E r3 (a_hash r2) \<noteq> row_input E r5 (a_hash r4)"
    using l by (auto simp: row_input_def as_u64_def)
  then have "a_hash r3 \<noteq> a_hash r5"
    using dg l by (simp add: collision_def expected_hash_def rows_def rows)
  with linked_report [OF l ne] linked_report [OF l3 ne] show ?thesis
    by (simp add: truncating_the_tail_still_verifies_but_moves_the_head_def Let_def rows)
qed

lemma rewritten_link_test:
  fixes E org u now
  defines "rows \<equiv> chained_rows E org u now 4"
  assumes ne: "\<And>s. sha256_hex E s \<noteq> []" and forged: "a_hash (rows ! 1) \<noteq> replicate 64 CHR ''0''"
    and dg: "\<not> collision E (row_input E (rows ! 2) (a_hash (rows ! 1))) (row_input E (rows ! 2) (replicate 64 CHR ''0''))"
  shows "a_rewritten_link_is_reported_as_a_broken_link E org u now"
proof -
  obtain r1 r2 r3 r4 where rows: "chained_rows E org u now 4 = [r1, r2, r3, r4]"
    using rows_of(2) [of E org u now 4] by (rule four_rows)
  have l: "linked E 1 [] [r1, r2, r3, r4]" unfolding rows [symmetric] by (rule rows_of)
  have c: "\<forall>r\<in>set [r1, r2, r3, r4]. chained r" using linked_chained [OF l ne] by simp
  define f where "f = replicate 64 CHR ''0''"
  define r where "r = r3\<lparr>a_prev := Some f\<rparr>"
  define r' where "r' = r\<lparr>a_hash := expected_hash E r f\<rparr>"
  have r': "a_seq r' = 3" "a_hash r' = expected_hash E r' f" "a_prev r' = Some f"
    "\<And>p. row_input E r' p = row_input E r3 p"
    using l by (simp_all add: r'_def r_def)
  have "chained r'" using r'(1,2) ne by (simp add: chained_def expected_hash_def entry_digest_def)
  moreover have "row_input E r3 (a_hash r2) \<noteq> row_input E r3 f"
    using forged by (auto simp: row_input_def rows_def rows f_def)
  then have "expected_hash E r' (a_hash r2) \<noteq> a_hash r'"
    using dg r'(2,4) by (simp add: collision_def expected_hash_def rows_def rows f_def)
  ultimately have "verify_chain E [r1, r2, r', r4] =
      \<lparr>rep_intact = False, rep_checked = 2, rep_first_bad = Some 3, rep_problem = Some BrokenLink,
       rep_head = Some (a_hash r2)\<rparr>"
    using l c r'(1,2,3) by (simp add: verify_chain_def or_empty_def)
  then show ?thesis
    by (simp add: a_rewritten_link_is_reported_as_a_broken_link_def Let_def rows r'_def r_def f_def)
qed

end
