(* ===== verification/Metrics.thy ===== *)
theory Metrics
  imports Prelude "HOL-Library.List_Lexorder" "HOL-Library.Char_ord"
begin

text \<open>
  \<open>src/metrics.rs\<close>: per-route counters with a cumulative latency histogram, the gauges of the
  attached store, and their Prometheus text. The module is in the repository and is not compiled
  into the server (\<open>main.rs\<close> does not declare it). It refers to a \<open>Storage\<close> trait the repository
  no longer has: what \<open>stats()\<close> and \<open>utilization_ratio()\<close> answer is a parameter.

  Counters are \<open>nat\<close> with the saturation of \<open>u64\<close> and \<open>u128\<close> written out; a duration is its
  nanoseconds. A \<open>BTreeMap\<close> is the list of its entries in key order.
\<close>

section \<open>The counters of one route\<close>

definition LATENCY_BUCKETS_MS :: "nat list" where
  "LATENCY_BUCKETS_MS = [1, 5, 10, 25, 50, 100, 250, 500, 1000, 2500, 5000]"

record route_metrics =
  requests_total :: nat
  errors_total :: nat
  latency_buckets :: "nat list"
  latency_sum_ms :: nat

definition route_metrics_new :: route_metrics where
  "route_metrics_new =
     \<lparr>requests_total = 0, errors_total = 0,
      latency_buckets = replicate (length LATENCY_BUCKETS_MS) 0, latency_sum_ms = 0\<rparr>"

definition as_millis :: "nat \<Rightarrow> nat" where
  "as_millis nanos = nanos div 1000000"

abbreviation U128_MAX :: nat where "U128_MAX \<equiv> 2 ^ 128 - 1"

definition saturating_add_u128 :: "nat \<Rightarrow> nat \<Rightarrow> nat" where
  "saturating_add_u128 a b = min (a + b) U128_MAX"

text \<open>One round of the loop over the bounds; the invariant below keeps its index in range.\<close>

definition bump_bucket :: "nat \<Rightarrow> nat \<times> nat \<Rightarrow> nat list \<Rightarrow> nat list" where
  "bump_bucket millis = (\<lambda>(index, bound) buckets.
     if millis \<le> bound then buckets[index := saturating_add_u64 (buckets ! index) 1] else buckets)"

definition observe_route :: "nat \<Rightarrow> nat \<Rightarrow> route_metrics \<Rightarrow> route_metrics" where
  "observe_route status latency m =
     (let millis = as_millis latency in
      \<lparr>requests_total = saturating_add_u64 (requests_total m) 1,
       errors_total =
         (if status \<ge> 400 then saturating_add_u64 (errors_total m) 1 else errors_total m),
       latency_buckets =
         fold (bump_bucket millis) (enumerate 0 LATENCY_BUCKETS_MS) (latency_buckets m),
       latency_sum_ms = saturating_add_u128 (latency_sum_ms m) millis\<rparr>)"

section \<open>The shared registry of counters\<close>

text \<open>\<open>entry(key).or_insert_with(new)\<close> followed by an update of the value.\<close>

fun btree_entry :: "'k::linorder \<Rightarrow> 'v \<Rightarrow> ('v \<Rightarrow> 'v) \<Rightarrow> ('k \<times> 'v) list \<Rightarrow> ('k \<times> 'v) list" where
  "btree_entry k new f [] = [(k, f new)]"
| "btree_entry k new f ((j, v) # xs) =
     (if k < j then (k, f new) # (j, v) # xs
      else if k = j then (k, f v) # xs
      else (j, v) # btree_entry k new f xs)"

record 's app_metrics =
  route_counters :: "(string \<times> route_metrics) list"
  attached :: "'s option"

definition metrics_default :: "'s app_metrics" where
  "metrics_default = \<lparr>route_counters = [], attached = None\<rparr>"

definition attach_storage :: "'s \<Rightarrow> 's app_metrics \<Rightarrow> 's app_metrics" where
  "attach_storage s m = m\<lparr>attached := Some s\<rparr>"

definition observe :: "string \<Rightarrow> nat \<Rightarrow> nat \<Rightarrow> 's app_metrics \<Rightarrow> 's app_metrics" where
  "observe route status latency m =
     m\<lparr>route_counters :=
         btree_entry route route_metrics_new (observe_route status latency) (route_counters m)\<rparr>"

record storage_stats =
  st_backend :: string
  st_object_count :: "nat option"
  st_used_bytes :: "nat option"
  st_capacity_bytes :: "nat option"

record metrics_snapshot =
  snap_routes :: "(string \<times> route_metrics) list"
  snap_storage :: "storage_stats option"

definition snapshot :: "('s \<Rightarrow> storage_stats) \<Rightarrow> 's app_metrics \<Rightarrow> metrics_snapshot" where
  "snapshot stats m =
     \<lparr>snap_routes = route_counters m,
      snap_storage = map_option stats (attached m)\<rparr>"

section \<open>The Prometheus text\<close>

definition escape_label :: "string \<Rightarrow> string" where
  "escape_label v =
     replace_char (CHR 0x0A) [CHR 0x5C, CHR ''n'']
       (replace_char (CHR 0x22) [CHR 0x5C, CHR 0x22]
          (replace_char (CHR 0x5C) [CHR 0x5C, CHR 0x5C] v))"

definition quoted :: "string \<Rightarrow> string" where
  "quoted s = [CHR 0x22] @ s @ [CHR 0x22]"

definition help_text :: string where
  "help_text = concat (map (\<lambda>l. l @ [CHR 0x0A])
     [''# HELP zed_registry_http_requests_total Total HTTP requests handled by route.'',
      ''# TYPE zed_registry_http_requests_total counter'',
      ''# HELP zed_registry_http_errors_total Total HTTP responses with status >= 400 by route.'',
      ''# TYPE zed_registry_http_errors_total counter'',
      ''# HELP zed_registry_http_request_duration_ms HTTP request latency by route in milliseconds.'',
      ''# TYPE zed_registry_http_request_duration_ms histogram'',
      ''# HELP zed_registry_artifact_storage_backend_info Active artifact storage backend.'',
      ''# TYPE zed_registry_artifact_storage_backend_info gauge'',
      ''# HELP zed_registry_artifact_storage_objects Current number of content-addressed artifact objects held by the backend when available.'',
      ''# TYPE zed_registry_artifact_storage_objects gauge'',
      ''# HELP zed_registry_artifact_storage_bytes Current artifact bytes held by the backend when available.'',
      ''# TYPE zed_registry_artifact_storage_bytes gauge'',
      ''# HELP zed_registry_artifact_storage_capacity_bytes Configured artifact byte capacity when bounded and available.'',
      ''# TYPE zed_registry_artifact_storage_capacity_bytes gauge'',
      ''# HELP zed_registry_artifact_storage_utilization_ratio Artifact byte utilization divided by configured capacity when bounded and available.'',
      ''# TYPE zed_registry_artifact_storage_utilization_ratio gauge''])"

definition sample :: "string \<Rightarrow> string \<Rightarrow> string \<Rightarrow> string" where
  "sample name labels value = name @ ''{'' @ labels @ ''} '' @ value @ [CHR 0x0A]"

definition bucket_count :: "route_metrics \<Rightarrow> nat \<Rightarrow> nat" where
  "bucket_count m index =
     (if index < length (latency_buckets m) then latency_buckets m ! index else 0)"

definition render_route :: "string \<Rightarrow> route_metrics \<Rightarrow> string" where
  "render_route route m =
     (let label = ''route='' @ quoted (escape_label route);
          le = (\<lambda>bound. label @ '',le='' @ quoted bound)
      in sample ''zed_registry_http_requests_total'' label (nat_str (requests_total m))
         @ sample ''zed_registry_http_errors_total'' label (nat_str (errors_total m))
         @ concat (map (\<lambda>(index, bound).
             sample ''zed_registry_http_request_duration_ms_bucket'' (le (nat_str bound))
               (nat_str (bucket_count m index))) (enumerate 0 LATENCY_BUCKETS_MS))
         @ sample ''zed_registry_http_request_duration_ms_bucket'' (le ''+Inf'')
             (nat_str (requests_total m))
         @ sample ''zed_registry_http_request_duration_ms_sum'' label (nat_str (latency_sum_ms m))
         @ sample ''zed_registry_http_request_duration_ms_count'' label
             (nat_str (requests_total m)))"

text \<open>\<open>ratio\<close> is the text of \<open>utilization_ratio()\<close>, when there is one.\<close>

definition render_storage :: "(storage_stats \<Rightarrow> string option) \<Rightarrow> storage_stats \<Rightarrow> string" where
  "render_storage ratio s =
     (let label = ''backend='' @ quoted (escape_label (st_backend s));
          gauge = (\<lambda>name v. case v of None \<Rightarrow> [] | Some x \<Rightarrow> sample name label x)
      in sample ''zed_registry_artifact_storage_backend_info'' label ''1''
         @ gauge ''zed_registry_artifact_storage_objects'' (map_option nat_str (st_object_count s))
         @ gauge ''zed_registry_artifact_storage_bytes'' (map_option nat_str (st_used_bytes s))
         @ gauge ''zed_registry_artifact_storage_capacity_bytes''
             (map_option nat_str (st_capacity_bytes s))
         @ gauge ''zed_registry_artifact_storage_utilization_ratio'' (ratio s))"

definition render_prometheus :: "(storage_stats \<Rightarrow> string option) \<Rightarrow> metrics_snapshot \<Rightarrow> string" where
  "render_prometheus ratio snap =
     help_text @ concat (map (\<lambda>(route, m). render_route route m) (snap_routes snap))
     @ (case snap_storage snap of None \<Rightarrow> [] | Some s \<Rightarrow> render_storage ratio s)"

section \<open>The map of routes\<close>

lemma btree_entry_keys:
  "set (map fst (btree_entry k new f xs)) = insert k (set (map fst xs))"
  by (induction k new f xs rule: btree_entry.induct) auto

lemma btree_entry_sorted:
  "sorted_wrt (<) (map fst xs) \<Longrightarrow> sorted_wrt (<) (map fst (btree_entry k new f xs))"
proof (induction k new f xs rule: btree_entry.induct)
  case (2 k new f j v xs)
  then have "\<forall>x\<in>insert k (set (map fst xs)). j < x \<or> k \<le> j" by auto
  with 2 show ?case using btree_entry_keys [of k new f xs] by (auto simp del: set_map)
qed simp

lemma btree_entry_map_of:
  assumes "sorted_wrt (<) (map fst xs)"
  shows "map_of (btree_entry k new f xs) =
     (map_of xs)(k \<mapsto> f (case map_of xs k of None \<Rightarrow> new | Some v \<Rightarrow> v))"
  using assms
proof (induction k new f xs rule: btree_entry.induct)
  case (2 k new f j v xs)
  have "map_of xs k = None" if "k < j"
    using 2(2) that by (auto simp: map_of_eq_None_iff)
  with 2 show ?case by (auto simp: fun_upd_twist)
qed simp

section \<open>The loop over the buckets\<close>

lemma bump_buckets:
  assumes "length buckets = off + length bounds"
  shows "fold (bump_bucket millis) (enumerate off bounds) buckets =
     take off buckets @
     map2 (\<lambda>bound c. if millis \<le> bound then saturating_add_u64 c 1 else c) bounds (drop off buckets)"
  using assms
proof (induction bounds arbitrary: off buckets)
  case (Cons b bs)
  let ?c = "buckets ! off"
  let ?v = "if millis \<le> b then saturating_add_u64 ?c 1 else ?c"
  have off: "off < length buckets" using Cons.prems by simp
  have step: "bump_bucket millis (off, b) buckets = buckets[off := ?v]"
    by (simp add: bump_bucket_def)
  have "fold (bump_bucket millis) (enumerate off (b # bs)) buckets =
      fold (bump_bucket millis) (enumerate (Suc off) bs) (buckets[off := ?v])"
    using step by simp
  also have "\<dots> = take (Suc off) (buckets[off := ?v]) @
     map2 (\<lambda>bound c. if millis \<le> bound then saturating_add_u64 c 1 else c) bs (drop (Suc off) (buckets[off := ?v]))"
    by (rule Cons.IH) (use Cons.prems in simp)
  also have "\<dots> = take off buckets @
     map2 (\<lambda>bound c. if millis \<le> bound then saturating_add_u64 c 1 else c) (b # bs) (drop off buckets)"
    using off by (simp add: take_Suc_conv_app_nth Cons_nth_drop_Suc [symmetric])
  finally show ?case .
qed simp

section \<open>What the counters count\<close>

text \<open>The responses of one route, in order: status and latency.\<close>

definition seen :: "string \<Rightarrow> (string \<times> nat \<times> nat) list \<Rightarrow> (nat \<times> nat) list" where
  "seen route obs = map snd (filter (\<lambda>o'. fst o' = route) obs)"

text \<open>The reference: exact counts of a list of responses, capped at the width of the counters.\<close>

definition counted :: "(nat \<times> nat) list \<Rightarrow> route_metrics" where
  "counted rs =
     \<lparr>requests_total = min (length rs) U64_MAX,
      errors_total = min (length (filter (\<lambda>(status, _). 400 \<le> status) rs)) U64_MAX,
      latency_buckets =
        map (\<lambda>bound. min (length (filter (\<lambda>(_, t). as_millis t \<le> bound) rs)) U64_MAX) LATENCY_BUCKETS_MS,
      latency_sum_ms = min (sum_list (map (as_millis \<circ> snd) rs)) U128_MAX\<rparr>"

definition observe_all :: "(string \<times> nat \<times> nat) list \<Rightarrow> 's app_metrics \<Rightarrow> 's app_metrics" where
  "observe_all obs m = fold (\<lambda>(route, status, latency). observe route status latency) obs m"

lemma min_add_min: "min (min a M + b) M = min (a + b) (M :: nat)"
  by (auto simp: min_def)

lemma counted_Nil: "counted [] = route_metrics_new"
  by (simp add: counted_def route_metrics_new_def map_replicate_const)

lemma counted_snoc: "observe_route status latency (counted rs) = counted (rs @ [(status, latency)])"
proof -
  define M where "M = U64_MAX"
  define N where "N = U128_MAX"
  have sat: "saturating_add_u64 a 1 = min (a + 1) M" for a
    by (simp only: saturating_add_u64_def M_def)
  have sat': "saturating_add_u128 a b = min (a + b) N" for a b
    by (simp only: saturating_add_u128_def N_def)
  have len: "length (latency_buckets (counted rs)) = 0 + length LATENCY_BUCKETS_MS"
    by (simp add: counted_def)
  show ?thesis
    unfolding observe_route_def Let_def bump_buckets [OF len] sat sat'
    unfolding counted_def M_def [symmetric] N_def [symmetric]
    by (auto simp: map2_map_map min_add_min zip_map2 zip_same_conv_map)
qed

lemma observe_all_snoc: "observe_all (obs @ [(r, s, t)]) m = observe r s t (observe_all obs m)"
  by (simp add: observe_all_def)

lemma seen_snoc: "seen route (obs @ [(r, s, t)]) = seen route obs @ (if r = route then [(s, t)] else [])"
  by (simp add: seen_def)

lemma observe_counters:
  "route_counters (observe r s t m) =
     btree_entry r route_metrics_new (observe_route s t) (route_counters m)"
  by (simp add: observe_def)

lemma observe_all_sorted:
  "sorted_wrt (<) (map fst (route_counters m)) \<Longrightarrow>
     sorted_wrt (<) (map fst (route_counters (observe_all obs m)))"
  by (induction obs rule: rev_induct)
    (auto simp: observe_all_def observe_counters btree_entry_sorted)

lemma counters_default [simp]: "route_counters metrics_default = []"
  by (simp add: metrics_default_def)

lemma observe_all_counts:
  "map_of (route_counters (observe_all obs metrics_default)) route =
     (if seen route obs = [] then None else Some (counted (seen route obs)))"
proof (induction obs rule: rev_induct)
  case Nil
  show ?case by (simp add: observe_all_def seen_def)
next
  case (snoc x obs)
  obtain r s t where x: "x = (r, s, t)" by (cases x)
  have srt: "sorted_wrt (<) (map fst (route_counters (observe_all obs metrics_default)))"
    by (rule observe_all_sorted) simp
  show ?case
  proof (cases "r = route")
    case True
    with snoc counted_snoc [of s t "seen route obs"] counted_snoc [of s t "[]"] show ?thesis
      by (simp add: x observe_all_snoc observe_counters btree_entry_map_of [OF srt] seen_snoc
          counted_Nil [symmetric])
  next
    case False
    with snoc show ?thesis
      by (simp add: x observe_all_snoc observe_counters btree_entry_map_of [OF srt] seen_snoc)
  qed
qed

text \<open>The histogram is cumulative: a scraper never sees a bucket above the next one or above +Inf.\<close>

lemma sorted_map_mono: "mono f \<Longrightarrow> sorted xs \<Longrightarrow> sorted (map f xs)"
  by (induction xs) (auto dest: monoD)

lemma counted_cumulative:
  "sorted (latency_buckets (counted rs) @ [requests_total (counted rs)])"
proof -
  let ?n = "\<lambda>bound. length (filter (\<lambda>(_, t). as_millis t \<le> bound) rs)"
  have "mono (\<lambda>bound. min (?n bound) U64_MAX)"
    by (intro monoI min.mono length_filter_mono) auto
  moreover have "sorted LATENCY_BUCKETS_MS" by (simp add: LATENCY_BUCKETS_MS_def)
  ultimately have "sorted (map (\<lambda>bound. min (?n bound) U64_MAX) LATENCY_BUCKETS_MS)"
    by (rule sorted_map_mono)
  moreover have "min (?n bound) U64_MAX \<le> min (length rs) U64_MAX" for bound
    by (intro min.mono length_filter_le order_refl)
  ultimately show ?thesis by (auto simp: counted_def sorted_append)
qed

section \<open>Labels\<close>

definition unescaped :: "char \<Rightarrow> char" where
  "unescaped c = (if c = CHR ''n'' then CHR 0x0A else c)"

text \<open>How a scraper reads a label value up to the closing quote.\<close>

fun read_label :: "string \<Rightarrow> (string \<times> string) option" where
  "read_label [] = None"
| "read_label (c # s) =
     (if c = CHR 0x22 then Some ([], s)
      else if c = CHR 0x0A then None
      else if c = CHR 0x5C then
        (case s of [] \<Rightarrow> None
         | d # s' \<Rightarrow> map_option (map_prod ((#) (unescaped d)) id) (read_label s'))
      else map_option (map_prod ((#) c) id) (read_label s))"

definition escape_label_char :: "char \<Rightarrow> string" where
  "escape_label_char c =
     (if c = CHR 0x5C \<or> c = CHR 0x22 then [CHR 0x5C, c]
      else if c = CHR 0x0A then [CHR 0x5C, CHR ''n''] else [c])"

lemma escape_label_eq: "escape_label v = concat (map escape_label_char v)"
  by (induction v) (auto simp: escape_label_def escape_label_char_def)

lemma read_escaped_char:
  "read_label (escape_label_char c @ s) = map_option (map_prod ((#) c) id) (read_label s)"
  by (auto simp: escape_label_char_def unescaped_def)

lemma read_escape_label: "read_label (escape_label v @ CHR 0x22 # s) = Some (v, s)"
  by (induction v) (simp_all add: escape_label_eq read_escaped_char del: read_label.simps(2)
      add: read_label.simps(2) [of "CHR 0x22"])

end
