(* ===== verification/Unit_Tests.thy ===== *)
theory Unit_Tests
  imports Server Semantic Metrics
begin

text \<open>
  The unit tests of the crate's modules, as the repository has them, run on the model: each test
  is the conjunction of its assertions, and passes. They are a check of the model against what
  the authors expect of the code, in the authors' words.
\<close>

definition is_ok :: "'e + 'a \<Rightarrow> bool" where
  "is_ok r = (case r of Inl _ \<Rightarrow> False | Inr _ \<Rightarrow> True)"

definition fails_with :: "string \<Rightarrow> api_err + 'a \<Rightarrow> bool" where
  "fails_with code r = (case r of Inl e \<Rightarrow> err_code e = code | Inr _ \<Rightarrow> False)"

section \<open>\<open>rbac.rs\<close>\<close>

definition manage_authorization_is_owner_only :: bool where
  "manage_authorization_is_owner_only =
     (let org = 1; other = 2
      in is_ok (authorize_manage None Reader org) \<and>
         is_ok (authorize_manage (Some org) Owner org) \<and>
         fails_with ''insufficient_role'' (authorize_manage (Some org) Publisher org) \<and>
         fails_with ''insufficient_role'' (authorize_manage (Some org) Reader org) \<and>
         fails_with ''unauthorized'' (authorize_manage (Some other) Owner org))"

definition role_capabilities :: bool where
  "role_capabilities \<longleftrightarrow>
     (can_publish Owner \<and> can_manage Owner) \<and>
     (can_publish Publisher \<and> \<not> can_manage Publisher) \<and>
     (\<not> can_publish Reader \<and> \<not> can_manage Reader) \<and>
     role_parse ''publisher'' = Publisher \<and>
     role_parse ''nonsense'' = Reader"

definition publish_authorization :: bool where
  "publish_authorization =
     (let org = 1; other = 2
      in is_ok (authorize_publish None Reader org) \<and>
         is_ok (authorize_publish (Some org) Publisher org) \<and>
         is_ok (authorize_publish (Some org) Owner org) \<and>
         fails_with ''insufficient_role'' (authorize_publish (Some org) Reader org) \<and>
         fails_with ''unauthorized'' (authorize_publish (Some other) Owner org))"

lemma rbac_tests: manage_authorization_is_owner_only role_capabilities publish_authorization
  by (simp_all add: manage_authorization_is_owner_only_def role_capabilities_def publish_authorization_def
      is_ok_def fails_with_def authorize_manage_def authorize_publish_def role_parse_def
      err_unauthorized_def err_forbidden_def)

section \<open>\<open>server.rs\<close>\<close>

definition process_commands_keep_their_argument_boundaries :: bool where
  "process_commands_keep_their_argument_boundaries \<longleftrightarrow>
     process_command [''zed-api-server'', ''create-token'', ''--name'', ''ci''] = CreateToken [''--name'', ''ci''] \<and>
     process_command [''zed-api-server'', ''revoke-token'', ''--name'', ''ci''] = RevokeToken [''--name'', ''ci''] \<and>
     process_command [''zed-api-server'', ''healthcheck''] = Healthcheck \<and>
     process_command [''zed-api-server'', ''unknown''] = Serve"

definition healthcheck_uses_the_bound_listener_port :: bool where
  "healthcheck_uses_the_bound_listener_port \<longleftrightarrow>
     healthcheck_url ''0.0.0.0:8080'' = ''http://127.0.0.1:8080/healthz'' \<and>
     healthcheck_url ''[::]:9090'' = ''http://127.0.0.1:9090/healthz''"

lemma server_tests: process_commands_keep_their_argument_boundaries healthcheck_uses_the_bound_listener_port
  by (simp_all add: process_commands_keep_their_argument_boundaries_def process_command_def
      healthcheck_uses_the_bound_listener_port_def healthcheck_url_def)

section \<open>\<open>verify.rs\<close>\<close>

definition github_url_parsing :: bool where
  "github_url_parsing \<longleftrightarrow>
     parse_github ''https://github.com/acme/http-kit'' = Some (''acme'', ''http-kit'') \<and>
     parse_github ''https://github.com/acme/http-kit.git'' = Some (''acme'', ''http-kit'') \<and>
     parse_github ''git@github.com:acme/http-kit.git'' = Some (''acme'', ''http-kit'') \<and>
     parse_github ''https://gitlab.com/acme/x'' = None \<and>
     parse_github ''https://github.com/acme'' = None"

definition rejects_path_traversal_owner_and_repo :: bool where
  "rejects_path_traversal_owner_and_repo \<longleftrightarrow>
     parse_github ''https://github.com/../evil/foo'' = None \<and>
     parse_github ''https://github.com/../foo'' = None \<and>
     parse_github ''https://github.com/acme/..'' = None \<and>
     parse_github ''https://github.com/./foo'' = None \<and>
     parse_github ''https://github.com/ac me/foo'' = None \<and>
     parse_github ''https://github.com/acme/foo%2e'' = None \<and>
     parse_github ''https://github.com/acme/foo.bar'' = Some (''acme'', ''foo.bar'')"

definition tags_are_percent_encoded_for_urls :: bool where
  "tags_are_percent_encoded_for_urls \<longleftrightarrow>
     percent_encode ''v1.2.0'' = ''v1.2.0'' \<and>
     percent_encode ''release_1~rc'' = ''release_1~rc'' \<and>
     percent_encode ''a/b?x=1#f'' = ''a%2Fb%3Fx%3D1%23f''"

lemma verify_tests: github_url_parsing rejects_path_traversal_owner_and_repo tags_are_percent_encoded_for_urls
  by code_simp+

section \<open>\<open>storage.rs\<close>\<close>

definition keys_are_sha_addressed :: bool where
  "keys_are_sha_addressed \<longleftrightarrow> artifact_key ''abc123'' ''tar.gz'' = ''artifacts/abc123.tar.gz''"

definition memory_store_roundtrips_without_disk :: bool where
  "memory_store_roundtrips_without_disk =
     (let payload = ''zed-memory-artifact'';
          store = store_put IoOk ''artifacts/test.tar.gz'' payload (Memory [] 64)
      in is_ok (fst store) \<and>
         store_download (\<lambda>_ _. Inl '''') IoOk ''artifacts/test.tar.gz'' (snd store) = Inr (Bytes payload) \<and>
         store_get_bytes IoOk None ''artifacts/test.tar.gz'' (snd store) = Inr payload)"

definition memory_store_enforces_total_capacity_atomically :: bool where
  "memory_store_enforces_total_capacity_atomically =
     (let one = store_put IoOk ''artifacts/one'' ''1234'' (Memory [] 4);
          two = store_put IoOk ''artifacts/two'' ''5'' (snd one)
      in is_ok (fst one) \<and>
         (case fst two of Inl error \<Rightarrow> sublist ''capacity exceeded'' error | Inr _ \<Rightarrow> False) \<and>
         store_download (\<lambda>_ _. Inl '''') IoOk ''artifacts/one'' (snd two) = Inr (Bytes ''1234''))"

lemma capacity_text: "sublist ''capacity exceeded'' (capacity_msg n limit)"
  unfolding sublist_def capacity_msg_def
  by (intro exI [of _ "''in-memory artifact store ''"]
      exI [of _ "'': write would use '' @ nat_str n @ '' bytes, limit is '' @ nat_str limit @ '' bytes''"]) simp

lemma storage_tests: keys_are_sha_addressed memory_store_roundtrips_without_disk
  memory_store_enforces_total_capacity_atomically
  by (simp_all add: keys_are_sha_addressed_def artifact_key_def memory_store_roundtrips_without_disk_def
      memory_store_enforces_total_capacity_atomically_def is_ok_def checked_add_u64_def guard_buffered_def
      MAX_BUFFERED_ARTIFACT_BYTES_def capacity_text)

section \<open>\<open>embeddings.rs\<close>\<close>

definition pads_smaller_dims_to_2050 :: bool where
  "pads_smaller_dims_to_2050 =
     (let v = [Finite ''1'', Finite ''2'', Finite ''3'']
      in case pad_to_dim v of
           Inl _ \<Rightarrow> False
         | Inr padded \<Rightarrow>
             length padded = VECTOR_DIM \<and> take 3 padded = v \<and>
             list_all (\<lambda>x. x = Finite ''0'') (drop 3 padded))"

definition accepts_1536_and_836_and_exact_2050 :: bool where
  "accepts_1536_and_836_and_exact_2050 =
     list_all (\<lambda>n. case pad_to_dim (replicate n (Finite ''0.5'')) of
                Inl _ \<Rightarrow> False | Inr padded \<Rightarrow> length padded = 2050) [1536, 836, 2050]"

definition rejects_oversized_empty_and_nonfinite :: bool where
  "rejects_oversized_empty_and_nonfinite \<longleftrightarrow>
     \<not> is_ok (pad_to_dim (replicate 2051 (Finite ''0.1''))) \<and>
     \<not> is_ok (pad_to_dim []) \<and>
     \<not> is_ok (pad_to_dim [Finite ''1'', NonFinite ''NaN'']) \<and>
     \<not> is_ok (pad_to_dim [Finite ''1'', NonFinite ''inf''])"

definition pgvector_literal_format :: bool where
  "pgvector_literal_format \<longleftrightarrow>
     to_pgvector_literal [Finite ''1'', Finite ''2.5'', Finite ''-3''] = ''[1,2.5,-3]'' \<and>
     to_pgvector_literal [] = ''[]''"

definition model_name_validation :: bool where
  "model_name_validation \<longleftrightarrow>
     valid_model ''openai/text-embedding-3-small'' \<and>
     valid_model ''bge-small-en-v1.5'' \<and>
     \<not> valid_model '''' \<and>
     \<not> valid_model ''bad name with spaces'' \<and>
     \<not> valid_model (replicate 121 (CHR ''x''))"

lemma find_replicate: "\<not> P x \<Longrightarrow> find P (replicate n x) = None"
  by (induction n) simp_all

lemma embeddings_tests: pads_smaller_dims_to_2050 accepts_1536_and_836_and_exact_2050
  rejects_oversized_empty_and_nonfinite pgvector_literal_format
  by (simp_all add: pads_smaller_dims_to_2050_def accepts_1536_and_836_and_exact_2050_def
      rejects_oversized_empty_and_nonfinite_def pgvector_literal_format_def pad_to_dim_def VECTOR_DIM_def
      is_ok_def list_all_iff find_replicate to_pgvector_literal_def)

lemma embeddings_model_test: model_name_validation
  by code_simp

section \<open>\<open>routes/search.rs\<close>\<close>

definition tag_filter_parsing_and_matching :: bool where
  "tag_filter_parsing_and_matching =
     (let have_tags = [''cli'', ''rust'', ''http'']
      in parse_tag_filter (Some ''cli, http ,,web'') = [''cli'', ''http'', ''web''] \<and>
         parse_tag_filter None = [] \<and>
         parse_tag_filter (Some ''  '') = [] \<and>
         has_all_tags have_tags [''cli'', ''http''] \<and>
         has_all_tags have_tags [] \<and>
         \<not> has_all_tags have_tags [''cli'', ''python''])"

text \<open>\<open>\\<close> is the character 0x5C.\<close>

definition like_escaping_neutralizes_wildcards :: bool where
  "like_escaping_neutralizes_wildcards =
     (let bs = [CHR 0x5C]
      in escape_like ''plain'' = ''plain'' \<and>
         escape_like ''50%_off'' = ''50'' @ bs @ ''%'' @ bs @ ''_off'' \<and>
         escape_like (''back'' @ bs @ ''slash'') = ''back'' @ bs @ bs @ ''slash'' \<and>
         escape_like (bs @ ''%'') = bs @ bs @ bs @ ''%'')"

lemma search_tests: tag_filter_parsing_and_matching like_escaping_neutralizes_wildcards
  by code_simp+

section \<open>\<open>metrics.rs\<close>\<close>

definition counts_errors_and_latency_buckets :: bool where
  "counts_errors_and_latency_buckets =
     (let m = observe ''GET /healthz'' 503 60000000 (observe ''GET /healthz'' 200 4000000 (metrics_default :: unit app_metrics))
      in case map_of (snap_routes (snapshot (\<lambda>_. undefined) m)) ''GET /healthz'' of
           None \<Rightarrow> False
         | Some route \<Rightarrow>
             requests_total route = 2 \<and> errors_total route = 1 \<and> latency_sum_ms route = 64 \<and>
             latency_buckets route ! 0 = 0 \<and> latency_buckets route ! 1 = 1 \<and> latency_buckets route ! 5 = 2)"

lemma fresh_counters:
  "route_metrics_new =
     \<lparr>requests_total = 0, errors_total = 0, latency_buckets = [0, 0, 0, 0, 0, 0, 0, 0, 0, 0, 0], latency_sum_ms = 0\<rparr>"
  by code_simp

lemma metrics_test: counts_errors_and_latency_buckets
  by (simp add: counts_errors_and_latency_buckets_def Let_def snapshot_def observe_def metrics_default_def
      fresh_counters observe_route_def as_millis_def LATENCY_BUCKETS_MS_def bump_bucket_def
      saturating_add_u64_def saturating_add_u128_def)

section \<open>\<open>files.rs\<close>\<close>

definition mime_guessing :: bool where
  "mime_guessing \<longleftrightarrow>
     mime_for ''dist/style.css'' = ''text/css; charset=utf-8'' \<and> mime_for ''mod.wasm'' = ''application/wasm'' \<and>
     mime_for ''weird.bin'' = ''application/octet-stream''"

definition active_content_is_neutralized_to_text_plain :: bool where
  "active_content_is_neutralized_to_text_plain \<longleftrightarrow>
     list_all (\<lambda>path. served_mime path = ''text/plain; charset=utf-8'')
       [''index.html'', ''page.htm'', ''app.js'', ''m.mjs'', ''icon.svg''] \<and>
     served_mime ''style.css'' = ''text/css; charset=utf-8'' \<and> served_mime ''logo.png'' = ''image/png'' \<and>
     served_mime ''mod.wasm'' = ''application/wasm''"

definition html_and_svg_are_served_sandboxed_as_text_plain :: bool where
  "html_and_svg_are_served_sandboxed_as_text_plain \<longleftrightarrow>
     list_all (\<lambda>path. let get = map_of (served_file_headers path)
       in get ''content-type'' = Some ''text/plain; charset=utf-8'' \<and>
          get ''content-security-policy'' = Some ''sandbox'' \<and> get ''content-disposition'' = Some ''inline'')
       [''index.html'', ''icon.svg'']"

lemma files_tests:
  mime_guessing active_content_is_neutralized_to_text_plain html_and_svg_are_served_sandboxed_as_text_plain
  by code_simp+

section \<open>\<open>routes/mod.rs\<close>\<close>

text \<open>\<open>version_row\<close> of the tests, over the draw of its id and the clock.\<close>

definition version_fixture :: "uuid \<Rightarrow> timestamp \<Rightarrow> string \<Rightarrow> bool \<Rightarrow> int \<Rightarrow> version_row" where
  "version_fixture i now identity y published_offset =
     \<lparr>v_id = i, v_package = 0, v_version = identity, v_sha256 = replicate 64 CHR ''a'', v_size = 1,
      v_format = ''tar.gz'', v_vcs_tag = ''v'' @ identity, v_vcs_commit = None,
      v_artifact_key = ''artifacts/'' @ identity @ ''.tar.gz'', v_yanked = y,
      v_published_at = now + published_offset * 10 ^ 9\<rparr>"

definition latest_visible_version_is_ordered_and_yank_safe ::
    "externals \<Rightarrow> (nat \<Rightarrow> uuid) \<Rightarrow> (nat \<Rightarrow> timestamp) \<Rightarrow> bool" where
  "latest_visible_version_is_ordered_and_yank_safe E u now =
     (let rows = [version_fixture (u 0) (now 0) ''2.0.0'' False 0, version_fixture (u 1) (now 1) ''1.9.0'' False 10,
                  version_fixture (u 2) (now 2) ''3.0.0'' True 5];
          restored = rows[2 := (rows ! 2)\<lparr>v_yanked := False\<rparr>];
          gone = map (\<lambda>row. row\<lparr>v_yanked := True\<rparr>) restored
      in latest_visible_version E rows = Some ''2.0.0'' \<and> visible_versions_desc E rows = [''2.0.0'', ''1.9.0''] \<and>
         latest_visible_version E restored = Some ''3.0.0'' \<and> latest_visible_version E gone = None)"

lemma sorted_unique:
  assumes "\<And>a b. newer a b \<Longrightarrow> newer b a \<Longrightarrow> a = b"
  shows "mset xs = mset ys \<Longrightarrow> sorted_wrt newer xs \<Longrightarrow> sorted_wrt newer ys \<Longrightarrow> xs = ys"
proof (induction xs arbitrary: ys)
  case (Cons x xs)
  then obtain y ys' where ys: "ys = y # ys'" by (cases ys) auto
  have "x \<in> set ys" "y \<in> set (x # xs)" using Cons.prems(1) ys by (metis list.set_intros(1) set_mset_mset)+
  then have "x = y" using Cons.prems(2,3) ys assms by auto
  then show ?case using Cons ys by simp
qed simp

lemma sort_desc_eq:
  "sorts_versions E newer \<Longrightarrow> sorted_wrt newer ys \<Longrightarrow> mset ys = mset xs \<Longrightarrow> sort_desc E xs = ys"
  unfolding sorts_versions_def by (intro sorted_unique [of newer]) auto

lemma selection_test:
  assumes "sorts_versions E newer" "newer ''3.0.0'' ''2.0.0''" "newer ''3.0.0'' ''1.9.0''" "newer ''2.0.0'' ''1.9.0''"
  shows "latest_visible_version_is_ordered_and_yank_safe E u now"
proof -
  have 1: "sort_desc E [''2.0.0'', ''1.9.0''] = [''2.0.0'', ''1.9.0'']"
    using assms by (intro sort_desc_eq [OF assms(1)]) simp_all
  have 2: "sort_desc E [''2.0.0'', ''1.9.0'', ''3.0.0''] = [''3.0.0'', ''2.0.0'', ''1.9.0'']"
    using assms by (intro sort_desc_eq [OF assms(1)]) simp_all
  have 3: "sort_desc E [] = []" by (rule sort_desc_eq [OF assms(1)]) simp_all
  show ?thesis
    by (simp add: latest_visible_version_is_ordered_and_yank_safe_def Let_def latest_visible_version_def
        visible_versions_desc_def sort_versions_desc_def version_fixture_def 1 2 3)
qed

end
