(* ===== verification/Handler_Tests.thy ===== *)
theory Handler_Tests
  imports Unit_Tests Yank Orgs Audit_Routes
begin

text \<open>
  The tests of the handlers, run on the model: a test is the program the repository has, from the
  rows it seeds to the assertions, and an error that it does not expect makes it fail. A test runs
  in a quiet world: an empty database that refuses nothing, fresh identifiers, and a clock that
  goes forward by less than an hour.
\<close>

section \<open>The harness\<close>

definition test_st :: app_state where
  "test_st =
     \<lparr>backend = Sqlite, verify_tags = TagOff, github_token = None,
      public_base_url = ''http://localhost:8080'', max_orgs_per_token = 5, environ = (\<lambda>_. None)\<rparr>"

definition bearer :: "string \<Rightarrow> string option" where
  "bearer plaintext = Some (''Bearer '' @ plaintext)"

definition seed_row :: "('r \<Rightarrow> database \<Rightarrow> db_err + database) \<Rightarrow> 'r \<Rightarrow> (api_err, unit) io" where
  "seed_row ins r = andThen (dbq (insert_stmt ins r)) (\<lambda>_. ret ())"

definition expect_err :: "(api_err, 'a) io \<Rightarrow> (api_err \<Rightarrow> bool) \<Rightarrow> (api_err, bool) io" where
  "expect_err m check = inspect m (\<lambda>r. ret (case r of Inl e \<Rightarrow> check e | Inr _ \<Rightarrow> False))"

definition test_token :: "externals \<Rightarrow> uuid \<Rightarrow> timestamp \<Rightarrow> string \<Rightarrow> string \<Rightarrow> uuid option \<Rightarrow> string \<Rightarrow> token_row" where
  "test_token E i now name plaintext org role =
     \<lparr>t_id = i, t_name = name, t_hash = hash_token E plaintext, t_org = org, t_role = role,
      t_created_at = now, t_expires_at = None, t_revoked_at = None\<rparr>"

definition passes :: "(api_err, bool) io \<Rightarrow> world \<Rightarrow> bool" where
  "passes test w \<longleftrightarrow> fst (test w) = Inr True"

definition quiet :: "world \<Rightarrow> bool" where
  "quiet w \<longleftrightarrow> db w = empty_db \<and> drawn w = 0 \<and> ticks w = 0 \<and> faults w = (\<lambda>_. None) \<and>
     distinct (map (uuids w) [0..<24]) \<and>
     (\<forall>i j. i \<le> j \<longrightarrow> j < 24 \<longrightarrow> clock w i \<le> clock w j \<and> clock w j < clock w i + 3600 * 10 ^ 9)"

text \<open>A \<open>simple()\<close> identifier ends in a character that \<open>trim\<close> keeps.\<close>

definition simple_ok :: "externals \<Rightarrow> bool" where
  "simple_ok E \<longleftrightarrow> (\<forall>p u. str_trim (''zpkg_'' @ p @ uuid_simple E u) = ''zpkg_'' @ p @ uuid_simple E u)"

text \<open>A quiet world that has moved on: its database, and how much it has drawn and read.\<close>

definition moved :: "world \<Rightarrow> database \<Rightarrow> nat \<Rightarrow> nat \<Rightarrow> nat \<Rightarrow> world" where
  "moved w d n t c = w\<lparr>db := d, drawn := n, ticks := t, calls := c\<rparr>"

lemma moved_simps [simp]:
  "db (moved w d n t c) = d" "drawn (moved w d n t c) = n" "ticks (moved w d n t c) = t"
  "calls (moved w d n t c) = c" "uuids (moved w d n t c) = uuids w" "clock (moved w d n t c) = clock w"
  "faults (moved w d n t c) = faults w" "(moved w d n t c)\<lparr>db := d'\<rparr> = moved w d' n t c"
  "(moved w d n t c)\<lparr>drawn := n'\<rparr> = moved w d n' t c" "(moved w d n t c)\<lparr>ticks := t'\<rparr> = moved w d n t' c"
  "next_call (moved w d n t c) = moved w d n t (Suc c)"
  by (simp_all add: moved_def next_call_def)

lemma empty_db_simps [simp]:
  "orgs empty_db = []" "tokens empty_db = []" "packages empty_db = []" "versions empty_db = []" "audits empty_db = []"
  by (simp_all add: empty_db_def)

lemma quiet_start: "quiet w \<Longrightarrow> w = moved w empty_db 0 0 (calls w)"
  by (simp add: quiet_def moved_def)

lemma quiet_faults: "quiet w \<Longrightarrow> faults w = (\<lambda>_. None)"
  by (simp add: quiet_def)

lemma quiet_uuid: "quiet w \<Longrightarrow> i < 24 \<Longrightarrow> j < 24 \<Longrightarrow> uuids w i = uuids w j \<longleftrightarrow> i = j"
  unfolding quiet_def using nth_eq_iff_index_eq [of "map (uuids w) [0..<24]" i j] by simp

lemma quiet_clock:
  assumes "quiet w" "i \<le> j" "j < 24"
  shows "clock w i \<le> clock w j" "clock w j < clock w i + 3600 * 10 ^ 9"
  using assms by (simp_all add: quiet_def)

lemma passesI: "quiet w \<Longrightarrow> fst (test (moved w empty_db 0 0 (calls w))) = Inr True \<Longrightarrow> passes test w"
  using quiet_start [of w] by (simp add: passes_def)

lemmas steps = run_simps statement_eq select_def insert_stmt_def update_stmt_def seed_row_def expect_err_def

lemma test_on: "\<not> auth_disabled test_st"
  by (simp add: auth_disabled_def test_st_def)

lemma test_st_simps [simp]: "backend test_st = Sqlite" "max_orgs_per_token test_st = 5"
  by (simp_all add: test_st_def)

lemma require_moved:
  assumes "faults w = (\<lambda>_. None)" "str_trim p = p" "token_by_hash (hash_token E p) d = Some row"
    and "t_revoked_at row = None" "t_expires_at row = None"
  shows "require_token E test_st (bearer p) (moved w d n t c) = (Inr row, moved w d n t (Suc c))"
proof -
  have "bearer_token (bearer p) = Some p" using assms(2) by (simp add: bearer_def bearer_token_def)
  then show ?thesis using assms by (simp add: require_token_run [OF test_on])
qed

section \<open>\<open>auth.rs\<close>\<close>

definition bearer_extraction :: bool where
  "bearer_extraction \<longleftrightarrow> bearer_token None = None \<and> bearer_token (Some ''Bearer zpkg_abc'') = Some ''zpkg_abc''"

definition hashing_is_stable_and_hex :: "externals \<Rightarrow> bool" where
  "hashing_is_stable_and_hex E \<longleftrightarrow>
     (let h = hash_token E ''zpkg_example''
      in length h = 64 \<and> h = hash_token E ''zpkg_example'' \<and> h \<noteq> hash_token E ''zpkg_other'')"

definition seed_lifecycle :: "externals \<Rightarrow> timestamp option \<Rightarrow> timestamp option \<Rightarrow> (api_err, string) io" where
  "seed_lifecycle E expires_at revoked_at =
     andThen new_uuid (\<lambda>u. let plaintext = ''zpkg_'' @ uuid_simple E u in
     andThen new_uuid (\<lambda>i.
     andThen utc_now (\<lambda>now.
     andThen (seed_row insert_token
       ((test_token E i now ''t'' plaintext None ''owner'')\<lparr>t_expires_at := expires_at, t_revoked_at := revoked_at\<rparr>))
       (\<lambda>_. ret plaintext))))"

definition live_token_is_accepted :: "externals \<Rightarrow> (api_err, bool) io" where
  "live_token_is_accepted E =
     andThen (seed_lifecycle E None None) (\<lambda>plaintext.
     inspect (require_token E test_st (bearer plaintext)) (\<lambda>r. ret (is_ok r)))"

definition revoked_token_is_rejected :: "externals \<Rightarrow> (api_err, bool) io" where
  "revoked_token_is_rejected E =
     andThen utc_now (\<lambda>now.
     andThen (seed_lifecycle E None (Some (now - 60 * 10 ^ 9))) (\<lambda>plaintext.
     expect_err (require_token E test_st (bearer plaintext)) (\<lambda>e. err_code e = ''unauthorized'')))"

definition expired_token_is_rejected_but_future_expiry_is_accepted :: "externals \<Rightarrow> (api_err, bool) io" where
  "expired_token_is_rejected_but_future_expiry_is_accepted E =
     andThen utc_now (\<lambda>now.
     andThen (seed_lifecycle E (Some (now - 10 ^ 9)) None) (\<lambda>expired.
     andThen (expect_err (require_token E test_st (bearer expired)) (\<lambda>e. err_code e = ''unauthorized'')) (\<lambda>ok.
     andThen utc_now (\<lambda>now.
     andThen (seed_lifecycle E (Some (now + 86400 * 10 ^ 9)) None) (\<lambda>live.
     andThen (require_token E test_st (bearer live)) (\<lambda>row.
       ret (ok \<and> t_expires_at row \<noteq> None)))))))"

definition revocation_beats_a_valid_expiry :: "externals \<Rightarrow> (api_err, bool) io" where
  "revocation_beats_a_valid_expiry E =
     andThen utc_now (\<lambda>now.
     andThen utc_now (\<lambda>then_now.
     andThen (seed_lifecycle E (Some (now + 30 * 86400 * 10 ^ 9)) (Some (then_now - 10 ^ 9))) (\<lambda>plaintext.
     expect_err (require_token E test_st (bearer plaintext)) (\<lambda>_. True))))"

lemma pure_auth_tests:
  "bearer_extraction"
  "length (hash_token E ''zpkg_example'') = 64 \<Longrightarrow> hash_token E ''zpkg_example'' \<noteq> hash_token E ''zpkg_other'' \<Longrightarrow>
     hashing_is_stable_and_hex E"
  by code_simp (simp add: hashing_is_stable_and_hex_def)

lemma simple_trim:
  "simple_ok E \<Longrightarrow> bearer_token (bearer (''zpkg_'' @ p @ uuid_simple E u)) = Some (''zpkg_'' @ p @ uuid_simple E u)"
  by (simp add: simple_ok_def bearer_def bearer_token_def)

lemma lifecycle_tests:
  assumes q: "quiet w" and s: "simple_ok E"
  shows "passes (live_token_is_accepted E) w" "passes (revoked_token_is_rejected E) w"
    "passes (revocation_beats_a_valid_expiry E) w"
  using simple_trim [OF s, of "[]"]
  by (auto intro!: passesI [OF q] simp: live_token_is_accepted_def revoked_token_is_rejected_def
      revocation_beats_a_valid_expiry_def seed_lifecycle_def steps quiet_faults [OF q] insert_token_def
      insert_unique_def empty_db_def require_token_run [OF test_on] token_by_hash_def test_token_def
      opt_holds_def is_ok_def Let_def err_unauthorized_def)

lemma expiry_test:
  assumes q: "quiet w" and s: "simple_ok E"
    and h: "hash_token E (''zpkg_'' @ uuid_simple E (uuids w 0)) \<noteq> hash_token E (''zpkg_'' @ uuid_simple E (uuids w 2))"
  shows "passes (expired_token_is_rejected_but_future_expiry_is_accepted E) w"
proof -
  have c: "clock w 0 - 10 ^ 9 \<le> clock w 2" "clock w 5 < clock w 3 + 86400 * 10 ^ 9"
    using quiet_clock [OF q, of 0 2] quiet_clock [OF q, of 3 5] by simp_all
  have u: "uuids w 1 \<noteq> uuids w 3" using quiet_uuid [OF q] by simp
  show ?thesis
    using simple_trim [OF s, of "[]"] c u h
    by (auto intro!: passesI [OF q] simp: expired_token_is_rejected_but_future_expiry_is_accepted_def
        seed_lifecycle_def steps quiet_faults [OF q] insert_token_def insert_unique_def empty_db_def
        require_token_run [OF test_on] token_by_hash_def test_token_def opt_holds_def Let_def
        err_unauthorized_def eval_nat_numeral)
qed

section \<open>\<open>routes/orgs.rs\<close>\<close>

text \<open>
  The tables of the tests are made from the entities, where a token has no foreign key: its row
  is appended as it is.
\<close>

definition seed_token :: "externals \<Rightarrow> string \<Rightarrow> uuid option \<Rightarrow> (api_err, uuid) io" where
  "seed_token E plaintext org_id =
     andThen new_uuid (\<lambda>i.
     andThen utc_now (\<lambda>now.
     andThen (dbq (update_stmt (\<lambda>d. d\<lparr>tokens := tokens d @ [test_token E i now ''t'' plaintext org_id ''owner'']\<rparr>)))
       (\<lambda>_. ret i)))"

definition claiming_a_taken_org_conflicts :: "externals \<Rightarrow> lock_outcome \<Rightarrow> (api_err, bool) io" where
  "claiming_a_taken_org_conflicts E lk =
     andThen (seed_token E ''admin_a'' None) (\<lambda>token_a.
     andThen (seed_token E ''admin_b'' None) (\<lambda>_.
     andThen new_uuid (\<lambda>i.
     andThen utc_now (\<lambda>now.
     andThen (seed_row insert_org \<lparr>o_id = i, o_slug = ''acme'', o_created_at = now, o_created_by = Some token_a\<rparr>) (\<lambda>_.
     expect_err (claim_org E test_st lk (bearer ''admin_b'') ''acme'')
       (\<lambda>err. err_status err = CONFLICT \<and> err_code err = ''org_taken''))))))"

text \<open>\<open>claim_org(\<dots>).expect(\<dots>)\<close> for each slug, with \<open>assert!(resp.0.created)\<close>.\<close>

fun claim_all :: "externals \<Rightarrow> lock_outcome \<Rightarrow> string option \<Rightarrow> string list \<Rightarrow> (api_err, bool) io" where
  "claim_all E lk header [] = ret True"
| "claim_all E lk header (slug # slugs) =
     andThen (claim_org E test_st lk header slug) (\<lambda>resp.
     andThen (claim_all E lk header slugs) (\<lambda>ok. ret (cl_created resp \<and> ok)))"

definition org_quota_is_enforced :: "externals \<Rightarrow> lock_outcome \<Rightarrow> (api_err, bool) io" where
  "org_quota_is_enforced E lk =
     andThen new_uuid (\<lambda>org_id.
     andThen (seed_token E ''scoped'' (Some org_id)) (\<lambda>_.
     andThen (claim_all E lk (bearer ''scoped'') (map (\<lambda>i. ''org-'' @ nat_str i) [0..<5])) (\<lambda>created.
     andThen (expect_err (claim_org E test_st lk (bearer ''scoped'') ''one-too-many'')
       (\<lambda>err. err_status err = FORBIDDEN \<and> err_code err = ''org_quota_exceeded'')) (\<lambda>refused.
     andThen (dbq (select orgs)) (\<lambda>all.
       ret (created \<and> refused \<and> length all = 5))))))"

definition claiming_a_free_org_succeeds :: "externals \<Rightarrow> lock_outcome \<Rightarrow> (api_err, bool) io" where
  "claiming_a_free_org_succeeds E lk =
     andThen (seed_token E ''admin_a'' None) (\<lambda>_.
     andThen (claim_org E test_st lk (bearer ''admin_a'') ''acme'') (\<lambda>resp.
     andThen (dbq (select orgs)) (\<lambda>all.
       ret (cl_created resp \<and> length all = 1))))"

lemma trims: "str_trim ''admin_a'' = ''admin_a''" "str_trim ''admin_b'' = ''admin_b''" "str_trim ''scoped'' = ''scoped''"
  by code_simp+

text \<open>An append that nothing disturbs succeeds at the first attempt.\<close>

lemma record_moved:
  assumes "faults w = (\<lambda>_. None)"
    and "insert_audit (append_row E org tok act sub det (audit_tip org d) (clock w t) (uuids w n)) d = Inr d'"
  shows "record_audit E test_st org tok act sub det (moved w d n t c) = (Inr None, moved w d' (Suc n) (Suc t) (c + 4))"
  using assms by (simp add: record_audit_def APPEND_ATTEMPTS_def append_chained_def in_txn_def steps
      numeral_eq_Suc)

lemma claim_moved:
  assumes q: "faults w = (\<lambda>_. None)"
    and tok: "str_trim p = p" "token_by_hash (hash_token E p) d = Some tok" "t_revoked_at tok = None" "t_expires_at tok = None"
    and slug: "is_slug E slug" "org_by_slug slug d = None" and few: "t_org tok \<noteq> None \<longrightarrow> claimed_by (t_id tok) d < 5"
    and fresh: "uuids w n \<notin> o_id ` set (orgs d)" "uuids w (Suc n) \<notin> a_id ` set (audits d)"
      "\<forall>r\<in>set (audits d). a_org r \<noteq> uuids w n"
  shows "\<exists>row x t' c'. claim_org E test_st lk (bearer p) slug (moved w d n t c) =
     (Inr \<lparr>cl_slug = slug, cl_created = True\<rparr>,
      moved w (d\<lparr>orgs := orgs d @ [row], audits := audits d @ [x]\<rparr>) (Suc (Suc n)) t' c') \<and>
     o_id row = uuids w n \<and> o_slug row = slug \<and> o_created_by row = Some (t_id tok) \<and>
     a_id x = uuids w (Suc n) \<and> a_org x = uuids w n"
proof -
  define row where "row = \<lparr>o_id = uuids w n, o_slug = slug, o_created_at = clock w t, o_created_by = Some (t_id tok)\<rparr>"
  let ?d = "d\<lparr>orgs := orgs d @ [row]\<rparr>"
  have "tok \<in> set (tokens d)" using tok(2) by (auto simp: token_by_hash_def find_Some_iff)
  then have ins: "insert_org row d = Inr ?d"
    using fresh(1) slug(2) unfolding insert_org_Inr
    by (auto simp: row_def org_by_slug_def find_None_iff)
  define c1 where "c1 = Suc (Suc (Suc c))"
  have "\<exists>c'. claim_txn test_st tok slug (moved w d n t (Suc (Suc c))) = (Inr (uuids w n), moved w ?d (Suc n) (Suc t) c')"
    using few ins q by (simp add: claim_txn_def in_txn_def check_quota_def insert_new_org_def steps row_def) auto
  then obtain c' where txn: "claim_txn test_st tok slug (moved w d n t (Suc (Suc c))) = (Inr (uuids w n), moved w ?d (Suc n) (Suc t) c')"
    by blast
  let ?x = "append_row E (uuids w n) tok OrgClaim slug None (audit_tip (uuids w n) ?d) (clock w (Suc t)) (uuids w (Suc n))"
  have "insert_audit ?x ?d = Inr (?d\<lparr>audits := audits d @ [?x]\<rparr>)"
    using fresh(2,3) unfolding insert_audit_Inr by (auto simp: row_def append_row_def Let_def audit_key_def)
  from record_moved [OF q this]
  have rec: "record_audit E test_st (uuids w n) tok OrgClaim slug None (moved w ?d (Suc n) (Suc t) c') =
      (Inr None, moved w (?d\<lparr>audits := audits d @ [?x]\<rparr>) (Suc (Suc n)) (Suc (Suc t)) (c' + 4))" .
  have x: "a_id ?x = uuids w (Suc n)" "a_org ?x = uuids w n" by (simp_all add: append_row_def Let_def)
  have "claim_org E test_st lk (bearer p) slug (moved w d n t c) =
     (Inr \<lparr>cl_slug = slug, cl_created = True\<rparr>,
      moved w (?d\<lparr>audits := audits d @ [?x]\<rparr>) (Suc (Suc n)) (Suc (Suc t)) (c' + 4))"
    using require_moved [OF q tok, of n t c] slug txn rec q
    by (simp add: claim_org_def claim_org_serialized_def release_fiducia_guard_def steps Let_def)
  with x show ?thesis by (intro exI [of _ row] exI [of _ ?x] exI conjI) (simp_all add: row_def)
qed

lemma free_test:
  assumes q: "quiet w" and s: "is_slug E ''acme''"
  shows "passes (claiming_a_free_org_succeeds E lk) w"
proof (rule passesI [OF q])
  let ?d = "empty_db\<lparr>tokens := [test_token E (uuids w 0) (clock w 0) ''t'' ''admin_a'' None ''owner'']\<rparr>"
  note f = quiet_faults [OF q]
  have "\<exists>row x t' c'. claim_org E test_st lk (bearer ''admin_a'') ''acme'' (moved w ?d 1 1 (Suc (calls w))) =
     (Inr \<lparr>cl_slug = ''acme'', cl_created = True\<rparr>,
      moved w (?d\<lparr>orgs := orgs ?d @ [row], audits := audits ?d @ [x]\<rparr>) (Suc (Suc 1)) t' c') \<and>
     o_id row = uuids w 1 \<and> o_slug row = ''acme'' \<and> o_created_by row = Some (t_id (hd (tokens ?d))) \<and>
     a_id x = uuids w (Suc 1) \<and> a_org x = uuids w 1"
    by (rule claim_moved [OF f trims(1)])
      (use s in \<open>simp_all add: token_by_hash_def test_token_def empty_db_def org_by_slug_def claimed_by_def\<close>)
  then obtain row x t' c' where c: "claim_org E test_st lk (bearer ''admin_a'') ''acme'' (moved w ?d 1 1 (Suc (calls w))) =
     (Inr \<lparr>cl_slug = ''acme'', cl_created = True\<rparr>,
      moved w (?d\<lparr>orgs := orgs ?d @ [row], audits := audits ?d @ [x]\<rparr>) (Suc (Suc 1)) t' c')"
    by blast
  show "fst (claiming_a_free_org_succeeds E lk (moved w empty_db 0 0 (calls w))) = Inr True"
    using c f by (simp add: claiming_a_free_org_succeeds_def seed_token_def steps)
qed

lemma taken_test:
  assumes q: "quiet w" and s: "is_slug E ''acme''" and h: "hash_token E ''admin_a'' \<noteq> hash_token E ''admin_b''"
  shows "passes (claiming_a_taken_org_conflicts E lk) w"
  using s h trims
  by (auto intro!: passesI [OF q] simp: claiming_a_taken_org_conflicts_def seed_token_def steps quiet_faults [OF q]
      empty_db_def insert_org_def insert_unique_def claim_org_def require_token_run [OF test_on] bearer_def
      bearer_token_def token_by_hash_def test_token_def org_by_slug_def org_taken_def err_conflict_def)

text \<open>What a database holds was drawn before: the next identifiers are fresh.\<close>

definition drawn_ids :: "world \<Rightarrow> nat \<Rightarrow> database \<Rightarrow> bool" where
  "drawn_ids w n d \<longleftrightarrow>
     o_id ` set (orgs d) \<subseteq> uuids w ` {..<n} \<and> a_id ` set (audits d) \<subseteq> uuids w ` {..<n} \<and>
     a_org ` set (audits d) \<subseteq> uuids w ` {..<n}"

lemma not_drawn: "quiet w \<Longrightarrow> n \<le> m \<Longrightarrow> m < 24 \<Longrightarrow> uuids w m \<notin> uuids w ` {..<n}"
proof
  assume q: "quiet w" "n \<le> m" "m < 24" and "uuids w m \<in> uuids w ` {..<n}"
  then obtain j where "uuids w m = uuids w j" "j < n" by blast
  with quiet_uuid [OF q(1,3), of j] q(2,3) show False by simp
qed

lemma claims_moved:
  assumes q: "quiet w"
    and tok: "str_trim p = p" "token_by_hash (hash_token E p) d = Some tok" "t_revoked_at tok = None" "t_expires_at tok = None"
    and slugs: "distinct slugs" "\<forall>s\<in>set slugs. is_slug E s \<and> org_by_slug s d = None"
    and few: "claimed_by (t_id tok) d + length slugs \<le> 5" and ids: "drawn_ids w n d" "n + 2 * length slugs \<le> 24"
  shows "\<exists>d' n' t' c'. claim_all E lk (bearer p) slugs (moved w d n t c) = (Inr True, moved w d' n' t' c') \<and>
     tokens d' = tokens d \<and> length (orgs d') = length (orgs d) + length slugs \<and>
     o_slug ` set (orgs d') = o_slug ` set (orgs d) \<union> set slugs \<and>
     claimed_by (t_id tok) d' = claimed_by (t_id tok) d + length slugs"
  using tok(2) slugs few ids
proof (induction slugs arbitrary: d n t c)
  case Nil
  then show ?case by (auto simp: claim_all.simps)
next
  case (Cons slug slugs)
  have n: "n < 24" "Suc n < 24" using Cons.prems(6) by simp_all
  have fresh: "uuids w n \<notin> o_id ` set (orgs d)" "uuids w (Suc n) \<notin> a_id ` set (audits d)"
    "\<forall>r\<in>set (audits d). a_org r \<noteq> uuids w n"
    using Cons.prems(5) not_drawn [OF q, of n n] not_drawn [OF q, of n "Suc n"] n
    unfolding drawn_ids_def image_subset_iff by auto metis
  have slug: "is_slug E slug" "org_by_slug slug d = None" using Cons.prems(3) by simp_all
  have few: "t_org tok \<noteq> None \<longrightarrow> claimed_by (t_id tok) d < 5" using Cons.prems(4) by simp
  obtain row x t1 c1 where claim: "claim_org E test_st lk (bearer p) slug (moved w d n t c) =
      (Inr \<lparr>cl_slug = slug, cl_created = True\<rparr>,
       moved w (d\<lparr>orgs := orgs d @ [row], audits := audits d @ [x]\<rparr>) (Suc (Suc n)) t1 c1)"
    and row: "o_id row = uuids w n" "o_slug row = slug" "o_created_by row = Some (t_id tok)"
      "a_id x = uuids w (Suc n)" "a_org x = uuids w n"
    using claim_moved [OF quiet_faults [OF q] tok(1) Cons.prems(1) tok(3,4) slug few fresh] by blast
  let ?d = "d\<lparr>orgs := orgs d @ [row], audits := audits d @ [x]\<rparr>"
  have "token_by_hash (hash_token E p) ?d = Some tok" using Cons.prems(1) by (simp add: token_by_hash_def)
  moreover have "distinct slugs" "\<forall>s\<in>set slugs. is_slug E s \<and> org_by_slug s ?d = None"
    using Cons.prems(2,3) row(2) by (auto simp: org_by_slug_def find_None_iff)
  moreover have "claimed_by (t_id tok) ?d + length slugs \<le> 5"
    using Cons.prems(4) row(3) by (simp add: claimed_by_def)
  moreover have "drawn_ids w (Suc (Suc n)) ?d"
    using Cons.prems(5) row by (auto simp: drawn_ids_def lessThan_Suc)
  moreover have "Suc (Suc n) + 2 * length slugs \<le> 24" using Cons.prems(6) by simp
  ultimately obtain d' n' t' c' where rest: "claim_all E lk (bearer p) slugs (moved w ?d (Suc (Suc n)) t1 c1) = (Inr True, moved w d' n' t' c')"
    and d': "tokens d' = tokens ?d" "length (orgs d') = length (orgs ?d) + length slugs"
      "o_slug ` set (orgs d') = o_slug ` set (orgs ?d) \<union> set slugs"
      "claimed_by (t_id tok) d' = claimed_by (t_id tok) ?d + length slugs"
    using Cons.IH [of ?d "Suc (Suc n)" t1 c1] by blast
  have "claim_all E lk (bearer p) (slug # slugs) (moved w d n t c) = (Inr True, moved w d' n' t' c')"
    using claim rest by (simp add: andThen_def)
  then show ?case using d' row by (intro exI conjI) (auto simp: claimed_by_def)
qed

lemma quota_test:
  assumes q: "quiet w" and s: "\<forall>s\<in>set (''one-too-many'' # map (\<lambda>i. ''org-'' @ nat_str i) [0..<5]). is_slug E s"
  shows "passes (org_quota_is_enforced E lk) w"
proof (rule passesI [OF q])
  let ?tok = "test_token E (uuids w 1) (clock w 0) ''t'' ''scoped'' (Some (uuids w 0)) ''owner''"
  let ?d = "empty_db\<lparr>tokens := [?tok]\<rparr>" and ?slugs = "map (\<lambda>i. ''org-'' @ nat_str i) [0..<5]"
  note f = quiet_faults [OF q]
  have tok: "token_by_hash (hash_token E ''scoped'') ?d = Some ?tok" "t_revoked_at ?tok = None" "t_expires_at ?tok = None"
    by (simp_all add: token_by_hash_def test_token_def)
  have "distinct ?slugs" by (auto simp: distinct_map inj_on_def nat_str_inj)
  then have "\<exists>d' n' t' c'. claim_all E lk (bearer ''scoped'') ?slugs (moved w ?d (Suc (Suc 0)) (Suc 0) (Suc (calls w))) = (Inr True, moved w d' n' t' c') \<and>
     tokens d' = tokens ?d \<and> length (orgs d') = length (orgs ?d) + length ?slugs \<and>
     o_slug ` set (orgs d') = o_slug ` set (orgs ?d) \<union> set ?slugs \<and>
     claimed_by (t_id ?tok) d' = claimed_by (t_id ?tok) ?d + length ?slugs"
    by (intro claims_moved [OF q trims(3) tok])
      (use s in \<open>simp_all add: org_by_slug_def claimed_by_def drawn_ids_def\<close>)
  then obtain d' n' t' c' where claims: "claim_all E lk (bearer ''scoped'') ?slugs (moved w ?d (Suc (Suc 0)) (Suc 0) (Suc (calls w))) = (Inr True, moved w d' n' t' c')"
    and d': "tokens d' = [?tok]" "length (orgs d') = 5" "o_slug ` set (orgs d') = set ?slugs"
      "claimed_by (t_id ?tok) d' = 5"
    by (auto simp: claimed_by_def)
  have req: "require_token E test_st (bearer ''scoped'') (moved w d' n' t' c') = (Inr ?tok, moved w d' n' t' (Suc c'))"
    by (rule require_moved [OF f trims(3)]) (use d'(1) in \<open>simp_all add: token_by_hash_def test_token_def\<close>)
  have "''one-too-many'' \<notin> o_slug ` set (orgs d')" unfolding d'(3) by auto
  then have "org_by_slug ''one-too-many'' d' = None" unfolding org_by_slug_def find_None_iff by (metis imageI)
  then have "\<exists>v. claim_org E test_st lk (bearer ''scoped'') ''one-too-many'' (moved w d' n' t' c') =
      (Inl (org_quota_exceeded 5 5), v) \<and> db v = d' \<and> faults v = (\<lambda>_. None)"
    using req d'(4) s f
    by (simp add: claim_org_def claim_org_serialized_def claim_txn_def in_txn_def check_quota_def
        release_fiducia_guard_def steps Let_def) (simp add: test_token_def)
  then obtain v where v: "claim_org E test_st lk (bearer ''scoped'') ''one-too-many'' (moved w d' n' t' c') =
      (Inl (org_quota_exceeded 5 5), v)" "db v = d'" "faults v = (\<lambda>_. None)" by blast
  show "fst (org_quota_is_enforced E lk (moved w empty_db 0 0 (calls w))) = Inr True"
    using claims v(2,3) f d'(2)
    by (simp add: org_quota_is_enforced_def seed_token_def steps v(1) del: claim_all.simps upt_Suc)
      (simp add: org_quota_exceeded_def)
qed

end
