(* ===== verification/Yank_Tests.thy ===== *)
theory Yank_Tests
  imports Handler_Tests
begin

text \<open>The tests of \<open>src/routes/yank.rs\<close>, as programs over a quiet world (theory \<open>Handler_Tests\<close>).\<close>

section \<open>The tests\<close>

text \<open>What \<open>unwrap\<close> of a \<open>None\<close> makes of a test.\<close>

definition panicked :: api_err where
  "panicked = \<lparr>err_status = INTERNAL_SERVER_ERROR, err_code = ''panic'', err_message = []\<rparr>"

definition kit_package :: "uuid \<Rightarrow> uuid \<Rightarrow> timestamp \<Rightarrow> package_row" where
  "kit_package i org now =
     \<lparr>p_id = i, p_org = org, p_name = ''http-kit'', p_description = None, p_vcs = ''git'',
      p_repo_url = ''https://github.com/acme/http-kit'', p_scheme = ''semver'', p_tags = JArray [],
      p_created_at = now\<rparr>"

definition kit_version :: "uuid \<Rightarrow> uuid \<Rightarrow> timestamp \<Rightarrow> version_row" where
  "kit_version i pkg now =
     \<lparr>v_id = i, v_package = pkg, v_version = ''1.0.0'', v_sha256 = replicate 64 CHR ''a'', v_size = 10,
      v_format = ''tar.gz'', v_vcs_tag = ''v1.0.0'', v_vcs_commit = None,
      v_artifact_key = ''artifacts/aaa.tar.gz'', v_yanked = False, v_published_at = now\<rparr>"

definition seed_kit :: "externals \<Rightarrow> string \<Rightarrow> (api_err, string) io" where
  "seed_kit E role =
     andThen new_uuid (\<lambda>org_id.
     andThen new_uuid (\<lambda>pkg_id.
     andThen new_uuid (\<lambda>u. let plaintext = ''zpkg_'' @ (role @ ''_'') @ uuid_simple E u in
     andThen utc_now (\<lambda>now.
     andThen (seed_row insert_org \<lparr>o_id = org_id, o_slug = ''acme'', o_created_at = now, o_created_by = None\<rparr>) (\<lambda>_.
     andThen new_uuid (\<lambda>i.
     andThen utc_now (\<lambda>now.
     andThen (seed_row insert_token (test_token E i now ''t'' plaintext (Some org_id) role)) (\<lambda>_.
     andThen utc_now (\<lambda>now.
     andThen (seed_row insert_package (kit_package pkg_id org_id now)) (\<lambda>_.
     andThen new_uuid (\<lambda>i.
     andThen utc_now (\<lambda>now.
     andThen (seed_row insert_version (kit_version i pkg_id now)) (\<lambda>_.
       ret plaintext)))))))))))))"

definition yank_call :: "externals \<Rightarrow> string \<Rightarrow> bool \<Rightarrow> (api_err, yank_response) io" where
  "yank_call E plaintext yanked = yank E test_st (bearer plaintext) ''acme'' ''http-kit'' ''1.0.0'' yanked"

definition is_yanked :: "(api_err, bool) io" where
  "is_yanked =
     andThen (dbq (select (\<lambda>d. find (\<lambda>_. True) (versions d)))) (\<lambda>found.
     andThen (or_else found panicked) (\<lambda>row. ret (v_yanked row)))"

definition reader_token_cannot_yank :: "externals \<Rightarrow> (api_err, bool) io" where
  "reader_token_cannot_yank E =
     andThen (seed_kit E ''reader'') (\<lambda>reader.
     andThen (expect_err (yank_call E reader True) (\<lambda>err. err_code err = ''insufficient_role'')) (\<lambda>ok.
     andThen is_yanked (\<lambda>y. ret (ok \<and> \<not> y))))"

definition publisher_can_yank_and_restore :: "externals \<Rightarrow> (api_err, bool) io" where
  "publisher_can_yank_and_restore E =
     andThen (seed_kit E ''publisher'') (\<lambda>publisher.
     andThen (yank_call E publisher True) (\<lambda>resp1.
     andThen is_yanked (\<lambda>y1.
     andThen (yank_call E publisher False) (\<lambda>resp2.
     andThen is_yanked (\<lambda>y2.
       ret (yk_yanked resp1 \<and> y1 \<and> \<not> yk_yanked resp2 \<and> \<not> y2))))))"

definition cross_org_token_cannot_yank :: "externals \<Rightarrow> (api_err, bool) io" where
  "cross_org_token_cannot_yank E =
     andThen (seed_kit E ''owner'') (\<lambda>_.
     andThen new_uuid (\<lambda>u. let foreign_plaintext = ''zpkg_'' @ ''foreign_'' @ uuid_simple E u in
     andThen new_uuid (\<lambda>foreign_org.
     andThen utc_now (\<lambda>now.
     andThen (seed_row insert_org \<lparr>o_id = foreign_org, o_slug = ''other'', o_created_at = now, o_created_by = None\<rparr>) (\<lambda>_.
     andThen new_uuid (\<lambda>i.
     andThen utc_now (\<lambda>now.
     andThen (seed_row insert_token (test_token E i now ''foreign'' foreign_plaintext (Some foreign_org) ''owner'')) (\<lambda>_.
     andThen (expect_err (yank_call E foreign_plaintext True) (\<lambda>err. err_code err = ''unauthorized'')) (\<lambda>ok.
     andThen is_yanked (\<lambda>y. ret (ok \<and> \<not> y)))))))))))"

definition seed_reader :: "externals \<Rightarrow> (api_err, string) io" where
  "seed_reader E =
     andThen (dbq (select (\<lambda>d. find (\<lambda>_. True) (orgs d)))) (\<lambda>found.
     andThen (or_else found panicked) (\<lambda>org.
     andThen new_uuid (\<lambda>u. let plaintext = ''zpkg_'' @ ''reader_'' @ uuid_simple E u in
     andThen new_uuid (\<lambda>i.
     andThen utc_now (\<lambda>now.
     andThen (seed_row insert_token (test_token E i now ''r'' plaintext (Some (o_id org)) ''reader'')) (\<lambda>_.
       ret plaintext))))))"

definition yank_is_audited_and_denials_are_not :: "externals \<Rightarrow> (api_err, bool) io" where
  "yank_is_audited_and_denials_are_not E =
     andThen (seed_kit E ''publisher'') (\<lambda>publisher.
     andThen (yank_call E publisher True) (\<lambda>_.
     andThen (dbq (select audits)) (\<lambda>rows.
     andThen (yank_call E publisher False) (\<lambda>_.
     andThen (dbq (select audits)) (\<lambda>both.
     andThen (seed_reader E) (\<lambda>reader.
     andThen (expect_err (yank_call E reader True) (\<lambda>_. True)) (\<lambda>denied.
     andThen (dbq (select audits)) (\<lambda>after.
       ret (length rows = 1 \<and> a_action (hd rows) = ''yank'' \<and> a_subject (hd rows) = ''acme/http-kit@1.0.0'' \<and>
            a_role (hd rows) = ''publisher'' \<and> a_token_name (hd rows) = ''t'' \<and>
            ''unyank'' \<in> set (map a_action both) \<and> denied \<and> length both = length after)))))))))"

section \<open>They pass\<close>

definition kit_plain :: "externals \<Rightarrow> world \<Rightarrow> string \<Rightarrow> string" where
  "kit_plain E w role = ''zpkg_'' @ (role @ ''_'') @ uuid_simple E (uuids w 2)"

definition kit_org :: "world \<Rightarrow> org_row" where
  "kit_org w = \<lparr>o_id = uuids w 0, o_slug = ''acme'', o_created_at = clock w 0, o_created_by = None\<rparr>"

definition kit_token :: "externals \<Rightarrow> world \<Rightarrow> string \<Rightarrow> token_row" where
  "kit_token E w role = test_token E (uuids w 3) (clock w (Suc 0)) ''t'' (kit_plain E w role) (Some (uuids w 0)) role"

definition kit_db :: "externals \<Rightarrow> world \<Rightarrow> string \<Rightarrow> bool \<Rightarrow> audit_row list \<Rightarrow> database" where
  "kit_db E w role y aud =
     \<lparr>orgs = [kit_org w], tokens = [kit_token E w role], packages = [kit_package (uuids w (Suc 0)) (uuids w 0) (clock w 2)],
      versions = [(kit_version (uuids w 4) (uuids w (Suc 0)) (clock w 3))\<lparr>v_yanked := y\<rparr>], audits = aud, embeddings = []\<rparr>"

lemma kit_db_simps [simp]:
  "orgs (kit_db E w role y aud) = [kit_org w]" "tokens (kit_db E w role y aud) = [kit_token E w role]"
  "versions (kit_db E w role y aud) = [(kit_version (uuids w 4) (uuids w (Suc 0)) (clock w 3))\<lparr>v_yanked := y\<rparr>]"
  "audits (kit_db E w role y aud) = aud" "(kit_db E w role y aud)\<lparr>audits := aud'\<rparr> = kit_db E w role y aud'"
  "update_version (uuids w 4) (\<lambda>r. r\<lparr>v_yanked := z\<rparr>) (kit_db E w role y aud) = kit_db E w role z aud"
  by (simp_all add: kit_db_def update_version_def map_where_def kit_version_def)

lemma kit_token_simps [simp]:
  "t_org (kit_token E w role) = Some (uuids w 0)" "t_role (kit_token E w role) = role" "o_id (kit_org w) = uuids w 0"
  "t_name (kit_token E w role) = ''t''" "t_id (kit_token E w role) = uuids w 3"
  by (simp_all add: kit_token_def test_token_def kit_org_def)

lemma kit_seeded:
  assumes "faults w = (\<lambda>_. None)"
  shows "seed_kit E role (moved w empty_db 0 0 c) = (Inr (kit_plain E w role), moved w (kit_db E w role False []) 5 4 (c + 4))"
  using assms
  by (simp add: seed_kit_def steps Let_def insert_org_def insert_token_def insert_package_def insert_version_def
      insert_unique_def numeral_eq_Suc kit_db_def kit_plain_def kit_org_def kit_token_def kit_version_def
      kit_package_def empty_db_def test_token_def)

lemma kit_lookups:
  "org_by_slug ''acme'' (kit_db E w role y aud) = Some (kit_org w)"
  "package_by_name (uuids w 0) ''http-kit'' (kit_db E w role y aud) = Some (kit_package (uuids w (Suc 0)) (uuids w 0) (clock w 2))"
  "version_by_name (uuids w (Suc 0)) ''1.0.0'' (kit_db E w role y aud) = Some ((kit_version (uuids w 4) (uuids w (Suc 0)) (clock w 3))\<lparr>v_yanked := y\<rparr>)"
  "p_id (kit_package i org now) = i" "v_id (kit_version i pkg now) = i"
  by (simp_all add: org_by_slug_def package_by_name_def version_by_name_def kit_db_def kit_org_def kit_package_def kit_version_def)

lemma kit_found: "token_by_hash (hash_token E (kit_plain E w role)) (kit_db E w role y aud) = Some (kit_token E w role)"
  "t_revoked_at (kit_token E w role) = None" "t_expires_at (kit_token E w role) = None"
  by (simp_all add: token_by_hash_def kit_token_def test_token_def)

lemma kit_trim: "simple_ok E \<Longrightarrow> str_trim (kit_plain E w role) = kit_plain E w role"
  unfolding simple_ok_def kit_plain_def by blast

text \<open>The entry of a yank, or of its undoing.\<close>

definition kit_entry :: "externals \<Rightarrow> world \<Rightarrow> string \<Rightarrow> audit_row list \<Rightarrow> bool \<Rightarrow> nat \<Rightarrow> nat \<Rightarrow> audit_row" where
  "kit_entry E w role aud y n t = append_row E (uuids w 0) (kit_token E w role) (if y then Yank else Unyank)
     (coordinate ''acme'' ''http-kit'' ''1.0.0'') None (audit_tip (uuids w 0) (kit_db E w role y aud)) (clock w t) (uuids w n)"

lemma kit_entry_simps:
  "a_org (kit_entry E w role aud y n t) = uuids w 0" "a_id (kit_entry E w role aud y n t) = uuids w n"
  "a_seq (kit_entry E w role [] y n t) = 1"
  "a_org x = uuids w 0 \<Longrightarrow> a_seq (kit_entry E w role [x] y n t) = a_seq x + 1"
  "a_action (kit_entry E w role aud y n t) = action_as_str E (if y then Yank else Unyank)"
  "a_subject (kit_entry E w role aud y n t) = ''acme/http-kit@1.0.0''"
  "a_role (kit_entry E w role aud y n t) = role" "a_token_name (kit_entry E w role aud y n t) = ''t''"
  by (simp_all add: kit_entry_def append_row_def Let_def tip_seq_def audit_tip_def coordinate_def actor_role_def)

text \<open>A yank that is allowed: the flag and one entry, which must be new.\<close>

lemma kit_yank:
  fixes E w role aud n t y
  defines "x \<equiv> kit_entry E w role aud y n t"
  assumes f: "faults w = (\<lambda>_. None)" and s: "simple_ok E" and role: "can_publish (role_parse role)"
    and ins: "insert_audit x (kit_db E w role y aud) = Inr (kit_db E w role y (aud @ [x]))"
  shows "\<exists>c'. yank_call E (kit_plain E w role) y (moved w (kit_db E w role y0 aud) n t c) =
     (Inr \<lparr>yk_org = ''acme'', yk_name = ''http-kit'', yk_version = ''1.0.0'', yk_yanked = y\<rparr>,
      moved w (kit_db E w role y (aud @ [x])) (Suc n) (Suc t) c')"
proof -
  have auth: "authorize_publish (Some (uuids w 0)) (role_parse role) (uuids w 0) = Inr ()"
    using role by (simp add: authorize_publish_def)
  note req = require_moved [OF f kit_trim [OF s] kit_found, of w role y0 aud n t c]
  note rec = record_moved [OF f ins [unfolded x_def kit_entry_def]]
  show ?thesis
    using f auth rec
    by (cases y) (auto simp: yank_call_def yank_def req steps find_org_def find_package_def find_version_def
        kit_lookups or_else_def x_def kit_entry_def)
qed

lemma kit_denied:
  assumes "faults w = (\<lambda>_. None)" "simple_ok E" "\<not> can_publish (role_parse role)"
  shows "\<exists>c' e. yank_call E (kit_plain E w role) y (moved w (kit_db E w role y0 aud) n t c) =
     (Inl e, moved w (kit_db E w role y0 aud) n t c') \<and> err_code e = ''insufficient_role''"
  using assms require_moved [OF assms(1) kit_trim [OF assms(2)] kit_found, of w role y0 aud n t c]
  by (auto simp: yank_call_def yank_def steps find_org_def kit_lookups or_else_def authorize_publish_def
      err_forbidden_def)

lemma reader_test:
  assumes q: "quiet w" and s: "simple_ok E"
  shows "passes (reader_token_cannot_yank E) w"
proof (rule passesI [OF q])
  note f = quiet_faults [OF q]
  have "\<not> can_publish (role_parse ''reader'')" by (simp add: role_parse_def)
  from kit_denied [OF f s this, of True False "[]" 5 4 "calls w + 4"]
  show "fst (reader_token_cannot_yank E (moved w empty_db 0 0 (calls w))) = Inr True"
    using f by (auto simp: reader_token_cannot_yank_def kit_seeded [OF f] is_yanked_def steps or_else_def kit_version_def)
qed

lemma kit_twice:
  assumes q: "quiet w" and s: "simple_ok E" and role: "can_publish (role_parse role)"
  defines "x1 \<equiv> kit_entry E w role [] True 5 4"
  defines "x2 \<equiv> kit_entry E w role [x1] False 6 5"
  shows "\<exists>c'. yank_call E (kit_plain E w role) True (moved w (kit_db E w role False []) 5 4 c) =
     (Inr \<lparr>yk_org = ''acme'', yk_name = ''http-kit'', yk_version = ''1.0.0'', yk_yanked = True\<rparr>,
      moved w (kit_db E w role True [x1]) 6 5 c')"
    and "\<exists>c'. yank_call E (kit_plain E w role) False (moved w (kit_db E w role True [x1]) 6 5 c) =
     (Inr \<lparr>yk_org = ''acme'', yk_name = ''http-kit'', yk_version = ''1.0.0'', yk_yanked = False\<rparr>,
      moved w (kit_db E w role False [x1, x2]) 7 6 c')"
proof -
  note f = quiet_faults [OF q]
  have "insert_audit x1 (kit_db E w role True []) = Inr (kit_db E w role True ([] @ [x1]))"
    unfolding insert_audit_Inr by (simp add: x1_def kit_entry_simps)
  from kit_yank [OF f s role this [unfolded x1_def], of False c, folded x1_def]
  show "\<exists>c'. yank_call E (kit_plain E w role) True (moved w (kit_db E w role False []) 5 4 c) =
     (Inr \<lparr>yk_org = ''acme'', yk_name = ''http-kit'', yk_version = ''1.0.0'', yk_yanked = True\<rparr>,
      moved w (kit_db E w role True [x1]) 6 5 c')" by simp
  have "uuids w 6 \<noteq> uuids w 5" using quiet_uuid [OF q, of 6 5] by simp
  then have "insert_audit x2 (kit_db E w role False [x1]) = Inr (kit_db E w role False ([x1] @ [x2]))"
    unfolding insert_audit_Inr by (simp add: x2_def x1_def kit_entry_simps audit_key_def)
  from kit_yank [OF f s role this [unfolded x2_def], of True c, folded x2_def]
  show "\<exists>c'. yank_call E (kit_plain E w role) False (moved w (kit_db E w role True [x1]) 6 5 c) =
     (Inr \<lparr>yk_org = ''acme'', yk_name = ''http-kit'', yk_version = ''1.0.0'', yk_yanked = False\<rparr>,
      moved w (kit_db E w role False [x1, x2]) 7 6 c')" by simp
qed

lemma restore_test:
  assumes q: "quiet w" and s: "simple_ok E"
  shows "passes (publisher_can_yank_and_restore E) w"
proof (rule passesI [OF q])
  note f = quiet_faults [OF q]
  have p: "can_publish (role_parse ''publisher'')" by (simp add: role_parse_def)
  obtain c1 where 1: "yank_call E (kit_plain E w ''publisher'') True (moved w (kit_db E w ''publisher'' False []) 5 4 (calls w + 4)) =
     (Inr \<lparr>yk_org = ''acme'', yk_name = ''http-kit'', yk_version = ''1.0.0'', yk_yanked = True\<rparr>,
      moved w (kit_db E w ''publisher'' True [kit_entry E w ''publisher'' [] True 5 4]) 6 5 c1)"
    using kit_twice(1) [OF q s p] by blast
  show "fst (publisher_can_yank_and_restore E (moved w empty_db 0 0 (calls w))) = Inr True"
    using 1 kit_twice(2) [OF q s p, of "Suc c1"] f
    by (auto simp: publisher_can_yank_and_restore_def kit_seeded [OF f] is_yanked_def steps or_else_def kit_version_def)
qed

lemma cross_org_test:
  assumes q: "quiet w" and s: "simple_ok E"
    and h: "hash_token E (''zpkg_'' @ ''foreign_'' @ uuid_simple E (uuids w 5)) \<noteq> hash_token E (kit_plain E w ''owner'')"
  shows "passes (cross_org_token_cannot_yank E) w"
proof (rule passesI [OF q])
  note f = quiet_faults [OF q]
  let ?p = "''zpkg_'' @ ''foreign_'' @ uuid_simple E (uuids w 5)"
  define tok where "tok = test_token E (uuids w 7) (clock w 5) ''foreign'' ?p (Some (uuids w 6)) ''owner''"
  define org where "org = \<lparr>o_id = uuids w 6, o_slug = ''other'', o_created_at = clock w 4, o_created_by = None\<rparr>"
  let ?d = "(kit_db E w ''owner'' False [])\<lparr>orgs := [kit_org w, org], tokens := [kit_token E w ''owner'', tok]\<rparr>"
  have u: "uuids w 6 \<noteq> uuids w 0" "uuids w 7 \<noteq> uuids w 3"
    using quiet_uuid [OF q, of 6 0] quiet_uuid [OF q, of 7 3] by simp_all
  have ins: "insert_org org (kit_db E w ''owner'' False []) = Inr ((kit_db E w ''owner'' False [])\<lparr>orgs := [kit_org w, org]\<rparr>)"
    "insert_token tok ((kit_db E w ''owner'' False [])\<lparr>orgs := [kit_org w, org]\<rparr>) = Inr ?d"
    using u h unfolding insert_org_Inr insert_token_Inr
    by (simp_all add: org_def tok_def kit_org_def kit_token_def test_token_def kit_db_def)
  have "token_by_hash (hash_token E ?p) ?d = Some tok" "t_revoked_at tok = None" "t_expires_at tok = None"
    using h by (simp_all add: token_by_hash_def tok_def kit_token_def test_token_def)
  moreover have "str_trim ?p = ?p" using s unfolding simple_ok_def by blast
  ultimately have req: "require_token E test_st (bearer ?p) (moved w ?d n t c) = (Inr tok, moved w ?d n t (Suc c))" for n t c
    using require_moved [OF f] by blast
  have tk: "t_org tok = Some (uuids w 6)" "t_role tok = ''owner''" by (simp_all add: tok_def test_token_def)
  have "org_by_slug ''acme'' ?d = Some (kit_org w)" by (simp add: org_by_slug_def kit_org_def)
  then have denied: "\<exists>c'. yank_call E ?p True (moved w ?d n t c) = (Inl err_unauthorized, moved w ?d n t c')" for n t c
    using req f u tk by (auto simp: yank_call_def yank_def steps find_org_def or_else_def authorize_publish_def)
  then obtain c' where "yank_call E ?p True (moved w ?d 8 6 (Suc (Suc (calls w + 4)))) = (Inl err_unauthorized, moved w ?d 8 6 c')"
    by blast
  then show "fst (cross_org_token_cannot_yank E (moved w empty_db 0 0 (calls w))) = Inr True"
    using f ins [unfolded org_def tok_def]
    by (simp add: cross_org_token_cannot_yank_def kit_seeded [OF f] steps Let_def is_yanked_def or_else_def
        kit_version_def err_unauthorized_def org_def tok_def)
qed

lemma audited_test:
  assumes q: "quiet w" and s: "simple_ok E"
    and act: "action_as_str E Yank = ''yank''" "action_as_str E Unyank = ''unyank''"
    and h: "hash_token E (''zpkg_'' @ ''reader_'' @ uuid_simple E (uuids w 7)) \<noteq> hash_token E (kit_plain E w ''publisher'')"
  shows "passes (yank_is_audited_and_denials_are_not E) w"
proof (rule passesI [OF q])
  note f = quiet_faults [OF q]
  let ?r = "''publisher''" and ?p = "''zpkg_'' @ ''reader_'' @ uuid_simple E (uuids w 7)"
  have p: "can_publish (role_parse ?r)" by (simp add: role_parse_def)
  define x1 where "x1 = kit_entry E w ?r [] True 5 4"
  define x2 where "x2 = kit_entry E w ?r [x1] False 6 5"
  have x: "a_action x1 = ''yank''" "a_subject x1 = ''acme/http-kit@1.0.0''" "a_role x1 = ?r" "a_token_name x1 = ''t''"
    "a_action x2 = ''unyank''"
    by (simp_all add: x1_def x2_def kit_entry_simps act)
  note twice = kit_twice [OF q s p, folded x1_def, folded x2_def]
  obtain c1 where 1: "yank_call E (kit_plain E w ?r) True (moved w (kit_db E w ?r False []) 5 4 (calls w + 4)) =
     (Inr \<lparr>yk_org = ''acme'', yk_name = ''http-kit'', yk_version = ''1.0.0'', yk_yanked = True\<rparr>,
      moved w (kit_db E w ?r True [x1]) 6 5 c1)"
    using twice(1) by blast
  obtain c2 where 2: "yank_call E (kit_plain E w ?r) False (moved w (kit_db E w ?r True [x1]) 6 5 (Suc c1)) =
     (Inr \<lparr>yk_org = ''acme'', yk_name = ''http-kit'', yk_version = ''1.0.0'', yk_yanked = False\<rparr>,
      moved w (kit_db E w ?r False [x1, x2]) 7 6 c2)"
    using twice(2) by blast
  define tok where "tok = test_token E (uuids w 8) (clock w 6) ''r'' ?p (Some (uuids w 0)) ''reader''"
  let ?d = "(kit_db E w ?r False [x1, x2])\<lparr>tokens := [kit_token E w ?r, tok]\<rparr>"
  have ins: "insert_token tok (kit_db E w ?r False [x1, x2]) = Inr ?d"
    using quiet_uuid [OF q, of 8 3] h unfolding insert_token_Inr
    by (simp add: tok_def kit_token_def test_token_def kit_db_def kit_org_def)
  have "token_by_hash (hash_token E ?p) ?d = Some tok" "t_revoked_at tok = None" "t_expires_at tok = None"
    using h by (simp_all add: token_by_hash_def tok_def kit_token_def test_token_def)
  moreover have "str_trim ?p = ?p" using s unfolding simple_ok_def by blast
  ultimately have req: "require_token E test_st (bearer ?p) (moved w ?d n t c) = (Inr tok, moved w ?d n t (Suc c))" for n t c
    using require_moved [OF f] by blast
  have tk: "t_org tok = Some (uuids w 0)" "t_role tok = ''reader''" by (simp_all add: tok_def test_token_def)
  have "org_by_slug ''acme'' ?d = Some (kit_org w)" by (simp add: org_by_slug_def kit_org_def)
  then have "\<exists>c' e. yank_call E ?p True (moved w ?d n t c) = (Inl e, moved w ?d n t c')" for n t c
    using req f tk by (auto simp: yank_call_def yank_def steps find_org_def or_else_def authorize_publish_def role_parse_def)
  then obtain c' e where denied: "yank_call E ?p True (moved w ?d 9 7 (Suc (Suc (Suc c2)))) = (Inl e, moved w ?d 9 7 c')"
    by blast
  show "fst (yank_is_audited_and_denials_are_not E (moved w empty_db 0 0 (calls w))) = Inr True"
    using f ins [unfolded tok_def] denied [unfolded tok_def] x
    by (simp add: yank_is_audited_and_denials_are_not_def kit_seeded [OF f] steps Let_def or_else_def 1 2 seed_reader_def)
qed

end
