(* ===== verification/Log_Tests.thy ===== *)
theory Log_Tests
  imports Yank_Tests
begin

text \<open>The tests of \<open>src/routes/audit.rs\<close>, as programs over a quiet world (theory \<open>Handler_Tests\<close>).\<close>

section \<open>The tests\<close>

definition seed_acme :: "externals \<Rightarrow> string \<Rightarrow> (api_err, uuid \<times> string) io" where
  "seed_acme E role =
     andThen new_uuid (\<lambda>org_id.
     andThen utc_now (\<lambda>now.
     andThen (seed_row insert_org \<lparr>o_id = org_id, o_slug = ''acme'', o_created_at = now, o_created_by = None\<rparr>) (\<lambda>_.
     andThen new_uuid (\<lambda>u. let plaintext = ''zpkg_'' @ (role @ ''_'') @ uuid_simple E u in
     andThen new_uuid (\<lambda>i.
     andThen utc_now (\<lambda>now.
     andThen (seed_row insert_token (test_token E i now (role @ ''-token'') plaintext (Some org_id) role)) (\<lambda>_.
       ret (org_id, plaintext))))))))"

definition any_query :: audit_query where
  "any_query = \<lparr>q_limit = None, q_action = None, q_before = None\<rparr>"

definition query_call :: "externals \<Rightarrow> string option \<Rightarrow> audit_query \<Rightarrow> (api_err, string \<times> audit_entry list) io" where
  "query_call E header query = get_audit_log E test_st header ''acme'' query"

definition log_call :: "externals \<Rightarrow> string option \<Rightarrow> nat option \<Rightarrow> (api_err, string \<times> audit_entry list) io" where
  "log_call E header limit = query_call E header (any_query\<lparr>q_limit := limit\<rparr>)"

definition verify_call :: "externals \<Rightarrow> string option \<Rightarrow> (api_err, integrity) io" where
  "verify_call E header = verify_audit_log E test_st header ''acme''"

fun append_all :: "externals \<Rightarrow> uuid \<Rightarrow> token_row \<Rightarrow> nat \<Rightarrow> audit_action list \<Rightarrow> (api_err, unit) io" where
  "append_all E org_id actor i [] = ret ()"
| "append_all E org_id actor i (action # actions) =
     andThen (record_audit E test_st org_id actor action (''acme/http-kit@1.0.'' @ nat_str i) None) (\<lambda>_.
     append_all E org_id actor (Suc i) actions)"

definition append_rows :: "externals \<Rightarrow> audit_action list \<Rightarrow> (api_err, unit) io" where
  "append_rows E actions =
     andThen (dbq (select (\<lambda>d. find (\<lambda>_. True) (tokens d)))) (\<lambda>found.
     andThen (or_else found panicked) (\<lambda>actor.
     andThen (dbq (select (\<lambda>d. find (\<lambda>_. True) (orgs d)))) (\<lambda>found.
     andThen (or_else found panicked) (\<lambda>org.
       append_all E (o_id org) actor 0 actions))))"

text \<open>Each role has a state, and so a quiet world, of its own.\<close>

definition refused_log :: "externals \<Rightarrow> string \<Rightarrow> (api_err, bool) io" where
  "refused_log E role =
     andThen (seed_acme E role) (\<lambda>(_, plaintext).
     expect_err (log_call E (bearer plaintext) None) (\<lambda>err. err_code err = ''insufficient_role''))"

definition granted_log :: "externals \<Rightarrow> (api_err, bool) io" where
  "granted_log E =
     andThen (seed_acme E ''owner'') (\<lambda>(_, owner).
     inspect (log_call E (bearer owner) None) (\<lambda>r. ret (is_ok r)))"

definition audit_log_is_owner_only :: "externals \<Rightarrow> (string \<Rightarrow> world) \<Rightarrow> bool" where
  "audit_log_is_owner_only E state \<longleftrightarrow>
     list_all (\<lambda>role. passes (refused_log E role) (state role)) [''publisher'', ''reader''] \<and>
     passes (granted_log E) (state ''owner'')"

definition missing_token_is_unauthorized :: "externals \<Rightarrow> (api_err, bool) io" where
  "missing_token_is_unauthorized E =
     andThen (seed_acme E ''owner'') (\<lambda>_.
     expect_err (log_call E None None) (\<lambda>err. err_code err = ''unauthorized''))"

definition entries_are_newest_first_and_name_the_actor :: "externals \<Rightarrow> (api_err, bool) io" where
  "entries_are_newest_first_and_name_the_actor E =
     andThen (seed_acme E ''owner'') (\<lambda>(_, owner).
     andThen (append_rows E [Publish, Yank, Unyank]) (\<lambda>_.
     andThen (log_call E (bearer owner) None) (\<lambda>(org, entries).
       ret (org = ''acme'' \<and> map en_action_kind entries = [Some Unyank, Some Yank, Some Publish] \<and>
            en_token_name (entries ! 0) = ''owner-token'' \<and> en_role (entries ! 0) = ''owner'' \<and>
            en_seq (entries ! 0) = 3 \<and> en_seq (entries ! 2) = 1 \<and> en_hash (entries ! 0) \<noteq> [] \<and>
            en_prev (entries ! 0) = Some (en_hash (entries ! 1)) \<and> en_prev (entries ! 2) = None))))"

definition limit_is_honored_and_clamped :: "externals \<Rightarrow> (api_err, bool) io" where
  "limit_is_honored_and_clamped E =
     andThen (seed_acme E ''owner'') (\<lambda>(_, owner).
     andThen (append_rows E (replicate 5 Publish)) (\<lambda>_.
     andThen (log_call E (bearer owner) (Some 2)) (\<lambda>two.
     andThen (log_call E (bearer owner) (Some 0)) (\<lambda>zero.
     andThen (log_call E (bearer owner) (Some U64_MAX)) (\<lambda>huge.
       ret (length (snd two) = 2 \<and> length (snd zero) = 1 \<and> length (snd huge) = 5))))))"

definition action_filter_narrows_and_rejects_unknown :: "externals \<Rightarrow> (api_err, bool) io" where
  "action_filter_narrows_and_rejects_unknown E =
     andThen (seed_acme E ''owner'') (\<lambda>(_, owner).
     andThen (append_rows E [Publish, Yank, Publish]) (\<lambda>_.
     andThen (query_call E (bearer owner) (any_query\<lparr>q_action := Some ''yank''\<rparr>)) (\<lambda>yanks.
     andThen (expect_err (query_call E (bearer owner) (any_query\<lparr>q_action := Some ''yankk''\<rparr>))
       (\<lambda>err. err_code err = ''invalid_action'')) (\<lambda>refused.
       ret (length (snd yanks) = 1 \<and> en_action (snd yanks ! 0) = ''yank'' \<and> refused)))))"

definition before_cursor_pages_backwards :: "externals \<Rightarrow> (api_err, bool) io" where
  "before_cursor_pages_backwards E =
     andThen (seed_acme E ''owner'') (\<lambda>(_, owner).
     andThen (append_rows E (replicate 5 Publish)) (\<lambda>_.
     andThen (query_call E (bearer owner) (any_query\<lparr>q_limit := Some 2\<rparr>)) (\<lambda>first.
     andThen (query_call E (bearer owner)
       (any_query\<lparr>q_limit := Some 2, q_before := Some (int (en_seq (last (snd first))))\<rparr>)) (\<lambda>next.
       ret (map en_seq (snd first) = [5, 4] \<and> map en_seq (snd next) = [3, 2])))))"

definition verify_reports_an_intact_chain :: "externals \<Rightarrow> (api_err, bool) io" where
  "verify_reports_an_intact_chain E =
     andThen (seed_acme E ''owner'') (\<lambda>(_, owner).
     andThen (append_rows E [Publish, Yank]) (\<lambda>_.
     andThen (verify_call E (bearer owner)) (\<lambda>report.
     andThen (log_call E (bearer owner) (Some 1)) (\<lambda>newest.
       ret (in_intact report \<and> in_checked report = 2 \<and> in_problem report = None \<and>
            in_head report = Some (en_hash (snd newest ! 0)))))))"

definition verify_detects_an_edited_row :: "externals \<Rightarrow> (api_err, bool) io" where
  "verify_detects_an_edited_row E =
     andThen (seed_acme E ''owner'') (\<lambda>(_, owner).
     andThen (append_rows E (replicate 3 Publish)) (\<lambda>_.
     andThen (dbq (select (\<lambda>d. find (\<lambda>r. a_seq r = 2) (audits d)))) (\<lambda>found.
     andThen (or_else found panicked) (\<lambda>row.
     andThen (dbq (update_stmt (\<lambda>d. d\<lparr>audits :=
       map_where (\<lambda>r. a_id r = a_id row) (\<lambda>r. r\<lparr>a_subject := ''acme/backdoor@9.9.9''\<rparr>) (audits d)\<rparr>))) (\<lambda>_.
     andThen (verify_call E (bearer owner)) (\<lambda>report.
       ret (\<not> in_intact report \<and> in_first_bad report = Some 2 \<and> in_problem report = Some ''hash_mismatch'')))))))"

definition verify_detects_a_deleted_row :: "externals \<Rightarrow> (api_err, bool) io" where
  "verify_detects_a_deleted_row E =
     andThen (seed_acme E ''owner'') (\<lambda>(_, owner).
     andThen (append_rows E (replicate 4 Publish)) (\<lambda>_.
     andThen (dbq (update_stmt (\<lambda>d. d\<lparr>audits := filter (\<lambda>r. a_seq r \<noteq> 2) (audits d)\<rparr>))) (\<lambda>_.
     andThen (verify_call E (bearer owner)) (\<lambda>report.
       ret (\<not> in_intact report \<and> in_problem report = Some ''sequence_gap'' \<and> in_first_bad report = Some 2)))))"

definition refused_verify :: "externals \<Rightarrow> string \<Rightarrow> (api_err, bool) io" where
  "refused_verify E role =
     andThen (seed_acme E role) (\<lambda>(_, scoped).
     expect_err (verify_call E (bearer scoped)) (\<lambda>err. err_code err = ''insufficient_role''))"

definition verify_is_owner_only :: "externals \<Rightarrow> (string \<Rightarrow> world) \<Rightarrow> bool" where
  "verify_is_owner_only E state =
     list_all (\<lambda>role. passes (refused_verify E role) (state role)) [''publisher'', ''reader'']"

definition unknown_action_strings_survive_a_read :: "externals \<Rightarrow> (api_err, bool) io" where
  "unknown_action_strings_survive_a_read E =
     andThen (seed_acme E ''owner'') (\<lambda>(org_id, owner).
     andThen new_uuid (\<lambda>i.
     andThen utc_now (\<lambda>now.
     andThen (seed_row insert_audit
       \<lparr>a_id = i, a_org = org_id, a_at = now, a_action = ''transfer_ownership'', a_subject = ''acme'',
        a_token_id = None, a_token_name = ''t'', a_role = ''admin'', a_detail = None, a_seq = 0, a_hash = [],
        a_prev = None\<rparr>) (\<lambda>_.
     andThen (log_call E (bearer owner) None) (\<lambda>(_, entries).
       ret (en_action (entries ! 0) = ''transfer_ownership'' \<and> en_action_kind (entries ! 0) = None))))))"

section \<open>The log a test builds\<close>

definition acme_plain :: "externals \<Rightarrow> world \<Rightarrow> string \<Rightarrow> string" where
  "acme_plain E w role = ''zpkg_'' @ (role @ ''_'') @ uuid_simple E (uuids w (Suc 0))"

definition acme_token :: "externals \<Rightarrow> world \<Rightarrow> string \<Rightarrow> token_row" where
  "acme_token E w role = test_token E (uuids w 2) (clock w (Suc 0)) (role @ ''-token'') (acme_plain E w role) (Some (uuids w 0)) role"

definition acme_db :: "externals \<Rightarrow> world \<Rightarrow> string \<Rightarrow> audit_row list \<Rightarrow> database" where
  "acme_db E w role aud = empty_db\<lparr>orgs := [kit_org w], tokens := [acme_token E w role], audits := aud\<rparr>"

lemma acme_db_simps [simp]:
  "orgs (acme_db E w role aud) = [kit_org w]" "tokens (acme_db E w role aud) = [acme_token E w role]"
  "audits (acme_db E w role aud) = aud" "(acme_db E w role aud)\<lparr>audits := aud'\<rparr> = acme_db E w role aud'"
  "org_by_slug ''acme'' (acme_db E w role aud) = Some (kit_org w)"
  by (simp_all add: acme_db_def org_by_slug_def kit_org_def)

lemma acme_token_simps [simp]:
  "t_org (acme_token E w role) = Some (uuids w 0)" "t_role (acme_token E w role) = role"
  "t_name (acme_token E w role) = role @ ''-token''"
  by (simp_all add: acme_token_def test_token_def)

lemma acme_seeded:
  assumes "faults w = (\<lambda>_. None)"
  shows "seed_acme E role (moved w empty_db 0 0 c) =
    (Inr (uuids w 0, acme_plain E w role), moved w (acme_db E w role []) 3 2 (c + 2))"
  using assms
  by (simp add: seed_acme_def steps Let_def insert_org_def insert_token_def insert_unique_def numeral_eq_Suc
      acme_db_def acme_plain_def kit_org_def acme_token_def empty_db_def test_token_def)

lemma acme_require:
  assumes "faults w = (\<lambda>_. None)" "simple_ok E"
  shows "require_token E test_st (bearer (acme_plain E w role)) (moved w (acme_db E w role aud) n t c) =
    (Inr (acme_token E w role), moved w (acme_db E w role aud) n t (Suc c))"
proof (rule require_moved [OF assms(1)])
  show "str_trim (acme_plain E w role) = acme_plain E w role"
    using assms(2) unfolding simple_ok_def acme_plain_def by blast
qed (simp_all add: token_by_hash_def acme_token_def test_token_def)

text \<open>What an append leaves: dense positions, the identifiers in the order drawn, every hash there.\<close>

definition log_inv :: "world \<Rightarrow> audit_row list \<Rightarrow> bool" where
  "log_inv w aud \<longleftrightarrow> map a_seq aud = map int [1..<Suc (length aud)] \<and> (\<forall>r\<in>set aud. a_org r = uuids w 0) \<and>
     map a_id aud = map (uuids w) [3..<3 + length aud] \<and> (\<forall>r\<in>set aud. a_hash r \<noteq> [])"

fun logged :: "externals \<Rightarrow> string \<Rightarrow> string \<Rightarrow> nat \<Rightarrow> audit_action list \<Rightarrow> audit_row list \<Rightarrow> bool" where
  "logged E role prev k [] rs \<longleftrightarrow> rs = []"
| "logged E role prev k (a # as) rs \<longleftrightarrow>
     (case rs of [] \<Rightarrow> False
      | r # rs' \<Rightarrow> a_seq r = int k \<and> a_action r = action_as_str E a \<and> a_subject r = ''acme/http-kit@1.0.'' @ nat_str (k - 1) \<and> a_token_name r = role @ ''-token'' \<and>
          a_role r = role \<and> a_hash r = expected_hash E r prev \<and>
          a_prev r = (if prev = [] then None else Some prev) \<and> logged E role (a_hash r) (Suc k) as rs')"

lemma logged_Cons [simp]:
  "logged E role prev k (a # as) rs \<longleftrightarrow>
     (\<exists>r rs'. rs = r # rs' \<and> a_seq r = int k \<and> a_action r = action_as_str E a \<and> a_subject r = ''acme/http-kit@1.0.'' @ nat_str (k - 1) \<and> a_token_name r = role @ ''-token'' \<and>
        a_role r = role \<and> a_hash r = expected_hash E r prev \<and>
        a_prev r = (if prev = [] then None else Some prev) \<and> logged E role (a_hash r) (Suc k) as rs')"
  by (cases rs) auto

declare logged.simps(2) [simp del]

lemma log_positions:
  assumes "log_inv w aud"
  shows "distinct (map a_seq aud)" "sorted (map a_seq aud)"
  using assms by (simp_all add: log_inv_def distinct_map sorted_map inj_on_def del: upt_Suc)

lemma newest_first_log:
  assumes "distinct (map a_seq aud)" "sorted (map a_seq aud)"
  shows "newest_first aud = rev aud" "sort_key a_seq aud = aud" "sort_key (\<lambda>r. - a_seq r) aud = rev aud"
proof -
  have d: "sorted (map (\<lambda>r. - a_seq r) (rev aud))" using assms(2) by (simp add: sorted_wrt_rev sorted_wrt_map rev_map [symmetric])
  have i: "inj_on (\<lambda>r. - a_seq r) (set aud)" using assms(1) by (simp add: distinct_map inj_on_def)
  show "newest_first aud = rev aud" unfolding newest_first_def using d i by (intro sort_key_inj_key_eq) simp_all
  show "sort_key (\<lambda>r. - a_seq r) aud = rev aud" using d i by (intro sort_key_inj_key_eq) simp_all
  show "sort_key a_seq aud = aud" using assms by (intro sort_key_inj_key_eq) (simp_all add: distinct_map)
qed

lemma log_all: "log_inv w aud \<Longrightarrow> filter (\<lambda>r. a_org r = uuids w 0) aud = aud"
  by (simp add: log_inv_def)

lemma log_tip:
  assumes "log_inv w aud"
  shows "audit_tip (uuids w 0) (acme_db E w role aud) = (if aud = [] then None else Some (last aud))"
  unfolding audit_tip_def acme_db_simps log_all [OF assms] newest_first_log(3) [OF log_positions [OF assms]]
  by (cases aud rule: rev_cases) simp_all

lemma log_snoc:
  "log_inv w aud \<Longrightarrow> a_org x = uuids w 0 \<Longrightarrow> a_id x = uuids w (3 + length aud) \<Longrightarrow>
     a_seq x = int (Suc (length aud)) \<Longrightarrow> a_hash x \<noteq> [] \<Longrightarrow> log_inv w (aud @ [x])"
proof -
  assume a: "log_inv w aud" "a_org x = uuids w 0" "a_id x = uuids w (3 + length aud)"
    "a_seq x = int (Suc (length aud))" "a_hash x \<noteq> []"
  have u: "[3..<3 + Suc n] = [3..<3 + n] @ [3 + n]" for n by (metis add_Suc_right le_add1 upt_Suc_append)
  show ?thesis using a unfolding log_inv_def length_append_singleton u by simp
qed

lemma log_last: "log_inv w aud \<Longrightarrow> aud \<noteq> [] \<Longrightarrow> a_seq (last aud) = int (length aud) \<and> a_hash (last aud) \<noteq> []"
proof (cases aud rule: rev_cases)
  case (snoc ys y)
  assume "log_inv w aud"
  with snoc show ?thesis by (simp add: log_inv_def)
qed simp

lemma logged_append:
  assumes q: "quiet w" and ne: "\<And>s. sha256_hex E s \<noteq> []"
  shows "log_inv w aud \<Longrightarrow> 3 + length aud + length as \<le> 24 \<Longrightarrow>
    \<exists>rs t' c'. append_all E (uuids w 0) (acme_token E w role) (length aud) as (moved w (acme_db E w role aud) (3 + length aud) t c) =
        (Inr (), moved w (acme_db E w role (aud @ rs)) (3 + length (aud @ rs)) t' c') \<and>
      log_inv w (aud @ rs) \<and> logged E role (if aud = [] then [] else a_hash (last aud)) (Suc (length aud)) as rs"
proof (induction as arbitrary: aud t c)
  case Nil
  then show ?case by (intro exI [of _ "[]"] exI [of _ t] exI [of _ c]) simp
next
  case (Cons a as)
  let ?prev = "if aud = [] then [] else a_hash (last aud)"
  define x where "x = append_row E (uuids w 0) (acme_token E w role) a (''acme/http-kit@1.0.'' @ nat_str (length aud)) None
    (audit_tip (uuids w 0) (acme_db E w role aud)) (clock w t) (uuids w (3 + length aud))"
  note l = log_last [OF Cons.prems(1)] and tip = log_tip [OF Cons.prems(1), of E role]
  have prev: "tip_hash (audit_tip (uuids w 0) (acme_db E w role aud)) = (if ?prev = [] then None else Some ?prev)"
    "tip_seq (audit_tip (uuids w 0) (acme_db E w role aud)) = int (length aud)"
    using l by (auto simp: tip tip_hash_def tip_seq_def)
  have x: "a_org x = uuids w 0" "a_id x = uuids w (3 + length aud)" "a_seq x = int (Suc (length aud))"
    "a_action x = action_as_str E a" "a_subject x = ''acme/http-kit@1.0.'' @ nat_str (length aud)" "a_token_name x = role @ ''-token''" "a_role x = role"
    "a_prev x = (if ?prev = [] then None else Some ?prev)"
    using prev by (simp_all add: x_def actor_role_def)
  have h: "a_hash x = expected_hash E x ?prev"
    using append_row_hash [of E "uuids w 0" "acme_token E w role" a] prev(1) by (auto simp: x_def or_empty_def)
  then have inv: "log_inv w (aud @ [x])"
    using ne by (intro log_snoc [OF Cons.prems(1)]) (simp_all add: x expected_hash_def entry_digest_def)
  have "uuids w (3 + length aud) \<notin> uuids w ` {3..<3 + length aud}"
    using not_drawn [OF q, of "3 + length aud" "3 + length aud"] Cons.prems(2) by auto
  moreover have "a_id ` set aud = uuids w ` {3..<3 + length aud}"
    using Cons.prems(1) unfolding log_inv_def by (metis atLeastLessThan_upt list.set_map)
  moreover have "a_seq ` set aud = int ` {1..<Suc (length aud)}"
    using Cons.prems(1) unfolding log_inv_def by (metis atLeastLessThan_upt list.set_map)
  then have "int (Suc (length aud)) \<notin> a_seq ` set aud" by auto
  ultimately have "insert_audit x (acme_db E w role aud) = Inr (acme_db E w role (aud @ [x]))"
    unfolding insert_audit_Inr by (auto simp: x audit_key_def kit_org_def)
  note rec = record_moved [OF quiet_faults [OF q] this [unfolded x_def], folded x_def]
  have "3 + length (aud @ [x]) + length as \<le> 24" using Cons.prems(2) by simp
  from Cons.IH [OF inv this, of "Suc t" "c + 4"] obtain rs t' c' where
    rs: "append_all E (uuids w 0) (acme_token E w role) (Suc (length aud)) as (moved w (acme_db E w role (aud @ [x])) (3 + length (aud @ [x])) (Suc t) (c + 4)) =
        (Inr (), moved w (acme_db E w role ((aud @ [x]) @ rs)) (3 + length ((aud @ [x]) @ rs)) t' c')"
      "log_inv w ((aud @ [x]) @ rs)" "logged E role (a_hash x) (Suc (Suc (length aud))) as rs"
    by auto
  then show ?case
    using rec x h by (intro exI [of _ "x # rs"] exI [of _ t'] exI [of _ c']) (simp add: andThen_def)
qed

text \<open>Seeding and appending, and what a manager then reads.\<close>

lemma acme_appended:
  assumes q: "quiet w" and ne: "\<And>s. sha256_hex E s \<noteq> []" and n: "length as \<le> 21"
  obtains rs n t c' where "append_rows E as (moved w (acme_db E w role []) 3 2 c) = (Inr (), moved w (acme_db E w role rs) n t c')"
    "log_inv w rs" "logged E role [] 1 as rs"
proof -
  have "log_inv w []" by (simp add: log_inv_def)
  from logged_append [OF q ne this, of "as" role 2 "Suc (Suc c)"] n obtain rs t' c' where
    rs: "append_all E (uuids w 0) (acme_token E w role) 0 as (moved w (acme_db E w role []) 3 2 (Suc (Suc c))) =
        (Inr (), moved w (acme_db E w role rs) (3 + length rs) t' c')" "log_inv w rs" "logged E role [] 1 as rs"
    by auto
  have "append_rows E as (moved w (acme_db E w role []) 3 2 c) = (Inr (), moved w (acme_db E w role rs) (3 + length rs) t' c')"
    using rs(1) quiet_faults [OF q] by (simp add: append_rows_def steps or_else_def)
  with rs(2,3) that show thesis by blast
qed

definition positioned :: "world \<Rightarrow> audit_row list \<Rightarrow> bool" where
  "positioned w aud \<longleftrightarrow> distinct (map a_seq aud) \<and> sorted (map a_seq aud) \<and> (\<forall>r\<in>set aud. a_org r = uuids w 0)"

lemma log_positioned: "log_inv w aud \<Longrightarrow> positioned w aud"
  using log_positions [of w aud] by (simp add: positioned_def log_inv_def)

lemma positioned_filter: "positioned w aud \<Longrightarrow> positioned w (filter P aud)"
  by (auto simp: positioned_def distinct_map_filter sorted_filter)

lemma positioned_order:
  assumes "positioned w aud"
  shows "newest_first aud = rev aud" "sort_key a_seq aud = aud" "filter (\<lambda>r. a_org r = uuids w 0) aud = aud"
  using newest_first_log [of aud] assms by (simp_all add: positioned_def)

lemma owner_manages: "authorize_manage (Some org) (role_parse ''owner'') org = Inr ()"
  by (simp add: authorize_manage_def role_parse_def)

lemma acme_read:
  assumes f: "faults w = (\<lambda>_. None)" and s: "simple_ok E" and p: "positioned w aud"
    and a: "case q_action q of None \<Rightarrow> True | Some a \<Rightarrow> action_parse E a \<noteq> None"
  shows "query_call E (bearer (acme_plain E w ''owner'')) q (moved w (acme_db E w ''owner'' aud) n t c) =
    (Inr (''acme'', map (to_entry E) (take (page_limit q) (rev (filter (\<lambda>r. opt_holds (\<lambda>b. a_seq r < b) (q_before q))
        (filter (\<lambda>r. opt_holds (\<lambda>a. a_action r = a) (q_action q)) aud))))),
     moved w (acme_db E w ''owner'' aud) n t (Suc (Suc (Suc c))))"
proof -
  let ?rows = "filter (\<lambda>r. opt_holds (\<lambda>b. a_seq r < b) (q_before q)) (filter (\<lambda>r. opt_holds (\<lambda>a. a_action r = a) (q_action q)) aud)"
  have "positioned w ?rows" by (intro positioned_filter p)
  then have "newest_first ?rows = rev ?rows" by (rule positioned_order(1))
  then have page: "audit_page (uuids w 0) (q_action q) (q_before q) (page_limit q) (acme_db E w ''owner'' aud) = take (page_limit q) (rev ?rows)"
    by (simp add: audit_page_def positioned_order(3) [OF p])
  have "query_call E (bearer (acme_plain E w ''owner'')) q (moved w (acme_db E w ''owner'' aud) n t c) =
    (Inr (''acme'', map (to_entry E) (audit_page (uuids w 0) (q_action q) (q_before q) (page_limit q) (acme_db E w ''owner'' aud))),
     moved w (acme_db E w ''owner'' aud) n t (Suc (Suc (Suc c))))"
    using a acme_require [OF f s, of "''owner''" aud n t c] f
    by (cases "q_action q") (simp_all add: query_call_def get_audit_log_def steps find_org_def or_else_def owner_manages)
  then show ?thesis unfolding page .
qed

lemma acme_verify:
  assumes f: "faults w = (\<lambda>_. None)" and s: "simple_ok E" and p: "positioned w aud" "length aud \<le> MAX_VERIFY_ROWS"
  shows "verify_call E (bearer (acme_plain E w ''owner'')) (moved w (acme_db E w ''owner'' aud) n t c) =
    (Inr (integrity_response ''acme'' (verify_chain E aud)), moved w (acme_db E w ''owner'' aud) n t (Suc (Suc (Suc c))))"
proof -
  have "verify_rows (uuids w 0) (acme_db E w ''owner'' aud) = aud"
    using p(2) by (simp add: verify_rows_def positioned_order [OF p(1)])
  then show ?thesis
    using acme_require [OF f s, of "''owner''" aud n t c] f
    by (simp add: verify_call_def verify_audit_log_def steps find_org_def or_else_def owner_manages)
qed

lemma acme_refused:
  assumes f: "faults w = (\<lambda>_. None)" and s: "simple_ok E" and role: "\<not> can_manage (role_parse role)"
  shows "\<exists>e c'. query_call E (bearer (acme_plain E w role)) q (moved w (acme_db E w role aud) n t c) =
      (Inl e, moved w (acme_db E w role aud) n t c') \<and> err_code e = ''insufficient_role''"
    and "\<exists>e c'. verify_call E (bearer (acme_plain E w role)) (moved w (acme_db E w role aud) n t c) =
      (Inl e, moved w (acme_db E w role aud) n t c') \<and> err_code e = ''insufficient_role''"
  using role acme_require [OF f s, of role aud n t c] f
  by (auto simp: query_call_def get_audit_log_def verify_call_def verify_audit_log_def steps find_org_def or_else_def
      authorize_manage_def err_forbidden_def)

section \<open>They pass\<close>

lemma expect_errI: "\<exists>e c'. m w = (Inl e, v c') \<and> check e \<Longrightarrow> fst (expect_err m check w) = Inr True"
  by (auto simp: expect_err_def inspect_def)

lemma owner_only_tests:
  assumes q: "\<And>role. quiet (state role)" and s: "simple_ok E"
  shows "audit_log_is_owner_only E state" "verify_is_owner_only E state"
proof -
  have r: "\<not> can_manage (role_parse ''publisher'')" "\<not> can_manage (role_parse ''reader'')" by (simp_all add: role_parse_def)
  have refused: "passes (refused_log E role) (state role)" "passes (refused_verify E role) (state role)"
    if "\<not> can_manage (role_parse role)" for role
  proof -
    note refused = acme_refused [OF quiet_faults [OF q] s that, of role]
    have "fst (refused_log E role (moved (state role) empty_db 0 0 (calls (state role)))) = Inr True"
      unfolding refused_log_def log_call_def andThen_def acme_seeded [OF quiet_faults [OF q]] prod.case sum.case
      by (rule expect_errI) (rule refused(1))
    moreover have "fst (refused_verify E role (moved (state role) empty_db 0 0 (calls (state role)))) = Inr True"
      unfolding refused_verify_def andThen_def acme_seeded [OF quiet_faults [OF q]] prod.case sum.case
      by (rule expect_errI) (rule refused(2))
    ultimately show "passes (refused_log E role) (state role)" "passes (refused_verify E role) (state role)"
      by (simp_all add: passesI [OF q])
  qed
  have "positioned w []" for w by (simp add: positioned_def)
  then have "passes (granted_log E) (state ''owner'')"
    using acme_read [OF quiet_faults [OF q] s, of "''owner''" "[]" "any_query\<lparr>q_limit := None\<rparr>" 3 2]
    by (intro passesI [OF q]) (simp add: granted_log_def log_call_def any_query_def acme_seeded [OF quiet_faults [OF q]] steps is_ok_def)
  with refused r show "audit_log_is_owner_only E state" "verify_is_owner_only E state"
    by (simp_all add: audit_log_is_owner_only_def verify_is_owner_only_def)
qed

lemma missing_token_test:
  assumes q: "quiet w"
  shows "passes (missing_token_is_unauthorized E) w"
  by (rule passesI [OF q])
    (simp add: missing_token_is_unauthorized_def acme_seeded [OF quiet_faults [OF q]] andThen_def expect_err_def inspect_def
      log_call_def query_call_def get_audit_log_def require_token_run [OF test_on] bearer_token_def err_unauthorized_def)

lemma plain_query [simp]: "q_limit any_query = None" "q_action any_query = None" "q_before any_query = None"
  by (simp_all add: any_query_def)

lemma page_limit_eq: "page_limit q = clamp 1 1000 (case q_limit q of None \<Rightarrow> 100 | Some l \<Rightarrow> l)"
  unfolding page_limit_def MAX_LIMIT_def DEFAULT_LIMIT_def ..

text \<open>A test from its seed on: what the rows are, and how the log reads from then on.\<close>

lemma owner_log:
  assumes q: "quiet w" and s: "simple_ok E" and ne: "\<And>s. sha256_hex E s \<noteq> []" and len: "length as \<le> 21"
  obtains rs n t c where
    "append_rows E as (moved w (acme_db E w ''owner'' []) 3 2 (calls w + 2)) = (Inr (), moved w (acme_db E w ''owner'' rs) n t c)"
    "log_inv w rs" "logged E ''owner'' [] 1 as rs" "positioned w rs"
  using acme_appended [OF q ne len, of "''owner''" "calls w + 2"] log_positioned by metis

lemma newest_first_test:
  assumes q: "quiet w" and s: "simple_ok E" and ne: "\<And>s. sha256_hex E s \<noteq> []"
    and act: "\<And>a. action_parse E (action_as_str E a) = Some a"
  shows "passes (entries_are_newest_first_and_name_the_actor E) w"
proof (rule passesI [OF q])
  note f = quiet_faults [OF q]
  have len: "length [Publish, Yank, Unyank] \<le> 21" by simp
  obtain rs n t c where rs: "append_rows E [Publish, Yank, Unyank] (moved w (acme_db E w ''owner'' []) 3 2 (calls w + 2)) =
      (Inr (), moved w (acme_db E w ''owner'' rs) n t c)"
    "log_inv w rs" "logged E ''owner'' [] 1 [Publish, Yank, Unyank] rs" "positioned w rs"
    by (rule owner_log [OF q s ne len])
  from rs(3) obtain r1 r2 r3 where r: "rs = [r1, r2, r3]" and facts: "logged E ''owner'' [] 1 [Publish, Yank, Unyank] [r1, r2, r3]"
    by auto
  have h: "a_hash r1 \<noteq> []" "a_hash r2 \<noteq> []" "a_hash r3 \<noteq> []" using rs(2) r by (simp_all add: log_inv_def)
  note get = acme_read [OF f s rs(4), of "any_query\<lparr>q_limit := None\<rparr>" n t c]
  show "fst (entries_are_newest_first_and_name_the_actor E (moved w empty_db 0 0 (calls w))) = Inr True"
    unfolding entries_are_newest_first_and_name_the_actor_def andThen_def acme_seeded [OF f] prod.case sum.case rs(1) log_call_def
    using get facts h by (simp add: r page_limit_eq clamp_def to_entry_def act)
qed

lemma replicate_Publish:
  "replicate 5 Publish = [Publish, Publish, Publish, Publish, Publish]"
  "replicate 4 Publish = [Publish, Publish, Publish, Publish]" "replicate 3 Publish = [Publish, Publish, Publish]"
  by (simp_all add: eval_nat_numeral)

lemma limit_test:
  assumes q: "quiet w" and s: "simple_ok E" and ne: "\<And>s. sha256_hex E s \<noteq> []"
  shows "passes (limit_is_honored_and_clamped E) w"
proof (rule passesI [OF q])
  note f = quiet_faults [OF q]
  have len: "length (replicate 5 Publish) \<le> 21" by simp
  obtain rs n t c where rs: "append_rows E (replicate 5 Publish) (moved w (acme_db E w ''owner'' []) 3 2 (calls w + 2)) =
      (Inr (), moved w (acme_db E w ''owner'' rs) n t c)"
    "log_inv w rs" "logged E ''owner'' [] 1 (replicate 5 Publish) rs" "positioned w rs"
    by (rule owner_log [OF q s ne len])
  have l: "length rs = 5" using rs(3) by (auto simp: replicate_Publish)
  note get = acme_read [OF f s rs(4), of "any_query\<lparr>q_limit := m\<rparr>" n t for m]
  show "fst (limit_is_honored_and_clamped E (moved w empty_db 0 0 (calls w))) = Inr True"
    unfolding limit_is_honored_and_clamped_def andThen_def acme_seeded [OF f] prod.case sum.case rs(1) log_call_def
    using l by (simp add: get page_limit_eq clamp_def)
qed

lemma filter_test:
  assumes q: "quiet w" and s: "simple_ok E" and ne: "\<And>s. sha256_hex E s \<noteq> []"
    and act: "action_as_str E Yank = ''yank''" "action_as_str E Publish = ''publish''"
      "action_parse E ''yank'' \<noteq> None" "action_parse E ''yankk'' = None"
  shows "passes (action_filter_narrows_and_rejects_unknown E) w"
proof (rule passesI [OF q])
  note f = quiet_faults [OF q]
  have len: "length [Publish, Yank, Publish] \<le> 21" by simp
  obtain rs n t c where rs: "append_rows E [Publish, Yank, Publish] (moved w (acme_db E w ''owner'' []) 3 2 (calls w + 2)) =
      (Inr (), moved w (acme_db E w ''owner'' rs) n t c)"
    "log_inv w rs" "logged E ''owner'' [] 1 [Publish, Yank, Publish] rs" "positioned w rs"
    by (rule owner_log [OF q s ne len])
  obtain r1 r2 r3 where r: "rs = [r1, r2, r3]" "a_action r1 = ''publish''" "a_action r2 = ''yank''" "a_action r3 = ''publish''"
    using rs(3) act(1,2) by auto
  note get = acme_read [OF f s rs(4), of "any_query\<lparr>q_action := Some ''yank''\<rparr>" n t c]
  have refused: "\<exists>c'. query_call E (bearer (acme_plain E w ''owner'')) (any_query\<lparr>q_action := Some ''yankk''\<rparr>)
      (moved w (acme_db E w ''owner'' rs) n t k) = (Inl (invalid_action ''yankk''), moved w (acme_db E w ''owner'' rs) n t c')" for k
    using act(4) acme_require [OF f s, of "''owner''" rs n t k] f
    by (simp add: query_call_def get_audit_log_def steps find_org_def or_else_def owner_manages) blast
  obtain c' where c': "query_call E (bearer (acme_plain E w ''owner'')) (any_query\<lparr>q_action := Some ''yankk''\<rparr>)
      (moved w (acme_db E w ''owner'' rs) n t (Suc (Suc (Suc c)))) = (Inl (invalid_action ''yankk''), moved w (acme_db E w ''owner'' rs) n t c')"
    using refused by blast
  show "fst (action_filter_narrows_and_rejects_unknown E (moved w empty_db 0 0 (calls w))) = Inr True"
    unfolding action_filter_narrows_and_rejects_unknown_def andThen_def acme_seeded [OF f] prod.case sum.case rs(1)
    using get act(3) r by (simp add: expect_err_def inspect_def c' [unfolded r(1)] page_limit_eq clamp_def to_entry_def)
      (simp add: invalid_action_def err_bad_request_def)
qed

lemma cursor_test:
  assumes q: "quiet w" and s: "simple_ok E" and ne: "\<And>s. sha256_hex E s \<noteq> []"
  shows "passes (before_cursor_pages_backwards E) w"
proof (rule passesI [OF q])
  note f = quiet_faults [OF q]
  have len: "length (replicate 5 Publish) \<le> 21" by simp
  obtain rs n t c where rs: "append_rows E (replicate 5 Publish) (moved w (acme_db E w ''owner'' []) 3 2 (calls w + 2)) =
      (Inr (), moved w (acme_db E w ''owner'' rs) n t c)"
    "log_inv w rs" "logged E ''owner'' [] 1 (replicate 5 Publish) rs" "positioned w rs"
    by (rule owner_log [OF q s ne len])
  obtain r1 r2 r3 r4 r5 where r: "rs = [r1, r2, r3, r4, r5]" "a_seq r1 = 1" "a_seq r2 = 2" "a_seq r3 = 3" "a_seq r4 = 4" "a_seq r5 = 5"
    using rs(3) by (auto simp: replicate_Publish)
  note get = acme_read [OF f s rs(4)]
  show "fst (before_cursor_pages_backwards E (moved w empty_db 0 0 (calls w))) = Inr True"
    unfolding before_cursor_pages_backwards_def andThen_def acme_seeded [OF f] prod.case sum.case rs(1)
    by (simp add: get [unfolded r(1)] r page_limit_eq clamp_def to_entry_def)
qed

text \<open>The chain of a log, for the verifier.\<close>

lemma log_chained: "log_inv w rs \<Longrightarrow> \<forall>r\<in>set rs. chained r"
proof
  fix r assume l: "log_inv w rs" "r \<in> set rs"
  then have "a_seq r \<in> set (map int [1..<Suc (length rs)])" unfolding log_inv_def by (metis image_eqI list.set_map)
  then have "0 < a_seq r" by auto
  with l show "chained r" by (simp add: chained_def log_inv_def)
qed

lemma intact_test:
  assumes q: "quiet w" and s: "simple_ok E" and ne: "\<And>s. sha256_hex E s \<noteq> []"
  shows "passes (verify_reports_an_intact_chain E) w"
proof (rule passesI [OF q])
  note f = quiet_faults [OF q]
  have len: "length [Publish, Yank] \<le> 21" by simp
  obtain rs n t c where rs: "append_rows E [Publish, Yank] (moved w (acme_db E w ''owner'' []) 3 2 (calls w + 2)) =
      (Inr (), moved w (acme_db E w ''owner'' rs) n t c)"
    "log_inv w rs" "logged E ''owner'' [] 1 [Publish, Yank] rs" "positioned w rs"
    by (rule owner_log [OF q s ne len])
  obtain r1 r2 where r: "rs = [r1, r2]" using rs(3) by auto
  have rep: "verify_chain E rs = \<lparr>rep_intact = True, rep_checked = 2, rep_first_bad = None, rep_problem = None,
      rep_head = Some (a_hash r2)\<rparr>"
    using log_chained [OF rs(2)] rs(3) r by (simp add: verify_chain_def)
  have "length rs \<le> MAX_VERIFY_ROWS" using r by (simp add: MAX_VERIFY_ROWS_def)
  note ver = acme_verify [OF f s rs(4) this, of n t c]
  note get = acme_read [OF f s rs(4), of "any_query\<lparr>q_limit := Some 1\<rparr>" n t]
  show "fst (verify_reports_an_intact_chain E (moved w empty_db 0 0 (calls w))) = Inr True"
    unfolding verify_reports_an_intact_chain_def andThen_def acme_seeded [OF f] prod.case sum.case rs(1) ver log_call_def rep
    using get [unfolded r] by (simp add: r page_limit_eq clamp_def to_entry_def integrity_response_def)
qed

lemma log_three:
  assumes "quiet w" "log_inv w [r1, r2, r3]"
  shows "a_id r1 \<noteq> a_id r2" "a_id r3 \<noteq> a_id r2"
  using assms(2) quiet_uuid [OF assms(1), of 3 4] quiet_uuid [OF assms(1), of 5 4]
  by (simp_all add: log_inv_def upt_rec)

text \<open>Whether the digest tells the edited row of the test from what it was.\<close>

definition edit_collides :: "externals \<Rightarrow> world \<Rightarrow> bool" where
  "edit_collides E w =
     (let rows = audits (db (snd (append_rows E (replicate 3 Publish) (snd (seed_acme E ''owner'' w)))));
          prev = a_hash (rows ! 0)
      in collision E (row_input E ((rows ! 1)\<lparr>a_subject := ''acme/backdoor@9.9.9''\<rparr>) prev) (row_input E (rows ! 1) prev))"

lemma edited_test:
  assumes q: "quiet w" and s: "simple_ok E" and ne: "\<And>s. sha256_hex E s \<noteq> []" and dg: "\<not> edit_collides E w"
  shows "passes (verify_detects_an_edited_row E) w"
proof (rule passesI [OF q])
  note f = quiet_faults [OF q]
  have len: "length (replicate 3 Publish) \<le> 21" by simp
  obtain rs n t c where rs: "append_rows E (replicate 3 Publish) (moved w (acme_db E w ''owner'' []) 3 2 (calls w + 2)) =
      (Inr (), moved w (acme_db E w ''owner'' rs) n t c)"
    "log_inv w rs" "logged E ''owner'' [] 1 (replicate 3 Publish) rs" "positioned w rs"
    by (rule owner_log [OF q s ne len])
  obtain r1 r2 r3 where r: "rs = [r1, r2, r3]" using rs(3) by (auto simp: replicate_Publish)
  note facts = rs(3) [unfolded replicate_Publish r, simplified] and ch = log_chained [OF rs(2) [unfolded r]]
  define e2 where "e2 = r2\<lparr>a_subject := ''acme/backdoor@9.9.9''\<rparr>"
  have e2: "a_seq e2 = a_seq r2" "a_hash e2 = a_hash r2" "a_prev e2 = a_prev r2" "a_org e2 = a_org r2" "chained e2"
    using ch by (simp_all add: e2_def chained_def)
  have seeded: "snd (seed_acme E ''owner'' w) = moved w (acme_db E w ''owner'' []) 3 2 (calls w + 2)"
    using acme_seeded [OF f, of E "''owner''" "calls w"] quiet_start [OF q] by simp
  have "\<not> collision E (row_input E e2 (a_hash r1)) (row_input E r2 (a_hash r1))"
    using dg unfolding edit_collides_def seeded rs(1) Let_def r e2_def by simp
  moreover have "a_subject r2 \<noteq> ''acme/backdoor@9.9.9''" using facts by simp
  then have "row_input E e2 (a_hash r1) \<noteq> row_input E r2 (a_hash r1)" by (simp add: e2_def row_input_def)
  ultimately have h: "expected_hash E e2 (a_hash r1) \<noteq> a_hash r2"
    using facts by (simp add: collision_def expected_hash_def)
  have "a_hash r1 \<noteq> []" using rs(2) r by (simp add: log_inv_def)
  then have rep: "verify_chain E [r1, e2, r3] = \<lparr>rep_intact = False, rep_checked = 1, rep_first_bad = Some 2,
      rep_problem = Some HashMismatch, rep_head = Some (a_hash r1)\<rparr>"
    using facts ch e2 h by (simp add: verify_chain_def or_empty_def)
  have "positioned w [r1, e2, r3]" "length [r1, e2, r3] \<le> MAX_VERIFY_ROWS"
    using rs(4) r e2 by (simp_all add: positioned_def MAX_VERIFY_ROWS_def)
  note ver = acme_verify [OF f s this]
  have "map_where (\<lambda>r. a_id r = a_id r2) (\<lambda>r. r\<lparr>a_subject := ''acme/backdoor@9.9.9''\<rparr>) [r1, r2, r3] = [r1, e2, r3]"
    using log_three [OF q rs(2) [unfolded r]] by (simp add: map_where_def e2_def)
  then show "fst (verify_detects_an_edited_row E (moved w empty_db 0 0 (calls w))) = Inr True"
    unfolding verify_detects_an_edited_row_def andThen_def acme_seeded [OF f] prod.case sum.case rs(1)
    using facts f by (simp add: r steps or_else_def ver rep integrity_response_def)
qed

lemma deleted_test:
  assumes q: "quiet w" and s: "simple_ok E" and ne: "\<And>s. sha256_hex E s \<noteq> []"
  shows "passes (verify_detects_a_deleted_row E) w"
proof (rule passesI [OF q])
  note f = quiet_faults [OF q]
  have len: "length (replicate 4 Publish) \<le> 21" by simp
  obtain rs n t c where rs: "append_rows E (replicate 4 Publish) (moved w (acme_db E w ''owner'' []) 3 2 (calls w + 2)) =
      (Inr (), moved w (acme_db E w ''owner'' rs) n t c)"
    "log_inv w rs" "logged E ''owner'' [] 1 (replicate 4 Publish) rs" "positioned w rs"
    by (rule owner_log [OF q s ne len])
  obtain r1 r2 r3 r4 where r: "rs = [r1, r2, r3, r4]" using rs(3) by (auto simp: replicate_Publish)
  note facts = rs(3) [unfolded replicate_Publish r, simplified] and ch = log_chained [OF rs(2) [unfolded r]]
  have left: "filter (\<lambda>r. a_seq r \<noteq> 2) rs = [r1, r3, r4]" using facts r by simp
  have rep: "verify_chain E [r1, r3, r4] = \<lparr>rep_intact = False, rep_checked = 1, rep_first_bad = Some 2,
      rep_problem = Some SequenceGap, rep_head = Some (a_hash r1)\<rparr>"
    using facts ch by (simp add: verify_chain_def)
  have "positioned w [r1, r3, r4]" "length [r1, r3, r4] \<le> MAX_VERIFY_ROWS"
    using positioned_filter [OF rs(4), of "\<lambda>r. a_seq r \<noteq> 2"] by (simp_all add: left MAX_VERIFY_ROWS_def)
  note ver = acme_verify [OF f s this]
  show "fst (verify_detects_a_deleted_row E (moved w empty_db 0 0 (calls w))) = Inr True"
    unfolding verify_detects_a_deleted_row_def andThen_def acme_seeded [OF f] prod.case sum.case rs(1)
    using f by (simp add: steps left ver rep integrity_response_def)
qed

lemma unknown_action_test:
  assumes q: "quiet w" and s: "simple_ok E" and act: "action_parse E ''transfer_ownership'' = None"
  shows "passes (unknown_action_strings_survive_a_read E) w"
proof (rule passesI [OF q])
  note f = quiet_faults [OF q]
  define x where "x = \<lparr>a_id = uuids w 3, a_org = uuids w 0, a_at = clock w 2, a_action = ''transfer_ownership'', a_subject = ''acme'',
        a_token_id = None, a_token_name = ''t'', a_role = ''admin'', a_detail = None, a_seq = 0, a_hash = [], a_prev = None\<rparr>"
  have ins: "insert_audit x (acme_db E w ''owner'' []) = Inr (acme_db E w ''owner'' [x])"
    unfolding insert_audit_Inr by (simp add: x_def kit_org_def)
  have "positioned w [x]" by (simp add: positioned_def x_def)
  note get = acme_read [OF f s this, of "any_query\<lparr>q_limit := None\<rparr>"]
  show "fst (unknown_action_strings_survive_a_read E (moved w empty_db 0 0 (calls w))) = Inr True"
    unfolding unknown_action_strings_survive_a_read_def andThen_def acme_seeded [OF f] prod.case sum.case log_call_def
    using f ins [unfolded x_def] act
    by (simp add: steps get [unfolded x_def] page_limit_eq clamp_def to_entry_def)
qed

end
