(* ===== verification/Publish_Tests.thy ===== *)
theory Publish_Tests
  imports Yank_Tests Listing
begin

text \<open>
  The tests of \<open>src/routes/publish.rs\<close> and \<open>src/routes/list.rs\<close>, as programs over a quiet world
  (theory \<open>Handler_Tests\<close>). The multipart body is parsed: \<open>form\<close> gives its fields.
\<close>

section \<open>The tests\<close>

definition TOKEN_PLAINTEXT :: string where
  "TOKEN_PLAINTEXT = ''zpkg_test_secret''"

text \<open>The tables of the tests have no foreign key from an org to the token that claimed it.\<close>

definition seed_pub :: "externals \<Rightarrow> string \<Rightarrow> (api_err, uuid) io" where
  "seed_pub E description =
     andThen new_uuid (\<lambda>org_id.
     andThen new_uuid (\<lambda>token_id.
     andThen new_uuid (\<lambda>pkg_id.
     andThen utc_now (\<lambda>now.
     andThen (dbq (update_stmt (\<lambda>d. d\<lparr>orgs := orgs d @
       [\<lparr>o_id = org_id, o_slug = ''acme'', o_created_at = now, o_created_by = Some token_id\<rparr>]\<rparr>))) (\<lambda>_.
     andThen utc_now (\<lambda>now.
     andThen (seed_row insert_token (test_token E token_id now ''test'' TOKEN_PLAINTEXT (Some org_id) ''owner'')) (\<lambda>_.
     andThen utc_now (\<lambda>now.
     andThen (seed_row insert_package ((kit_package pkg_id org_id now)\<lparr>p_description := Some description\<rparr>)) (\<lambda>_.
     andThen new_uuid (\<lambda>i.
     andThen utc_now (\<lambda>now.
     andThen (seed_row insert_version
       \<lparr>v_id = i, v_package = pkg_id, v_version = ''1.0.0'', v_sha256 = ''existing'', v_size = 3,
        v_format = ''tar.gz'', v_vcs_tag = ''v1.0.0'', v_vcs_commit = None,
        v_artifact_key = ''artifacts/existing.tar.gz'', v_yanked = False, v_published_at = now\<rparr>) (\<lambda>_.
       ret pkg_id))))))))))))"

text \<open>What the JSON of \<open>publish_body\<close> parses to, with the default version scheme and format.\<close>

definition publish_body :: "externals \<Rightarrow> string \<Rightarrow> string \<Rightarrow> string \<Rightarrow> publish_meta" where
  "publish_body E scheme ver description =
     \<lparr>meta_manifest =
        \<lparr>m_org = ''acme'', m_name = ''http-kit'', m_version = ver, m_description = Some description,
         m_vcs = ''git'', m_url = ''https://github.com/acme/http-kit'', m_scheme = scheme, m_keywords = []\<rparr>,
      meta_vcs_tag = ''v'' @ ver, meta_vcs_commit = None, meta_sha256 = sha256_hex E ''hi!'', meta_format = format_default E\<rparr>"

definition put_version :: "externals \<Rightarrow> (string \<Rightarrow> string \<Rightarrow> form_event list) \<Rightarrow> string \<Rightarrow> string \<Rightarrow> (api_err, nat) io" where
  "put_version E form ver description =
     inspect (publish E test_st (bearer TOKEN_PLAINTEXT) ''acme'' ''http-kit'' ver (form ver description)) (\<lambda>r.
       ret (case r of Inl e \<Rightarrow> err_status e | Inr _ \<Rightarrow> 200))"

definition description_of :: "uuid \<Rightarrow> (api_err, string option) io" where
  "description_of pkg_id =
     andThen (dbq (select (\<lambda>d. find (\<lambda>p. p_id p = pkg_id) (packages d)))) (\<lambda>found.
     andThen (or_else found panicked) (\<lambda>row. ret (p_description row)))"

definition duplicate_version_publish_preserves_description ::
    "externals \<Rightarrow> (string \<Rightarrow> string \<Rightarrow> form_event list) \<Rightarrow> (api_err, bool) io" where
  "duplicate_version_publish_preserves_description E form =
     andThen (seed_pub E ''ORIGINAL'') (\<lambda>pkg_id.
     andThen (put_version E form ''1.0.0'' ''HACKED'') (\<lambda>status.
     andThen (description_of pkg_id) (\<lambda>description.
       ret (status = CONFLICT \<and> description = Some ''ORIGINAL''))))"

definition new_version_publish_commits_metadata_and_row ::
    "externals \<Rightarrow> (string \<Rightarrow> string \<Rightarrow> form_event list) \<Rightarrow> (api_err, bool) io" where
  "new_version_publish_commits_metadata_and_row E form =
     andThen (seed_pub E ''ORIGINAL'') (\<lambda>pkg_id.
     andThen (put_version E form ''1.1.0'' ''UPDATED'') (\<lambda>status.
     andThen (description_of pkg_id) (\<lambda>description.
     andThen (dbq (select (version_by_name pkg_id ''1.1.0''))) (\<lambda>inserted.
       ret (status = 200 \<and> description = Some ''UPDATED'' \<and> inserted \<noteq> None)))))"

text \<open>
  The trigger refuses the update of the package row: the sixth statement of the publish, after
  the token, the org, the two of the immutability check and \<open>BEGIN\<close>.
\<close>

definition reject_package_update :: "(api_err, unit) io" where
  "reject_package_update w =
     (Inr (), w\<lparr>faults := (\<lambda>n. if n = calls w + 5 then Some (OtherDbErr ''forced metadata failure'') else None)\<rparr>)"

definition failed_metadata_transaction_retains_uploaded_blob ::
    "externals \<Rightarrow> (string \<Rightarrow> string \<Rightarrow> form_event list) \<Rightarrow> (api_err, bool) io" where
  "failed_metadata_transaction_retains_uploaded_blob E form =
     andThen (seed_pub E ''ORIGINAL'') (\<lambda>pkg_id.
     andThen reject_package_update (\<lambda>_.
     andThen (put_version E form ''1.1.0'' ''UPDATED'') (\<lambda>status.
     andThen (map_err from_anyhow (get_artifact_bytes
       (artifact_key (sha256_hex E ''hi!'') (format_extension E (format_default E))))) (\<lambda>blob.
     andThen (description_of pkg_id) (\<lambda>description.
     andThen (dbq (select (version_by_name pkg_id ''1.1.0''))) (\<lambda>inserted.
       ret (status = INTERNAL_SERVER_ERROR \<and> blob = ''hi!'' \<and> description = Some ''ORIGINAL'' \<and> inserted = None)))))))"

definition insert_pkg :: "uuid \<Rightarrow> string \<Rightarrow> json \<Rightarrow> (api_err, unit) io" where
  "insert_pkg org_id name tags =
     andThen new_uuid (\<lambda>i.
     andThen utc_now (\<lambda>now.
     seed_row insert_package
       \<lparr>p_id = i, p_org = org_id, p_name = name, p_description = None, p_vcs = ''git'',
        p_repo_url = ''https://github.com/acme/'' @ name, p_scheme = ''semver'', p_tags = tags, p_created_at = now\<rparr>))"

definition tags_round_trip_and_filter_on_sqlite :: "externals \<Rightarrow> (api_err, bool) io" where
  "tags_round_trip_and_filter_on_sqlite E =
     andThen new_uuid (\<lambda>org_id.
     andThen utc_now (\<lambda>now.
     andThen (seed_row insert_org \<lparr>o_id = org_id, o_slug = ''acme'', o_created_at = now, o_created_by = None\<rparr>) (\<lambda>_.
     andThen (insert_pkg org_id ''cli-tool'' (JArray [JString ''cli'', JString ''rust''])) (\<lambda>_.
     andThen (insert_pkg org_id ''web-thing'' (JArray [JString ''web''])) (\<lambda>_.
     andThen (dbq (select (\<lambda>d. scan_packages E (packages d)))) (\<lambda>rows.
     andThen (or_else (find (\<lambda>p. p_name p = ''cli-tool'') rows) panicked) (\<lambda>cli.
       let matched = filter (\<lambda>p. has_all_tags (tags_of p) [''cli'', ''rust'']) rows
       in ret (length rows = 2 \<and> tags_of cli = [''cli'', ''rust''] \<and> length matched = 1 \<and>
               p_name (hd matched) = ''cli-tool''))))))))"

section \<open>They pass\<close>

lemma tags_test:
  assumes q: "quiet w" and E: "scans_ok E"
  shows "passes (tags_round_trip_and_filter_on_sqlite E) w"
proof (rule passesI [OF q])
  note f = quiet_faults [OF q]
  define p1 where "p1 = \<lparr>p_id = uuids w 1, p_org = uuids w 0, p_name = ''cli-tool'', p_description = None, p_vcs = ''git'',
    p_repo_url = ''https://github.com/acme/cli-tool'', p_scheme = ''semver'', p_tags = JArray [JString ''cli'', JString ''rust''],
    p_created_at = clock w 1\<rparr>"
  define p2 where "p2 = \<lparr>p_id = uuids w 2, p_org = uuids w 0, p_name = ''web-thing'', p_description = None, p_vcs = ''git'',
    p_repo_url = ''https://github.com/acme/web-thing'', p_scheme = ''semver'', p_tags = JArray [JString ''web''],
    p_created_at = clock w 2\<rparr>"
  let ?d = "empty_db\<lparr>orgs := [kit_org w]\<rparr>"
  have u: "uuids w 2 \<noteq> uuids w 1" using quiet_uuid [OF q, of 2 1] by simp
  have ins: "insert_org (kit_org w) empty_db = Inr ?d" "insert_package p1 ?d = Inr (?d\<lparr>packages := [p1]\<rparr>)"
    "insert_package p2 (?d\<lparr>packages := [p1]\<rparr>) = Inr (?d\<lparr>packages := [p1, p2]\<rparr>)"
    using u unfolding insert_org_Inr insert_package_Inr by (simp_all add: kit_org_def p1_def p2_def package_key_def)
  have "mset (scan_packages E [p1, p2]) = mset [p1, p2]" using E by (simp only: scans_ok_def)
  then have rows: "scan_packages E [p1, p2] = [p1, p2] \<or> scan_packages E [p1, p2] = [p2, p1]"
    by (cases "scan_packages E [p1, p2]") (auto simp: add_eq_conv_ex)
  have t: "tags_of p1 = [''cli'', ''rust'']" "tags_of p2 = [''web'']" by (simp_all add: p1_def p2_def tags_of_def)
  have n: "p_name p1 = ''cli-tool''" "p_name p2 = ''web-thing''" by (simp_all add: p1_def p2_def)
  show "fst (tags_round_trip_and_filter_on_sqlite E (moved w empty_db 0 0 (calls w))) = Inr True"
    using rows t n f ins [unfolded p1_def p2_def kit_org_def]
    by (auto simp: tags_round_trip_and_filter_on_sqlite_def insert_pkg_def steps or_else_def has_all_tags_def
        p1_def p2_def kit_org_def numeral_2_eq_2)
qed

definition pb_org :: "world \<Rightarrow> org_row" where
  "pb_org w = \<lparr>o_id = uuids w 0, o_slug = ''acme'', o_created_at = clock w 0, o_created_by = Some (uuids w (Suc 0))\<rparr>"

definition pb_token :: "externals \<Rightarrow> world \<Rightarrow> token_row" where
  "pb_token E w = test_token E (uuids w (Suc 0)) (clock w (Suc 0)) ''test'' TOKEN_PLAINTEXT (Some (uuids w 0)) ''owner''"

definition pb_package :: "world \<Rightarrow> package_row" where
  "pb_package w = (kit_package (uuids w 2) (uuids w 0) (clock w 2))\<lparr>p_description := Some ''ORIGINAL''\<rparr>"

definition pb_version :: "world \<Rightarrow> version_row" where
  "pb_version w =
     \<lparr>v_id = uuids w 3, v_package = uuids w 2, v_version = ''1.0.0'', v_sha256 = ''existing'', v_size = 3,
      v_format = ''tar.gz'', v_vcs_tag = ''v1.0.0'', v_vcs_commit = None,
      v_artifact_key = ''artifacts/existing.tar.gz'', v_yanked = False, v_published_at = clock w 3\<rparr>"

definition pb_db :: "externals \<Rightarrow> world \<Rightarrow> database" where
  "pb_db E w = \<lparr>orgs = [pb_org w], tokens = [pb_token E w], packages = [pb_package w], versions = [pb_version w],
     audits = [], embeddings = []\<rparr>"

lemma pb_seeded:
  assumes "faults w = (\<lambda>_. None)"
  shows "seed_pub E ''ORIGINAL'' (moved w empty_db 0 0 c) = (Inr (uuids w 2), moved w (pb_db E w) 4 4 (c + 4))"
  using assms
  by (simp add: seed_pub_def steps Let_def insert_token_def insert_package_def insert_version_def
      insert_unique_def numeral_eq_Suc pb_db_def pb_org_def pb_token_def pb_package_def pb_version_def
      kit_package_def empty_db_def test_token_def)

lemma pb_lookups:
  "org_by_slug ''acme'' (pb_db E w) = Some (pb_org w)" "o_id (pb_org w) = uuids w 0"
  "package_by_name (uuids w 0) ''http-kit'' (pb_db E w) = Some (pb_package w)" "p_id (pb_package w) = uuids w 2"
  "version_by_name (uuids w 2) ''1.0.0'' (pb_db E w) = Some (pb_version w)"
  "version_by_name (uuids w 2) ''1.1.0'' (pb_db E w) = None"
  "find (\<lambda>p. p_id p = uuids w 2) (packages (pb_db E w)) = Some (pb_package w)"
  "p_description (pb_package w) = Some ''ORIGINAL''"
  by (simp_all add: org_by_slug_def package_by_name_def version_by_name_def pb_db_def pb_org_def pb_package_def
      pb_version_def kit_package_def)

lemma pb_token_simps: "t_org (pb_token E w) = Some (uuids w 0)" "t_role (pb_token E w) = ''owner''"
  by (simp_all add: pb_token_def test_token_def)

text \<open>The fault of the third test comes later than the front of the publish.\<close>

lemma pb_require:
  assumes "faults w c = None"
  shows "require_token E test_st (bearer TOKEN_PLAINTEXT) (moved w (pb_db E v) n t c) =
    (Inr (pb_token E v), moved w (pb_db E v) n t (Suc c))"
proof -
  have "str_trim TOKEN_PLAINTEXT = TOKEN_PLAINTEXT" unfolding TOKEN_PLAINTEXT_def by code_simp
  then have "bearer_token (bearer TOKEN_PLAINTEXT) = Some TOKEN_PLAINTEXT" by (simp add: bearer_def bearer_token_def)
  then show ?thesis
    using assms by (simp add: require_token_run [OF test_on] token_by_hash_def pb_db_def pb_token_def test_token_def)
qed

definition bodies :: "(string \<times> string) set" where
  "bodies = {(''1.0.0'', ''HACKED''), (''1.1.0'', ''UPDATED'')}"

lemma in_bodies: "(''1.0.0'', ''HACKED'') \<in> bodies" "(''1.1.0'', ''UPDATED'') \<in> bodies"
  by (simp_all add: bodies_def)

definition reads_body :: "externals \<Rightarrow> (string \<Rightarrow> string \<Rightarrow> form_event list) \<Rightarrow> bool" where
  "reads_body E form \<longleftrightarrow>
     (\<forall>(ver, description) \<in> bodies. \<exists>scheme. read_multipart E (form ver description) = Inr (publish_body E scheme ver description, ''hi!'') \<and>
        manifest_validate E (meta_manifest (publish_body E scheme ver description)) = None)"

lemma pb_front:
  assumes "reads_body E form" "(ver, desc) \<in> bodies" "\<And>k. k < c + 4 \<Longrightarrow> faults w k = None"
  obtains scheme where "publish_front E test_st (bearer TOKEN_PLAINTEXT) ''acme'' ''http-kit'' ver (form ver desc) (moved w (pb_db E v) n t c) =
    (case version_by_name (uuids v 2) ver (pb_db E v) of
       Some _ \<Rightarrow> (Inl (version_exists ''acme'' ''http-kit'' ver), moved w (pb_db E v) n t (c + 4))
     | None \<Rightarrow> (Inr (pb_token E v, pb_org v, publish_body E scheme ver desc, ''hi!''), moved w (pb_db E v) n t (c + 4)))"
proof -
  obtain scheme where body: "read_multipart E (form ver desc) = Inr (publish_body E scheme ver desc, ''hi!'')"
    "manifest_validate E (meta_manifest (publish_body E scheme ver desc)) = None"
    using assms(1,2) unfolding reads_body_def by blast
  then have check: "check_body E ''acme'' ''http-kit'' ver (publish_body E scheme ver desc) ''hi!'' = Inr ()"
    by (simp add: check_body_def publish_body_def)
  have tag: "check_tag E test_st m = Inr ()" for m by (simp add: check_tag_def verify_def test_st_def)
  have auth: "authorize_publish (Some (uuids v 0)) (role_parse ''owner'') (uuids v 0) = Inr ()"
    by (simp add: authorize_publish_def role_parse_def)
  show thesis
    using assms(3) pb_require [of w c E v n t]
    by (intro that [of scheme]) (simp add: publish_front_def steps pb_lookups pb_token_simps or_else_def auth body(1) check tag
        check_immutable_def find_package_row_def numeral_eq_Suc split: option.splits)
qed

lemma duplicate_test:
  assumes q: "quiet w" and form: "reads_body E form"
  shows "passes (duplicate_version_publish_preserves_description E form) w"
proof (rule passesI [OF q])
  note f = quiet_faults [OF q]
  obtain scheme where "publish_front E test_st (bearer TOKEN_PLAINTEXT) ''acme'' ''http-kit'' ''1.0.0'' (form ''1.0.0'' ''HACKED'')
      (moved w (pb_db E w) 4 4 (calls w + 4)) =
    (case version_by_name (uuids w 2) ''1.0.0'' (pb_db E w) of
       Some _ \<Rightarrow> (Inl (version_exists ''acme'' ''http-kit'' ''1.0.0''), moved w (pb_db E w) 4 4 (calls w + 4 + 4))
     | None \<Rightarrow> (Inr (pb_token E w, pb_org w, publish_body E scheme ''1.0.0'' ''HACKED'', ''hi!''), moved w (pb_db E w) 4 4 (calls w + 4 + 4)))"
    by (rule pb_front [OF form in_bodies(1), of "calls w + 4" w]) (simp add: f)
  then show "fst (duplicate_version_publish_preserves_description E form (moved w empty_db 0 0 (calls w))) = Inr True"
    using f by (simp add: duplicate_version_publish_preserves_description_def pb_seeded [OF f] put_version_def publish_split
        steps pb_lookups description_of_def or_else_def version_exists_def err_conflict_def)
qed

text \<open>The store of the tests: an empty directory that works.\<close>

definition fresh_store :: "world \<Rightarrow> bool" where
  "fresh_store w \<longleftrightarrow> (\<exists>base. store w = Local base []) \<and> (\<forall>n. io_result (io_events w n) = IoOk)"

definition stored_world :: "world \<Rightarrow> string \<Rightarrow> world" where
  "stored_world w key = (case store w of
     Local base _ \<Rightarrow> w\<lparr>store := Local base [(local_path base key, ''hi!'')], io_calls := Suc (io_calls w)\<rparr> | _ \<Rightarrow> w)"

lemma stored_world_simps [simp]:
  "fresh_store w \<Longrightarrow> uuids (stored_world w key) = uuids w" "fresh_store w \<Longrightarrow> clock (stored_world w key) = clock w"
  "fresh_store w \<Longrightarrow> faults (stored_world w key) = faults w"
  by (auto simp: fresh_store_def stored_world_def)

lemma put_hi:
  assumes "fresh_store w"
  shows "put_artifact key ''hi!'' (moved w d n t c) = (Inr (), moved (stored_world w key) d n t c)"
  using assms by (auto simp: fresh_store_def put_artifact_def stored_world_def moved_def)

lemma get_hi:
  assumes "fresh_store w"
  shows "\<exists>v. get_artifact_bytes key (moved (stored_world w key) d n t c) = (Inr ''hi!'', moved v d n t c) \<and> faults v = faults w"
proof -
  from assms obtain base where base: "store w = Local base []" "\<And>n. io_result (io_events w n) = IoOk"
    by (auto simp: fresh_store_def)
  let ?s = "stored_world w key"
  have "guard_buffered key (Suc (Suc (Suc 0))) = Inr ()" by (simp add: guard_buffered_def MAX_BUFFERED_ARTIFACT_BYTES_def)
  then have "get_artifact_bytes key (moved ?s d n t c) = (Inr ''hi!'', moved (?s\<lparr>io_calls := Suc (io_calls ?s)\<rparr>) d n t c)"
    using base by (simp add: get_artifact_bytes_def stored_world_def moved_def Let_def)
  moreover have "faults (?s\<lparr>io_calls := Suc (io_calls ?s)\<rparr>) = faults w" using stored_world_simps(3) [OF assms] by simp
  ultimately show ?thesis by blast
qed

lemma committed_test:
  assumes q: "quiet w" and st: "fresh_store w" and form: "reads_body E form"
  shows "passes (new_version_publish_commits_metadata_and_row E form) w"
proof (rule passesI [OF q])
  note f = quiet_faults [OF q]
  obtain scheme where front: "publish_front E test_st (bearer TOKEN_PLAINTEXT) ''acme'' ''http-kit'' ''1.1.0'' (form ''1.1.0'' ''UPDATED'')
      (moved w (pb_db E w) 4 4 (calls w + 4)) =
    (case version_by_name (uuids w 2) ''1.1.0'' (pb_db E w) of
       Some _ \<Rightarrow> (Inl (version_exists ''acme'' ''http-kit'' ''1.1.0''), moved w (pb_db E w) 4 4 (calls w + 4 + 4))
     | None \<Rightarrow> (Inr (pb_token E w, pb_org w, publish_body E scheme ''1.1.0'' ''UPDATED'', ''hi!''), moved w (pb_db E w) 4 4 (calls w + 4 + 4)))"
    by (rule pb_front [OF form in_bodies(2), of "calls w + 4" w]) (simp add: f)
  let ?meta = "publish_body E scheme ''1.1.0'' ''UPDATED''" and ?sha = "sha256_hex E ''hi!''"
  define key where "key = artifact_key ?sha (format_extension E (meta_format ?meta))"
  let ?v = "stored_world w key"
  define pkg where "pkg = refresh_package (manifest_package (uuids w 4) (clock w 4) (pb_org w) ''http-kit'' (meta_manifest ?meta)) (pb_package w)"
  define ver where "ver = new_version E (uuids w 5) (clock w 5) pkg ''1.1.0'' ?meta ?sha 3 key"
  define d1 where "d1 = (pb_db E w)\<lparr>packages := [pkg]\<rparr>"
  define d2 where "d2 = d1\<lparr>versions := [pb_version w, ver]\<rparr>"
  have up: "upsert_package_row (manifest_package (uuids w 4) (clock w 4) (pb_org w) ''http-kit'' (meta_manifest ?meta)) (pb_db E w) = Inr d1"
    by (simp add: upsert_package_row_def package_key_def manifest_package_def d1_def pkg_def pb_db_def pb_org_def
        pb_package_def kit_package_def update_packages_def map_where_def)
  have pkg: "package_by_name (uuids w 0) ''http-kit'' d1 = Some pkg" "p_id pkg = uuids w 2" "p_description pkg = Some ''UPDATED''"
    by (simp_all add: package_by_name_def d1_def pkg_def refresh_package_def pb_package_def kit_package_def
        manifest_package_def publish_body_def)
  have "uuids w 5 \<noteq> uuids w 3" using quiet_uuid [OF q, of 5 3] by simp
  then have ins: "insert_version ver d1 = Inr d2"
    unfolding insert_version_Inr
    by (simp add: ver_def new_version_def d1_def d2_def pb_db_def pb_version_def version_key_def pkg(2))
  have txn: "publish_txn E (pb_org w) ''acme'' ''http-kit'' ''1.1.0'' ?meta ?sha 3 key (moved ?v (pb_db E w) 4 4 k) =
      (Inr (), moved ?v d2 6 6 (k + 5))" for k
    using f st up pkg(1) ins
    by (simp add: publish_txn_def in_txn_def upsert_package_def record_version_def steps pb_lookups or_else_def ver_def
        numeral_eq_Suc)
  define x where "x = append_row E (uuids w 0) (pb_token E w) Publish (coordinate ''acme'' ''http-kit'' ''1.1.0'')
    (Some (''sha256='' @ ?sha)) (audit_tip (uuids w 0) d2) (clock w 6) (uuids w 6)"
  define d3 where "d3 = d2\<lparr>audits := [x]\<rparr>"
  have d2: "audits d2 = []" "orgs d2 = [pb_org w]" by (simp_all add: d2_def d1_def pb_db_def)
  have "insert_audit x d2 = Inr d3" unfolding insert_audit_Inr by (simp add: d2 d3_def x_def pb_lookups(2))
  with record_moved [of ?v E "uuids w 0" "pb_token E w" Publish "coordinate ''acme'' ''http-kit'' ''1.1.0''" "Some (''sha256='' @ ?sha)" d2 6 6]
  have rec: "record_audit E test_st (uuids w 0) (pb_token E w) Publish (coordinate ''acme'' ''http-kit'' ''1.1.0'')
      (Some (''sha256='' @ ?sha)) (moved ?v d2 6 6 k) = (Inr None, moved ?v d3 7 7 (k + 4))" for k
    using f st by (simp add: x_def)
  have rest: "publish_back E test_st ''acme'' ''http-kit'' ''1.1.0'' (pb_token E w) (pb_org w) ?meta ''hi!'' (moved w (pb_db E w) 4 4 k) =
      (Inr \<lparr>pub_org = ''acme'', pub_name = ''http-kit'', pub_version = ''1.1.0'', pub_sha256 = ?sha\<rparr>, moved ?v d3 7 7 (k + 5 + 4))" for k
    unfolding publish_back_def Let_def key_def [symmetric] andThen_def map_err_def put_hi [OF st]
    using txn rec by (simp add: pb_lookups(2))
  have after: "find (\<lambda>p. p_id p = uuids w 2) (packages d3) = Some pkg" "version_by_name (uuids w 2) ''1.1.0'' d3 = Some ver"
    using pkg(2) by (simp_all add: d3_def d2_def d1_def version_by_name_def pb_version_def ver_def new_version_def)
  show "fst (new_version_publish_commits_metadata_and_row E form (moved w empty_db 0 0 (calls w))) = Inr True"
    unfolding new_version_publish_commits_metadata_and_row_def andThen_def pb_seeded [OF f] prod.case sum.case put_version_def
      publish_split inspect_def front
    using f st pkg(3) after by (simp add: pb_lookups rest ret_def steps description_of_def or_else_def)
qed

lemma retained_test:
  assumes q: "quiet w" and st: "fresh_store w" and form: "reads_body E form"
  shows "passes (failed_metadata_transaction_retains_uploaded_blob E form) w"
proof (rule passesI [OF q])
  note f = quiet_faults [OF q]
  define fw where "fw = w\<lparr>faults := (\<lambda>n. if n = calls w + 4 + 5 then Some (OtherDbErr ''forced metadata failure'') else None)\<rparr>"
  have fw: "faults fw n = (if n = calls w + 9 then Some (OtherDbErr ''forced metadata failure'') else None)" "fresh_store fw" for n
    using st by (simp_all add: fw_def fresh_store_def)
  have trigger: "reject_package_update (moved w (pb_db E w) 4 4 (calls w + 4)) = (Inr (), moved fw (pb_db E w) 4 4 (calls w + 4))"
    by (simp add: reject_package_update_def moved_def fw_def)
  obtain scheme where front: "publish_front E test_st (bearer TOKEN_PLAINTEXT) ''acme'' ''http-kit'' ''1.1.0'' (form ''1.1.0'' ''UPDATED'')
      (moved fw (pb_db E w) 4 4 (calls w + 4)) =
    (case version_by_name (uuids w 2) ''1.1.0'' (pb_db E w) of
       Some _ \<Rightarrow> (Inl (version_exists ''acme'' ''http-kit'' ''1.1.0''), moved fw (pb_db E w) 4 4 (calls w + 4 + 4))
     | None \<Rightarrow> (Inr (pb_token E w, pb_org w, publish_body E scheme ''1.1.0'' ''UPDATED'', ''hi!''), moved fw (pb_db E w) 4 4 (calls w + 4 + 4)))"
    by (rule pb_front [OF form in_bodies(2), of "calls w + 4" fw]) (simp add: fw(1))
  let ?meta = "publish_body E scheme ''1.1.0'' ''UPDATED''" and ?sha = "sha256_hex E ''hi!''"
  define key where "key = artifact_key ?sha (format_extension E (format_default E))"
  have key: "artifact_key ?sha (format_extension E (meta_format ?meta)) = key" by (simp add: key_def publish_body_def)
  have eight: "calls w + 4 + 4 = calls w + 8" by simp
  let ?v = "stored_world fw key"
  have "faults ?v = faults fw" using fw(2) by simp
  then have txn: "publish_txn E (pb_org w) ''acme'' ''http-kit'' ''1.1.0'' ?meta ?sha 3 key (moved ?v (pb_db E w) 4 4 (calls w + 8)) =
      (Inl (from_db_err (OtherDbErr ''forced metadata failure'')), moved ?v (pb_db E w) 5 5 (calls w + 10))"
    by (simp add: publish_txn_def in_txn_def upsert_package_def steps fw(1) eval_nat_numeral)
  have rest: "publish_back E test_st ''acme'' ''http-kit'' ''1.1.0'' (pb_token E w) (pb_org w) ?meta ''hi!'' (moved fw (pb_db E w) 4 4 (calls w + 8)) =
      (Inl (from_db_err (OtherDbErr ''forced metadata failure'')), moved ?v (pb_db E w) 5 5 (calls w + 10))"
    unfolding publish_back_def Let_def key andThen_def map_err_def put_hi [OF fw(2)]
    using txn by simp
  obtain v where v: "get_artifact_bytes key (moved ?v (pb_db E w) 5 5 (calls w + 10)) = (Inr ''hi!'', moved v (pb_db E w) 5 5 (calls w + 10))"
    "faults v = faults fw"
    using get_hi [OF fw(2)] by blast
  show "fst (failed_metadata_transaction_retains_uploaded_blob E form (moved w empty_db 0 0 (calls w))) = Inr True"
    unfolding failed_metadata_transaction_retains_uploaded_blob_def andThen_def pb_seeded [OF f] prod.case sum.case put_version_def
      publish_split inspect_def trigger front key_def [symmetric] eight
    using rest v by (simp add: pb_lookups ret_def steps description_of_def or_else_def fw(1) from_db_err_def)
qed

end
