(* ===== verification/Upgrade_Tests.thy ===== *)
theory Upgrade_Tests
  imports Migration
begin

text \<open>
  \<open>migration/tests/upgrade_path.rs\<close>: the shipped backfill statement on a log of before the chain.
  The tests are over the draws \<open>u\<close> of \<open>Uuid::new_v4()\<close>, of which they need that they differ.
\<close>

definition legacy_entry :: "uuid \<Rightarrow> uuid \<Rightarrow> timestamp \<Rightarrow> string \<Rightarrow> audit_row" where
  "legacy_entry i org at_time subject =
     \<lparr>a_id = i, a_org = org, a_at = at_time, a_action = ''publish'', a_subject = subject, a_token_id = None,
      a_token_name = ''legacy'', a_role = ''owner'', a_detail = None, a_seq = 0, a_hash = [], a_prev = None\<rparr>"

definition seqs_for :: "audit_row list \<Rightarrow> uuid \<Rightarrow> int list" where
  "seqs_for rows org = sort (map a_seq (filter (\<lambda>r. a_org r = org) rows))"

definition legacy_rows_are_numbered_per_org_in_recorded_order :: "(nat \<Rightarrow> uuid) \<Rightarrow> timestamp \<Rightarrow> bool" where
  "legacy_rows_are_numbered_per_org_in_recorded_order u base =
     (let org_a = u 0; org_b = u 1;
          rows = map (\<lambda>(i, org). legacy_entry (u (2 + i)) org (base + int i * 10 ^ 9) (''acme/pkg@1.0.'' @ nat_str i))
            (enumerate 0 [org_a, org_a, org_b, org_a]);
          after = backfill_legacy_seq rows
      in seqs_for after org_a = [1, 2, 3] \<and> seqs_for after org_b = [1] \<and>
         map_option a_subject (find (\<lambda>r. a_org r = org_a \<and> a_seq r = 1) after) = Some ''acme/pkg@1.0.0'' \<and>
         length after = 4 \<and> list_all (\<lambda>r. a_hash r = [] \<and> a_prev r = None \<and> a_token_name r = ''legacy'') after)"

definition rows_with_identical_timestamps_still_get_distinct_positions :: "(nat \<Rightarrow> uuid) \<Rightarrow> timestamp \<Rightarrow> bool" where
  "rows_with_identical_timestamps_still_get_distinct_positions u at_time =
     (let org = u 0;
          rows = map (\<lambda>i. legacy_entry (u (1 + i)) org at_time (''s'' @ nat_str i)) [0..<3];
          after = backfill_legacy_seq rows
      in seqs_for after org = [1, 2, 3] \<and> seqs_for (backfill_legacy_seq after) org = [1, 2, 3])"

definition an_empty_table_backfills_cleanly :: bool where
  "an_empty_table_backfills_cleanly \<longleftrightarrow> length (backfill_legacy_seq []) = 0"

lemma numbering_test:
  assumes "u 0 \<noteq> u 1"
  shows "legacy_rows_are_numbered_per_org_in_recorded_order u base"
proof -
  have "nat_str 0 = ''0''" by (subst nat_str.simps) (simp add: digit_char_def, code_simp)
  then show ?thesis
    using assms by (simp add: legacy_rows_are_numbered_per_org_in_recorded_order_def Let_def legacy_entry_def
        backfill_legacy_seq_def counted_for_def seqs_for_def)
qed

lemma seqs_dense:
  assumes "distinct (map a_id rows)"
  shows "seqs_for (backfill_legacy_seq rows) org = map int [1..<Suc (length (filter (\<lambda>r. a_org r = org) rows))]"
proof (rule sorted_distinct_set_unique)
  let ?rows = "filter (\<lambda>r. a_org r = org) (backfill_legacy_seq rows)"
  have "distinct (map audit_key ?rows)" using backfill_dense(2) [OF assms] by (simp add: distinct_map_filter)
  moreover have "map audit_key ?rows = map (\<lambda>r. (org, a_seq r)) ?rows" by (simp add: audit_key_def)
  ultimately have "distinct (map (\<lambda>r. (org, a_seq r)) ?rows)" by (simp only:)
  then show "distinct (seqs_for (backfill_legacy_seq rows) org)" by (simp add: seqs_for_def distinct_map inj_on_def)
  have "a_seq ` set ?rows = int ` {1..length (filter (\<lambda>r. a_org r = org) rows)}"
    using backfill_dense(1) [OF assms, of org] by simp
  then show "set (seqs_for (backfill_legacy_seq rows) org) = set (map int [1..<Suc (length (filter (\<lambda>r. a_org r = org) rows))])"
    by (simp add: seqs_for_def atLeastLessThanSuc_atLeastAtMost del: upt_Suc)
qed (simp_all add: seqs_for_def distinct_map sorted_map inj_on_def del: upt_Suc)

lemma same_time_test:
  assumes "distinct (map u [1..<4])"
  shows "rows_with_identical_timestamps_still_get_distinct_positions u at_time"
proof -
  let ?rows = "map (\<lambda>i. legacy_entry (u (1 + i)) (u 0) at_time (''s'' @ nat_str i)) [0..<3]"
  have "map a_id ?rows = map u [1..<4]" by (simp add: legacy_entry_def upt_rec)
  then have "distinct (map a_id ?rows)" using assms by (simp only:)
  from seqs_dense [OF this, of "u 0"]
  have "seqs_for (backfill_legacy_seq ?rows) (u 0) = [1, 2, 3]" by (simp add: legacy_entry_def upt_rec)
  then show ?thesis
    by (simp only: rows_with_identical_timestamps_still_get_distinct_positions_def Let_def backfill_idempotent simp_thms)
qed

lemma empty_table_test: an_empty_table_backfills_cleanly
  by (simp add: an_empty_table_backfills_cleanly_def backfill_legacy_seq_def)

end
