(* ===== verification/Witnesses.thy ===== *)
theory Witnesses
  imports Example Startup Publication_Model Quota Limiter_Tests Chain_Tests Log_Tests Publish_Tests Upgrade_Tests
begin

text \<open>
  The properties of the single components at the concrete worlds of \<open>Example\<close>: each witness
  discharges a property's hypotheses there and states what it gives.
\<close>

section \<open>Publishing\<close>

theorem publish_failure_no_trace_witness:
  "db (snd (publish ex_E ex_st None ''acme'' ''tool'' ''1.1.0'' ex_form ex_w)) = ex_db"
proof -
  have "publish ex_E ex_st None ''acme'' ''tool'' ''1.1.0'' ex_form ex_w = (Inl err_unauthorized, ex_w)"
    by (simp add: publish_def andThen_def require_token_run [OF ex_on] bearer_token_def)
  from publish_failure_no_trace [OF ex_on this] this show ?thesis by simp
qed


section \<open>Authentication\<close>

theorem require_token_accepts_iff_witness:
  "(\<exists>w'. require_token ex_E ex_st (Some ''Bearer pub'') ex_w = (Inr (ex_token 21 ''pub'' (Some 10) ''publisher''), w')) \<longleftrightarrow>
     ex_token 21 ''pub'' (Some 10) ''publisher'' \<in> set (tokens ex_db) \<and>
     token_live 1000000 (ex_token 21 ''pub'' (Some 10) ''publisher'') \<and>
     (\<exists>p. bearer_token (Some ''Bearer pub'') = Some p \<and>
        t_hash (ex_token 21 ''pub'' (Some 10) ''publisher'') = hash_token ex_E p)"
  using require_token_accepts_iff [OF ex_on, of ex_w ex_E "Some ''Bearer pub''"] ex_db_ok by simp

definition ex_off :: app_state where
  "ex_off = ex_st\<lparr>environ := (\<lambda>v. if v = ''ZED_AUTH_DISABLED'' then Some ''1'' else None)\<rparr>"

lemma ex_operator:
  "\<exists>w'. insecure_operator_token ex_E ex_w = (Inr (operator_row ex_E 1000000), w') \<and>
     tokens (db w') = tokens ex_db @ [operator_row ex_E 1000000] \<and> db_ok (db w') \<and> faults w' (calls w') = None"
proof -
  obtain d where d: "insert_token (operator_row ex_E 1000000) ex_db = Inr d"
    by (simp add: insert_token_def insert_unique_def ex_db_def operator_row_def ex_token_def operator_id_def
        hash_token_def)
  then have "tokens d = tokens ex_db @ [operator_row ex_E 1000000]" "db_ok d"
    using insert_token_ok [OF ex_db_ok d] by (auto simp: insert_token_Inr)
  moreover have "token_by_id operator_id ex_db = None"
    by (simp add: token_by_id_def ex_db_def operator_id_def ex_token_def)
  ultimately show ?thesis using d
    by (simp add: insecure_operator_token_def run_simps statement_eq insert_stmt_def)
qed

theorem operator_row_outlives_witness:
  "\<exists>w' v'. insecure_operator_token ex_E ex_w = (Inr (operator_row ex_E 1000000), w') \<and>
     require_token ex_E ex_st (Some ''Bearer zed-auth-disabled-operator'') w' = (Inr (operator_row ex_E 1000000), v')"
proof -
  obtain w' where w': "insecure_operator_token ex_E ex_w = (Inr (operator_row ex_E 1000000), w')"
    "tokens (db w') = tokens ex_db @ [operator_row ex_E 1000000]" "db_ok (db w')" "faults w' (calls w') = None"
    using ex_operator by blast
  have "auth_disabled ex_off" by (simp add: auth_disabled_def ex_off_def)
  moreover have "token_by_id operator_id (db ex_w) = None"
    by (simp add: token_by_id_def ex_db_def operator_id_def ex_token_def)
  ultimately show ?thesis
    using operator_row_outlives [OF _ ex_on w'(1), of ex_off w'] w' ex_db_ok by auto
qed

section \<open>Namespaces\<close>

lemma ex_slug: "is_slug ex_E ''fresh''"
  by (simp, code_simp)

lemma ex_claim_free: "org_by_slug ''fresh'' ex_db = None"
  by (simp add: org_by_slug_def ex_db_def)

lemma ex_claim:
  "\<exists>w'. claim_org ex_E ex_st NoClient (Some ''Bearer pub'') ''fresh'' ex_w =
     (Inr \<lparr>cl_slug = ''fresh'', cl_created = True\<rparr>, w')"
proof -
  let ?w = "next_call (next_call ex_w)"
  have "insert_org \<lparr>o_id = 100, o_slug = ''fresh'', o_created_at = 1000000, o_created_by = Some 21\<rparr> ex_db \<noteq> Inl e" for e
    by (simp add: insert_org_def insert_unique_def ex_db_def ex_token_def opt_holds_def)
  then obtain d where d:
    "insert_org \<lparr>o_id = 100, o_slug = ''fresh'', o_created_at = 1000000, o_created_by = Some 21\<rparr> ex_db = Inr d"
    by (metis sum.exhaust)
  have "claimed_by 21 ex_db = 0" by (simp add: claimed_by_def ex_db_def)
  with d obtain w2 where txn:
    "claim_txn ex_st (ex_token 21 ''pub'' (Some 10) ''publisher'') ''fresh'' ?w = (Inr 100, w2)"
    by (simp add: claim_txn_def in_txn_def check_quota_def insert_new_org_def run_simps statement_eq
        insert_stmt_def)
  obtain e w3 where aud: "record_audit ex_E ex_st 100 (ex_token 21 ''pub'' (Some 10) ''publisher'')
      OrgClaim ''fresh'' None w2 = (Inr e, w3)"
    unfolding record_audit_def using record_loop_total by blast
  have slug: "''fresh'' \<noteq> [] \<and> list_all unreserved ''fresh''" using ex_slug by simp
  have "claim_org_serialized ex_E ex_st (ex_token 21 ''pub'' (Some 10) ''publisher'') ''fresh'' ?w =
      (Inr \<lparr>cl_slug = ''fresh'', cl_created = True\<rparr>, w3)"
    using txn aud by (simp add: claim_org_serialized_def andThen_def)
  then show ?thesis
    using slug by (simp add: claim_org_def run_simps ex_require ex_claim_free release_fiducia_guard_def)
qed

theorem claim_creates_org_witness:
  "\<exists>(w' :: world) row. orgs (db w') = orgs ex_db @ [row] \<and> o_slug row = ''fresh'' \<and> o_created_by row = Some 21"
proof -
  obtain w' where w': "claim_org ex_E ex_st NoClient (Some ''Bearer pub'') ''fresh'' ex_w =
      (Inr \<lparr>cl_slug = ''fresh'', cl_created = True\<rparr>, w')"
    using ex_claim by blast
  have "db_ok (db ex_w)" using ex_db_ok by simp
  from claim_creates_org [OF this w'] ex_require(1) show ?thesis by auto
qed

definition ex_st0 :: app_state where
  "ex_st0 = ex_st\<lparr>max_orgs_per_token := 0\<rparr>"

theorem claim_over_quota_refused_witness:
  "\<exists>w'. claim_org ex_E ex_st0 Acquired (Some ''Bearer pub'') ''fresh'' ex_w =
     (Inl (org_quota_exceeded 0 0), w') \<and> db w' = ex_db"
proof -
  have on: "\<not> auth_disabled ex_st0" by (simp add: auth_disabled_def ex_st0_def)
  have req: "require_token ex_E ex_st0 (Some ''Bearer pub'') ex_w =
      (Inr (ex_token 21 ''pub'' (Some 10) ''publisher''), next_call ex_w)"
    by (simp add: require_token_run [OF on] ex_pub_bearer ex_tokens hash_token_def) (simp add: ex_token_def)
  have "claimed_by 21 ex_db = 0" by (simp add: claimed_by_def ex_db_def)
  then show ?thesis
    using claim_over_quota_refused [OF req _ ex_slug, of Acquired] by (simp add: ex_claim_free ex_st0_def)
qed

definition ex_pg :: app_state where
  "ex_pg = ex_st\<lparr>backend := Postgres, max_orgs_per_token := 1\<rparr>"

theorem quota_never_exceeded_witness:
  "\<exists>w'. served_locked ex_E False 1 ex_w w' \<and>
     w' = snd (claim_org ex_E ex_pg NoClient (Some ''Bearer pub'') ''b''
       (snd (claim_org ex_E ex_pg NoClient (Some ''Bearer pub'') ''a'' ex_w))) \<and>
     within_quota 1 (db w')"
proof -
  let ?claim = "\<lambda>s w. snd (claim_org ex_E ex_pg NoClient (Some ''Bearer pub'') s w)"
  have pg: "backend ex_pg = Postgres" "max_orgs_per_token ex_pg \<le> 1" by (simp_all add: ex_pg_def)
  have "served_locked ex_E False 1 ex_w ex_w" by (auto simp: served_locked_def)
  from served_locked_claim [OF this refl _ pg] have "served_locked ex_E False 1 ex_w (?claim ''a'' ex_w)"
    by (simp add: events_ok_def)
  from served_locked_claim [OF this refl _ pg] have run: "served_locked ex_E False 1 ex_w (?claim ''b'' (?claim ''a'' ex_w))"
    by (simp add: events_ok_def)
  have "claimed_by i ex_db = 0" for i by (simp add: claimed_by_def ex_db_def)
  then have "within_quota 1 (db ex_w)" "db_ok (db ex_w)" using ex_db_ok by (simp_all add: within_quota_def)
  from quota_never_exceeded [OF _ run this(2,1)] run show ?thesis by simp
qed

section \<open>Yanking and selecting\<close>

lemma ex_yank:
  "\<exists>w'. yank ex_E ex_st (Some ''Bearer pub'') ''acme'' ''tool'' ''1.0.0'' True ex_w =
     (Inr \<lparr>yk_org = ''acme'', yk_name = ''tool'', yk_version = ''1.0.0'', yk_yanked = True\<rparr>, w')"
proof -
  let ?tok = "ex_token 21 ''pub'' (Some 10) ''publisher''"
  have "\<exists>e w3. record_audit ex_E ex_st 10 ?tok Yank (coordinate ''acme'' ''tool'' ''1.0.0'') None w2 = (Inr e, w3)" for w2
    unfolding record_audit_def using record_loop_total by blast
  then show ?thesis
    by (simp add: yank_def run_simps ex_require find_org_def find_package_def find_version_def ex_lookups
        ex_checks update_stmt_def statement_eq split: sum.split prod.split)
qed

theorem yank_selection_witness:
  "\<exists>w' :: world. set (visible_versions_desc ex_E (versions_of ex_E 30 (db w'))) = {}"
proof -
  obtain w' where w': "yank ex_E ex_st (Some ''Bearer pub'') ''acme'' ''tool'' ''1.0.0'' True ex_w =
     (Inr \<lparr>yk_org = ''acme'', yk_name = ''tool'', yk_version = ''1.0.0'', yk_yanked = True\<rparr>, w')"
    using ex_yank by blast
  have "db_ok (db ex_w)" using ex_db_ok by simp
  note r = yank_selection [OF this ex_sorts ex_scans w']
  have "set (visible_versions_desc ex_E (versions_of ex_E 30 ex_db)) = {''1.0.0''}"
    by (simp add: visible_versions_desc_def sort_versions_desc_def versions_of_def ex_db_def ex_version_def)
  with r show ?thesis by (intro exI [of _ w']) (auto simp: ex_lookups)
qed

theorem latest_visible_spec_witness:
  "case latest_visible_version ex_E (versions ex_db) of
      None \<Rightarrow> \<forall>r\<in>set (versions ex_db). v_yanked r
    | Some v \<Rightarrow> (\<exists>r\<in>set (versions ex_db). \<not> v_yanked r \<and> v_version r = v) \<and>
        (\<forall>r\<in>set (versions ex_db). v_yanked r \<or> v_version r = v \<or> v \<ge> v_version r)"
  by (rule latest_visible_spec [OF ex_sorts])

section \<open>The audit log\<close>

text \<open>Three entries of one org, each appended to the one before.\<close>

definition ex_entry :: "audit_row option \<Rightarrow> uuid \<Rightarrow> string \<Rightarrow> audit_row" where
  "ex_entry tip i sub = append_row ex_E 10 (ex_token 20 ''adm'' None ''owner'') Publish sub None tip 1000000 i"

definition ex_log :: "audit_row list" where
  "ex_log = (let a = ex_entry None 1 ''a''; b = ex_entry (Some a) 2 ''b''; c = ex_entry (Some b) 3 ''c''
             in [a, b, c])"

lemma ex_sha_nonempty [simp]: "ex_sha s \<noteq> []"
  using hex_digests_nonempty [OF ex_hex, of s] by simp

lemma ex_entry_hash:
  "expected_hash ex_E (ex_entry t i s) (or_empty (tip_hash t)) = a_hash (ex_entry t i s)"
  unfolding ex_entry_def by (rule append_row_hash [symmetric])

lemma ex_entry_simps [simp]:
  "a_org (ex_entry t i s) = 10" "a_id (ex_entry t i s) = i" "a_seq (ex_entry t i s) = tip_seq t + 1"
  "a_subject (ex_entry t i s) = s" "a_action (ex_entry t i s) = ''publish''" "a_hash (ex_entry t i s) \<noteq> []"
proof -
  show "a_hash (ex_entry t i s) \<noteq> []"
    unfolding ex_entry_hash [symmetric] by (simp add: expected_hash_def entry_digest_def)
qed (simp_all add: ex_entry_def)

lemma ex_entry_first [simp]: "expected_hash ex_E (ex_entry None i s) [] = a_hash (ex_entry None i s)"
  using ex_entry_hash [of None i s] by (simp add: tip_hash_def or_empty_def)

lemma ex_entry_next [simp]:
  "expected_hash ex_E (ex_entry (Some (ex_entry t j s')) i s) (a_hash (ex_entry t j s')) =
     a_hash (ex_entry (Some (ex_entry t j s')) i s)"
  using ex_entry_hash [of "Some (ex_entry t j s')" i s] by (simp add: tip_hash_def or_empty_def)

lemma ex_log_facts:
  "chain_ok ex_E [] None ex_log" "\<forall>r\<in>set ex_log. chained r" "map a_seq ex_log = [1, 2, 3]"
  by (simp_all add: ex_log_def Let_def chained_def tip_seq_def)

lemma ex_log_split:
  "ex_log = [] @ ex_log ! 0 # tl ex_log" "ex_log = [ex_log ! 0] @ ex_log ! 1 # ex_log ! 2 # []"
  by (simp_all add: ex_log_def Let_def)


theorem deletion_reported_witness:
  "verify_chain ex_E ([ex_log ! 0] @ ex_log ! 2 # []) =
     \<lparr>rep_intact = False, rep_checked = length [ex_log ! 0], rep_first_bad = Some (a_seq (ex_log ! 1)),
      rep_problem = Some SequenceGap, rep_head = Some (a_hash (last [ex_log ! 0]))\<rparr>"
  by (rule deletion_reported) (use ex_log_facts ex_log_split(2) in simp_all)

lemma ex_log_intact: "rep_intact (verify_chain ex_E ex_log)"
  unfolding verify_chain_intact filter_chained_id [OF ex_log_facts(2)] by (rule ex_log_facts)


theorem prev_column_unchecked_witness:
  "verify_chain ex_E (map (\<lambda>r. r\<lparr>a_prev := Some ''forged''\<rparr>) ex_log) = verify_chain ex_E ex_log"
  by (rule prev_column_unchecked [OF ex_log_intact])

definition ex_audit_db :: database where
  "ex_audit_db = ex_db\<lparr>audits := ex_log\<rparr>"

lemma ex_audit_ok: "db_ok ex_audit_db"
  using ex_db_ok
  by (simp add: ex_audit_db_def db_ok_def unique_ok_def fk_ok_def indexed_defs audit_key_def ex_log_def Let_def tip_seq_def)
    (simp add: ex_db_def)

theorem audit_page_continues_witness:
  "audit_page 10 None None 1 ex_audit_db @
     audit_page 10 None (Some (a_seq (last (audit_page 10 None None 1 ex_audit_db)))) 2 ex_audit_db =
   audit_page 10 None None (1 + 2) ex_audit_db"
proof (rule audit_page_continues [OF ex_audit_ok])
  have "length (newest_first ex_log) = 3"
    by (simp add: newest_first_def ex_log_def Let_def)
  then show "length (audit_page 10 None None 1 ex_audit_db) = 1"
    by (simp add: audit_page_def ex_audit_db_def ex_log_def Let_def)
qed simp

section \<open>Migration, tokens and the connection loop\<close>

theorem connect_returns_witness:
  "\<exists>r. connect_loop (\<lambda>n. n = 3) (\<lambda>n. 2 * n) 30 (connect_fuel 30) 0 = Some r \<and>
     (case r of
        Inr n \<Rightarrow> n = 3 \<and> (\<forall>m. 0 < m \<and> m < n \<longrightarrow> \<not> m = 3 \<and> 2 * m < 30)
      | Inl e \<Rightarrow> \<exists>n>0. e = connect_failed n (2 * n) \<and> 30 \<le> 2 * n \<and> (\<forall>m. 0 < m \<and> m \<le> n \<longrightarrow> \<not> m = 3))"
  by (rule connect_returns) simp

definition ex_cli :: app_state where
  "ex_cli = ex_st\<lparr>environ := [''DATABASE_URL'' \<mapsto> ''postgres://db'']\<rparr>"

lemma ex_create:
  "\<exists>p w'. create_token ex_E ex_cli [''--name'', ''ci'', ''--org'', ''acme''] ex_w = (Inr p, w')"
proof -
  have args: "create_args [''--name'', ''ci'', ''--org'', ''acme''] create_defaults =
      Inr \<lparr>co_name = Some ''ci'', co_org = Some ''acme'', co_role = ''owner'', co_days = None\<rparr>"
    by (simp add: create_defaults_def Let_def)
  have chk: "check_create \<lparr>co_name = Some ''ci'', co_org = Some ''acme'', co_role = ''owner'', co_days = None\<rparr> = Inr ''ci''"
    by (simp add: check_create_def role_is_valid_def)
  have opened: "open_database ex_cli ex_w = (Inr (), next_call (next_call ex_w))"
    by (simp add: open_database_def run_simps ex_cli_def config_defaults)
  have ins: "insert_token r ex_db = Inr (ex_db\<lparr>tokens := tokens ex_db @ [r]\<rparr>)"
    if "t_id r = 102" "t_hash r = ex_sha (CHR ''z'' # x)" "t_org r = Some 10" for r x
    using that by (simp add: insert_token_Inr ex_db_def ex_token_def)
  show ?thesis
    by (simp del: create_args.simps add: create_token_def run_simps args chk opened ex_lookups
        find_or_create_org_def expiry_def mint_def Let_def insert_stmt_def statement_eq ins hash_token_def)
qed


section \<open>Searching\<close>

lemma ex_search:
  "\<exists>items w'. search ex_E ex_st ''oo'' None ex_w = (Inr (''oo'', items), w') \<and> items \<noteq> []"
proof -
  have "\<exists>a b. ''tool'' = a @ ''oo'' @ b" by (intro exI [of _ "''t''"] exI [of _ "''l''"]) simp
  then have m: "filter (search_matches ex_st ''oo'') (packages ex_db) = packages ex_db"
    by (simp add: ex_db_def search_matches_def like_contains str_contains_iff like_fold_def)
      (simp add: ascii_lower_def)
  have t: "take 50 (packages ex_db) = packages ex_db" by (simp add: ex_db_def)
  have o: "with_org ex_db (packages ex_db) = [(hd (packages ex_db), Some ex_org)]"
    by (simp add: with_org_def org_of_def ex_db_def ex_org_def)
  show ?thesis
    by (simp add: search_def run_simps m o t parse_tag_filter_def has_all_tags_def)
qed

theorem search_sound_witness:
  "\<exists>it pkg org. pkg \<in> set (packages ex_db) \<and> org_of ex_db pkg = Some org \<and>
     it = summary ex_E pkg org (versions_of ex_E (p_id pkg) ex_db)"
proof -
  obtain items w' where run: "search ex_E ex_st ''oo'' None ex_w = (Inr (''oo'', items), w')" and "items \<noteq> []"
    using ex_search by blast
  then have "hd items \<in> set items" by simp
  from search_sound [OF ex_scans run this] show ?thesis by auto
qed

section \<open>Tags and repositories\<close>

lemma ex_segments: "valid_repo_segment ''acme''" "valid_repo_segment ''tool''"
  by code_simp+


section \<open>Budgets\<close>

theorem budget_seq_witness:
  "case read_seq (budget_read (\<lambda>n s. (Inr (take n s), drop n s))) [2, 5, 9] (''abcdefgh'', 6) of
     (bs, (s', k')) \<Rightarrow> length bs + k' = 6"
proof -
  have ok: "reader_ok (\<lambda>n (s :: bytes). (Inr (take n s), drop n s))" by (simp add: reader_ok_def)
  obtain bs s' k' where r:
    "read_seq (budget_read (\<lambda>n s. (Inr (take n s), drop n s))) [2, 5, 9] (''abcdefgh'', 6) = (bs, (s', k'))"
    by (rule prod_cases3)
  from budget_seq [OF ok r] show ?thesis unfolding r by simp
qed

definition ex_limiter :: limiter where
  "ex_limiter = \<lparr>buckets = [''k'' \<mapsto> \<lparr>bk_tokens = Fnum 0, bk_last_seen = 0\<rparr>], burst = Fnum 2, per_second = Fnum 1\<rparr>"

lemma ex_limiter_ok: "limiter_ok ex_limiter" "burst ex_limiter = Fnum 2" "per_second ex_limiter = Fnum 1"
proof -
  show "limiter_ok ex_limiter"
    unfolding limiter_ok_def by (auto simp: ex_limiter_def f64_less_def intro: exI [of _ 2])
qed (simp_all add: ex_limiter_def)

lemma ex_limiter_avail: "avail ex_limiter ''k'' 0 = 0"
  using avail_eq [OF ex_limiter_ok(1,3), of "''k''" "\<lparr>bk_tokens = Fnum 0, bk_last_seen = 0\<rparr>" 0]
  by (simp add: ex_limiter_def)

theorem rate_bound_witness:
  "real (fst (run_events ''k'' [Charge ''k'' 1000000000, Sweep 5, Charge ''k'' 0] ex_limiter)) \<le>
     2 + 1 * (1 + 1 / 2 ^ 51) + 4 / 2 ^ 51"
proof -
  let ?es = "[Charge ''k'' 1000000000, Sweep 5, Charge ''k'' 0]"
  obtain n l' where r: "run_events ''k'' ?es ex_limiter = (n, l')" by (rule prod.exhaust)
  have t: "\<forall>e\<in>set ?es. event_time e \<le> DURATION_MAX" by simp
  from rate_bound [OF ex_limiter_ok _ t r, of 0] r show ?thesis by simp
qed


section \<open>Migrations\<close>

text \<open>A deployment of the sixth migration: two audit entries of the same instant, none chained.\<close>

definition ex_legacy_row :: "uuid \<Rightarrow> int \<Rightarrow> audit_row" where
  "ex_legacy_row i n =
     \<lparr>a_id = i, a_org = 10, a_at = 7, a_action = ''publish'', a_subject = ''acme/tool@1.0.0'',
      a_token_id = Some 21, a_token_name = ''pub'', a_role = ''publisher'', a_detail = None,
      a_seq = n, a_hash = [], a_prev = None\<rparr>"

definition ex_legacy :: database where
  "ex_legacy = ex_db\<lparr>audits := [ex_legacy_row 50 1, ex_legacy_row 51 2]\<rparr>"

definition ex_server :: sql_server where
  "ex_server = \<lparr>available = [''pg_trgm'', ''vector''], computed = \<lambda>_ _. Null\<rparr>"

lemma ex_can_extend: "can_extend ex_server []"
  by (simp add: can_extend_def ex_server_def)

lemma ex_legacy_ok: "constraints_hold (staged [] 6 ex_legacy)"
proof -
  have "db_ok ex_legacy"
    using ex_db_ok
    by (simp add: ex_legacy_def ex_legacy_row_def db_ok_def unique_ok_def fk_ok_def indexed_defs audit_key_def)
      (simp add: ex_db_def)
  then show ?thesis by (simp add: integrity_staged db_ok_integrity)
qed

theorem upgrade_serves_as_before_witness:
  "(\<exists>s. migrate_up ex_server 6 (staged [] 6 ex_legacy) = Inr s \<and> constraints_hold s) \<and>
   catalog (upgraded 6 ex_legacy) = catalog ex_legacy \<and>
   rep_intact (verify_chain ex_E (org_log 10 (upgraded 6 ex_legacy)))"
  using upgrade_serves_as_before [OF _ _ ex_can_extend ex_legacy_ok, of ex_E 10] by simp

theorem upgrade_roundtrip_witness:
  "\<exists>s. migrate_up ex_server 6 (staged [] 6 ex_legacy) = Inr s \<and>
     migrate_down ex_server 2 8 s = Inr (staged [''pg_trgm'', ''vector''] 6 ex_legacy)"
proof -
  have "log_ids_distinct 6 ex_legacy" by (simp add: log_ids_distinct_def ex_legacy_def ex_legacy_row_def)
  from upgrade_roundtrip [OF _ ex_can_extend this] show ?thesis
    by (simp add: extensions_after_def with_extensions_def)
qed


section \<open>Routing\<close>

theorem request_reaches_its_handler_witness:
  "dispatch (router ex_st 1000) GET ''/v1/files/acme/tool/1.0.0/dist/style.css'' =
     Handler Get_File
       [(''org'', ''acme''), (''name'', ''tool''), (''version'', ''1.0.0''), (''path'', ''dist/style.css'')]"
  using request_reaches_its_handler
    [of "GetFile None ''acme'' ''tool'' ''1.0.0'' ''dist/style.css''" GET Get_File _ ex_st 1000]
  by (simp add: path_params_ok_def request_url_def)

theorem route_limits_witness:
  "\<exists>r\<in>set (router ex_st 1000). body_limit (r_layers r) = Some 1000 \<and> Rate_Limit \<in> set (r_layers r)"
proof
  let ?r = "router ex_st 1000 ! 12"
  show "?r \<in> set (router ex_st 1000)" by (rule nth_mem) (simp add: patterns_def)
  moreover have "Publish_Version \<in> set (map snd (r_methods ?r))" by (simp add: router_defs)
  ultimately show "body_limit (r_layers ?r) = Some 1000 \<and> Rate_Limit \<in> set (r_layers ?r)"
    using route_limits [of ?r ex_st 1000 Publish_Version] by (auto simp: outer_layers_def suffix_def)
qed

section \<open>Starting over a deployment\<close>

definition ex_machine :: machine where
  "ex_machine =
     \<lparr>connects = \<lambda>n. n = 1, seconds = \<lambda>n. 2 * n, sql_host = ex_server, applied = 6,
      deployment = staged [] 6 ex_legacy, mkdir_outcome = IoOk, objects = [], can_bind = \<lambda>_. True\<rparr>"

definition ex_env :: env where
  "ex_env = [''DATABASE_URL'' \<mapsto> ''postgres://db'']"

lemma ex_machine_facts:
  "deployment ex_machine = staged [] 6 ex_legacy" "applied ex_machine = 6" "can_extend (sql_host ex_machine) []"
  using ex_can_extend by (simp_all add: ex_machine_def)

lemma ex_run: "\<exists>s migrated. run parse ex_machine ex_env [''zed''] 1 = (Listening s, migrated)"
proof -
  have ids: "log_ids_distinct 6 ex_legacy"
    by (simp add: log_ids_distinct_def ex_legacy_def ex_legacy_row_def)
  show ?thesis
    using migrate_up_staged [OF _ ex_can_extend ids] config_defaults [of "''postgres://db''"]
    by (simp add: run_def process_command_def start_service_def ex_env_def [symmetric] ex_machine_def
        apply_migrations_def)
qed

definition ex_upgraded :: world where
  "ex_upgraded = ex_w\<lparr>db := upgraded 6 ex_legacy\<rparr>"

definition ex_upgraded' :: world where
  "ex_upgraded' = snd (handle ex_E ex_st (PostYank (Some ''Bearer pub'') ''acme'' ''tool'' ''1.0.0'' True) ex_upgraded)"

lemma ex_upgraded_db: "db ex_upgraded = upgraded 6 ex_legacy"
  by (simp add: ex_upgraded_def)

lemma ex_upgraded_served: "served ex_E False ex_upgraded ex_upgraded'"
  unfolding ex_upgraded'_def
  by (rule served_handle [OF _ served_refl refl]) (simp_all add: ex_hex events_ok_def)

section \<open>The model of the latest version\<close>

definition ex_ver :: "int \<Rightarrow> string" where
  "ex_ver i = (if i = 1 then ''1.0.0'' else if i = 2 then ''1.1.0'' else ''2.0.0'')"

definition ex_selection :: selection_state where
  "ex_selection = qnt_init\<lparr>qnt_published := {1}, advertised_latest := 1\<rparr>"

lemma ex_three: "three_versions (\<ge>) ex_ver"
  by (simp add: three_versions_def ex_ver_def)

lemma ex_confined: "confined ex_ver 30 (db ex_w')"
  using ex_versions_after
  by (auto simp: confined_def package_versions_def ex_db_def ex_version_def ex_ver_def VERSIONS_def)

lemma ex_selection_reached: "qnt_step\<^sup>*\<^sup>* qnt_init ex_selection"
  by (rule r_into_rtranclp, rule qnt_step.Publish [of 1])
    (simp_all add: qnt_publish_def qnt_init_def ex_selection_def expected_latest_def VERSIONS_def NONE_def)

lemma ex_shown: "shows_state ex_E ex_ver 30 (db ex_w) ex_selection"
proof -
  have "package_versions 30 ex_db = [ex_version 40 ''1.0.0'' ''old'' False]"
    by (simp add: package_versions_def ex_db_def ex_version_def)
  then have "published_in ex_ver 30 ex_db = {1}" "yanked_in ex_ver 30 ex_db = {}"
    "confined ex_ver 30 ex_db"
    by (auto simp: published_in_def yanked_in_def confined_def VERSIONS_def ex_ver_def ex_version_def)
  with shows_state_expected [OF ex_db_ok ex_sorts ex_scans ex_three, of 30 ex_selection] show ?thesis
    by (simp add: ex_selection_def qnt_init_def expected_latest_def)
qed

section \<open>The model of racing publishes\<close>

definition ex_art :: "int \<Rightarrow> artifact" where
  "ex_art i = (ex_sha (if i = 1 then ''new'' else ''xyz''), ''tar.gz'')"

lemma ex_two: "two_artifacts ex_art"
  by (simp add: two_artifacts_def ex_art_def artifact_key_def ex_sha_def)

lemma ex_only: "only_artifacts ex_art 30 ''1.1.0'' (db ex_w')"
  using ex_versions_after
  by (auto simp: only_artifacts_def release_rows_def ex_db_def ex_version_def artifact_of_def ex_art_def
      DIGESTS_def image_iff)

lemma ex_race_shown: "shows_race ex_E ex_art 30 ''1.1.0'' (shared ex_w) (race_init 2)"
proof -
  have "version_by_name 30 ''1.1.0'' ex_db = None"
    by (simp add: version_by_name_def ex_db_def) (simp add: ex_version_def)
  moreover have "blobs_in ex_art ex_store = {}"
    by (simp add: blobs_in_def DIGESTS_def ex_art_def ex_store_def local_path_def artifact_key_def ex_sha_def)
  ultimately show ?thesis
    using fresh_race_shown [OF ex_db_ok ex_scans] by (simp add: shared_def)
qed

section \<open>The world of the tests\<close>

text \<open>What the tests of the handlers assume of their world and of the externals, at the example.\<close>

lemma ex_quiet: "quiet (ex_w\<lparr>db := empty_db, store := Local ''data'' []\<rparr>)" "fresh_store (ex_w\<lparr>db := empty_db, store := Local ''data'' []\<rparr>)"
proof -
  have "of_nat (100 + i) = (of_nat (100 + j) :: uuid) \<longleftrightarrow> i = j" if "i < 24" "j < 24" for i j
    using that by (simp add: word_of_nat_eq_iff take_bit_nat_eq_self)
  then have "distinct (map (uuids ex_w) [0..<24])" by (auto simp: distinct_map inj_on_def)
  then show "quiet (ex_w\<lparr>db := empty_db, store := Local ''data'' []\<rparr>)"
    by (auto simp: quiet_def fun_eq_iff)
  show "fresh_store (ex_w\<lparr>db := empty_db, store := Local ''data'' []\<rparr>)" by (simp add: fresh_store_def)
qed

lemma trim_none: "strip_any ps s = None \<Longrightarrow> trim_start_with ps s = s"
  by (simp add: trim_start_with.simps [of ps s])

lemma digit_end: "\<exists>xs d. d < 10 \<and> nat_str n = xs @ [digit_char d]"
  by (subst nat_str.simps) (auto intro: mod_less_divisor exI [of _ "n mod 10"])

lemma ex_simple: "simple_ok ex_E"
  unfolding simple_ok_def
proof (intro allI)
  fix p and u :: uuid
  obtain xs d where d: "d < 10" "nat_str (unat u) = xs @ [digit_char d]" using digit_end by blast
  have "d \<in> {0, 1, 2, 3, 4, 5, 6, 7, 8, 9}" using d(1) by auto
  then have "strip_any (map rev white_space) (digit_char d # ys) = None" for ys
    by (elim insertE) (simp_all add: white_space_def digit_char_def char_of_def)
  then show "str_trim (''zpkg_'' @ p @ uuid_simple ex_E u) = ''zpkg_'' @ p @ uuid_simple ex_E u"
    by (simp add: str_trim_def trim_end_with_def d(2) trim_none white_space_def)
qed

end
