(* ===== verification/Spec2Isabelle.thy ===== *)
theory Spec2Isabelle
  imports Witnesses
begin

text \<open>
  \<^bold>\<open>The Zed registry API server: a model of its Rust crate and what is proved of it.\<close>

  The crate under \<open>src/\<close> (with the migrations of \<open>migration/src/\<close>) is a package registry: an HTTP
  service in front of a SQL database and a content-addressed artifact store. Organisations claim a
  namespace, publish immutable versions of packages into it with bearer tokens, yank and restore
  them; anybody lists, searches and downloads; every mutation leaves an entry in a per-organisation
  hash-chained audit log.

  \<^bold>\<open>The parts, in the order of the theories.\<close>
  \<^item> \<open>Prelude\<close>: lemma collections and the Rust standard library the code uses (trimming, splitting,
    number parsing and printing, saturating and checked arithmetic).
  \<^item> \<open>Errors\<close> (\<open>error.rs\<close>), \<open>Rbac\<close> (\<open>rbac.rs\<close>): API errors with their HTTP status and the
    conversions of \<open>?\<close>; roles and the two authorisation decisions.
  \<^item> \<open>Schema\<close> (\<open>entities/\<close>): one record per table row, the tables as lists, and the inserts and
    updates with the unique indexes and foreign keys the migrated schema has. \<open>db_ok\<close> is the
    integrity of the database. The locale \<open>unique_table\<close> is interpreted for each of the tables.
  \<^item> \<open>Storage\<close> (\<open>storage.rs\<close>): the store with its memory, local and S3 backends. Its contract is the
    locale \<open>blob_store\<close>, interpreted for any schedule of failures, and \<open>atomic_blob_store\<close> for
    schedules where no write stops half way.
  \<^item> \<open>World\<close> (\<open>state.rs\<close>): the world of a handler (database, store, clock, drawn identifiers and
    schedules of failures), and \<open>andThen\<close>, the code's \<open>?\<close>. \<open>externals\<close> collects what the crate calls
    and does not define: SHA-256, \<open>zed-interfaces\<close>, the decoders, the GitHub client, \<open>pgvector\<close>.
  \<^item> \<open>Auth\<close> (\<open>auth.rs\<close>), \<open>Audit_Log\<close> and \<open>Audit_Props\<close> (\<open>audit.rs\<close>), \<open>Audit_Routes\<close>
    (\<open>routes/audit.rs\<close>), \<open>Files\<close> (\<open>files.rs\<close>), \<open>Selection\<close> (\<open>routes/mod.rs\<close>, \<open>packages.rs\<close>,
    \<open>artifacts.rs\<close>), \<open>Verify\<close> (\<open>verify.rs\<close>), \<open>Publish\<close> and \<open>Publish_Props\<close> (\<open>routes/publish.rs\<close>),
    \<open>Yank\<close> (\<open>routes/yank.rs\<close>), \<open>Orgs\<close> (\<open>routes/orgs.rs\<close>), \<open>Listing\<close> (\<open>routes/list.rs\<close>,
    \<open>search.rs\<close>), \<open>Semantic\<close> (\<open>embeddings.rs\<close>, \<open>routes/semantic.rs\<close>), \<open>Tokens\<close> (\<open>tokens.rs\<close>): one
    theory per component, one definition per function, each handler whole and with its calls in
    the order of the code. A handler is a function from the world to an error or a response and
    the next world.
  \<^item> \<open>Config\<close> (\<open>config.rs\<close>), \<open>F64\<close> and \<open>Rate_Limit\<close> (\<open>ratelimit.rs\<close>), \<open>Server\<close> and \<open>Startup\<close> (\<open>server.rs\<close>),
    \<open>Router\<close> (\<open>routes/mod.rs\<close>), \<open>System\<close> (the dispatch of requests and commands), \<open>Metrics\<close>
    (\<open>metrics.rs\<close>).
  \<^item> \<open>Integrity\<close> and \<open>Catalog\<close>: the invariants across tables, and the abstract registry, a map from
    (org, name, version) to the digest of the release and its yanked flag, with its steps.
  \<^item> \<open>Commits\<close>, \<open>Process\<close>, \<open>Concurrent\<close>, \<open>Quota\<close>: the concurrent server, see below.
  \<^item> \<open>Sql\<close>, \<open>Migration\<close>, \<open>Migrations\<close>, \<open>Stages\<close>, \<open>Upgrade\<close>: the schema's history, see below.
  \<^item> \<open>Latest_Model\<close> and \<open>Publication_Model\<close> (\<open>formal/latest_selection.qnt\<close>,
    \<open>formal/package_publication.qnt\<close>): the repository's executable models of the advertised latest
    version and of racing publishes, their invariants, the scenarios they reach, and the server as a
    refinement of both.
  \<^item> \<open>Unit_Tests\<close>, \<open>Limiter_Tests\<close>, \<open>Chain_Tests\<close>: the repository's own unit tests, as the modules have
    them, run on the model. A test is the conjunction of its assertions and is shown to pass.
  \<^item> \<open>Handler_Tests\<close> (\<open>auth.rs\<close>, \<open>routes/orgs.rs\<close>), \<open>Yank_Tests\<close> (\<open>routes/yank.rs\<close>), \<open>Log_Tests\<close>
    (\<open>routes/audit.rs\<close>), \<open>Publish_Tests\<close> (\<open>routes/publish.rs\<close>, \<open>routes/list.rs\<close>), \<open>Upgrade_Tests\<close>
    (\<open>migration/tests/upgrade_path.rs\<close>): the tests of the handlers, as programs over the model's
    effects that seed rows, call handlers and assert. They are shown to pass in every quiet world:
    an empty database that refuses nothing, fresh identifiers, a clock that goes forward.
  \<^item> \<open>Example\<close> and \<open>Witnesses\<close>: concrete worlds at which the hypotheses of the properties hold.

  \<^bold>\<open>Concurrency.\<close> An async handler gives way at every \<open>.await\<close>. \<open>Process\<close> has handlers as
  resumptions of atomic actions, and \<open>Concurrent\<close> writes every handler and command that mutates
  as one: an action is one statement, one store operation, one clock read or drawn identifier; a
  transaction that begins with reads gives way between them, and its writes with the commit are
  one action, since nothing of them is visible before it. A handler that only reads is one action.
  Advisory locks are not relied on here: other requests may run between the read of the audit tip
  and the append, and only the unique index decides. The limit on the orgs a token may claim has no
  index behind it; \<open>Quota\<close> adds the lock of a claim to the server, as flights that wait for it and
  hold it until the transaction ends or vanishes. That server is one of the interleavings above,
  so everything shown of them holds of it, and it keeps the limit. \<open>served\<close> is any interleaving of any number of
  requests and commands, some of which vanish in the middle (a client gone, a replica killed),
  with clocks, identifiers and failures chosen anew at any time; \<open>among\<close> is one process with
  everything else running. Both are shown, by the rely-guarantee judgement \<open>safe\<close>, to be runs of
  the abstract machine \<open>commit\<close>, whose moves are the statements and store operations the code
  issues. An invariant is stated once against the locale \<open>database_invariant\<close> and holds of every
  service by its interpretation. Run without interruption a process is the sequential handler (\<open>Concurrent\<close>).

  \<^bold>\<open>Migrations.\<close> \<open>Sql\<close> is a small relational engine: tables with typed columns, defaults, unique
  indexes, foreign keys and extensions, and the statements the migrations issue. \<open>Migrations\<close> has
  the eight migrations, up and down, as those statements. \<open>staged exts k d\<close> renders typed rows as
  the tables that the first \<open>k\<close> migrations leave; \<open>Stages\<close> shows what each migration does to them,
  \<open>Upgrade\<close> composes them: any earlier release upgrades, the undo gives the tables back, the
  migrated constraints are \<open>db_ok\<close>, and what a client sees of an upgraded deployment is what it
  saw before.

  \<^bold>\<open>What the properties show.\<close> This theory: the service as a whole, under every interleaving and
  failure. It refines the abstract registry; releases are permanent, their bytes are there and have
  their digest; audit logs stay verifiable and only grow; a deployment upgraded at start keeps all
  of this; revocation and ownership last; the schema's integrity survives; the version advertised
  as latest and the race of two publishes follow the repository's own models, which its model
  checker runs do not show of the code; a publish that answers with success is final.
  \<open>Auth\<close>, \<open>Orgs\<close>, \<open>Publish_Props\<close>, \<open>Yank\<close>, \<open>Selection\<close>, \<open>Tokens\<close>: what an operation does on success
  and on each error. \<open>Quota\<close>: the limit on claims under races. \<open>Router\<close>: every request reaches its handler, behind the layers its route is
  meant to have. \<open>Upgrade\<close>: the schema, its constraints, its upgrades and their undoing.
  \<open>Audit_Props\<close>, \<open>Audit_Routes\<close>: the verifier finds edits and deletions, a recorded head hash pins
  the history, paging loses nothing. \<open>Rate_Limit\<close>: a bound on the admitted requests with the
  rounding errors counted, and a retry after the announced time is admitted. \<open>Listing\<close>: search hits match the query, character by
  character. \<open>Files\<close>, \<open>Verify\<close>: what untrusted archives, file names and tags cannot do. \<open>Server\<close>:
  the wait for the database returns.
  Of \<open>E :: externals\<close> the properties assume only what \<open>hex_digests\<close> (the hex text of a digest has 64
  characters), \<open>sorts_versions\<close> (\<open>sort_desc\<close> permutes and sorts by an antisymmetric order) and
  \<open>scans_ok\<close> (an unordered query returns its rows in some order) say. Collision freedom is not
  assumed anywhere: where it matters the conclusion names the collision.

  \<^bold>\<open>Bounds and fuel.\<close> The append of an audit entry retries \<open>APPEND_ATTEMPTS\<close> times, as the code
  does. The only loop with fuel is the wait for the database: every failed attempt sleeps two
  seconds, so \<open>connect_fuel\<close>, half the configured wait plus one, is enough, and the loop is shown to
  return with it. Identifiers are 128-bit words. Other integers are \<open>nat\<close> and \<open>int\<close> with the bounds of
  their type written out where the code can meet them: numbers are parsed with the range of \<open>u32\<close>,
  \<open>u64\<close> or \<open>i64\<close>, casts go through \<open>as_u64\<close>, and additions saturate or fail as the code's do.

  \<^bold>\<open>Not modelled.\<close> \<open>main.rs\<close> only declares modules and calls \<open>server::run\<close>. Tracing, sockets and
  TLS have no effect on what is modelled. axum's extraction of paths, query strings and JSON hands
  the handlers their arguments parsed; what tower's timeout and concurrency layers do at run time is
  tower's, only which routes they wrap is here. The ledger of applied migrations is
  sea-orm-migration's: how many are applied is an argument. The \<open>f64\<close> of the
  rate limiter is binary64 with its rounding, overflow and NaN (theory \<open>F64\<close>), less the sign of zero,
  which nothing it computes can see. A commit that reports an error is taken not to have happened:
  the answer of a commit can be lost only with its caller. \<open>schema/schema.sql\<close> is documentation the service does not run.
  In the refinement of the publication model a crashed, aborted or rejected request is a stutter: it
  leaves nothing in the shared state, and the attempts of the model are the first uploads of either
  artifact.
\<close>

section \<open>The life of a registry\<close>

text \<open>What the properties below start from holds of a fresh registry, whatever its store holds.\<close>

lemma fresh_registry_is_sound:
  "fresh_registry w \<Longrightarrow>
     db_ok (db w) \<and> chain_inv E (db w) \<and> all_hashed (db w) \<and> all_backed E whole (shared w)"
  using chain_inv_empty [of E] empty_db_ok
  by (simp add: fresh_registry_def all_backed_def all_hashed_def)

text \<open>
  C1: Whatever requests and commands are served concurrently, however their actions interleave
  and whatever fails, the registry behaves as the abstract catalogue: it releases free
  coordinates, flips the yanked flag of released ones, and changes nothing else a client can
  resolve.
\<close>

theorem registry_refines_catalog:
  assumes "db_ok (db w)" "served E False w w'"
  shows "catalog_step\<^sup>*\<^sup>* (catalog (db w)) (catalog (db w'))"
  using commits_catalog [OF served_commits [OF assms(2)]] assms(1) by simp

theorem registry_refines_catalog_witness:
  "catalog_step\<^sup>*\<^sup>* (catalog (db ex_w)) (catalog (db ex_w'))"
  by (rule registry_refines_catalog [OF _ ex_served]) (simp add: ex_db_ok)

text \<open>
  C2: A published version is immutable: once a coordinate resolves to a digest it resolves to
  that digest after any concurrent service, and from then on no publish of it succeeds, whoever
  asks, whatever they send and whatever runs at the same time.
\<close>

theorem published_release_is_permanent:
  assumes "db_ok (db w)" "served E False w w'" "catalog (db w) (s, n, v) = Some (sha, y)"
  shows "(\<exists>y'. catalog (db w') (s, n, v) = Some (sha, y')) \<and>
     \<not> (\<exists>st h form resp w''. among E False (publish_proc E st h s n v form) w' (Inr resp) w'')"
proof -
  note run = served_commits [OF assms(2)]
  have "db_ok (db w')" using commits_db_ok [OF run] assms(1) by simp
  moreover have "\<exists>y'. catalog (db w') (s, n, v) = Some (sha, y')"
    using catalog_commits [OF run] assms(1,3) by simp
  ultimately show ?thesis using publish_among [of E False _ _ s n v _ w'] by fastforce
qed

theorem published_release_is_permanent_witness:
  "(\<exists>y'. catalog (db ex_w') (''acme'', ''tool'', ''1.0.0'') = Some (ex_sha ''old'', y')) \<and>
   \<not> (\<exists>st h form resp w''.
        among ex_E False (publish_proc ex_E st h ''acme'' ''tool'' ''1.0.0'' form) ex_w' (Inr resp) w'')"
  by (rule published_release_is_permanent [OF _ ex_served, of _ _ _ _ False])
    (simp_all add: ex_db_ok ex_catalog)

text \<open>
  C3: As long as no write of the store stops half way, the bytes stored under a released
  version's key exist and have the digest its row declares: this holds of a fresh registry, and
  any concurrent service keeps it.
\<close>

theorem released_bytes_have_their_digest:
  assumes "hex_digests E" "all_backed E True (shared w)" "served E True w w'"
    and "row \<in> set (versions (db w'))"
  shows "\<exists>b. stored (store w') (v_artifact_key row) = Some b \<and> sha256_hex E b = v_sha256 row"
  using all_backed_commits [OF served_commits [OF assms(3)] _ assms(2)] assms(1,4)
  by (auto simp: all_backed_def backed_def held_def)

theorem released_bytes_have_their_digest_witness:
  "\<exists>b. stored (store ex_w') (v_artifact_key (ex_version 40 ''1.0.0'' ''old'' False)) = Some b \<and>
       sha256_hex ex_E b = v_sha256 (ex_version 40 ''1.0.0'' ''old'' False)"
  by (rule released_bytes_have_their_digest [OF ex_hex ex_backed ex_served ex_versions])



text \<open>
  C5: From a registry without legacy audit rows on, whatever appends race, with or without the
  advisory lock, every org's audit log verifies as an intact chain at any time, the verification
  covers every entry of it, and no entry is ever removed or rewritten.
\<close>

theorem audit_logs_stay_intact:
  assumes "hex_digests E" "chain_inv E (db w)" "all_hashed (db w)" "served E False w w'"
  shows "rep_intact (verify_chain E (org_log org (db w'))) \<and>
     rep_checked (verify_chain E (org_log org (db w'))) = length (org_log org (db w')) \<and>
     prefix (audits (db w)) (audits (db w'))"
proof -
  note run = served_commits [OF assms(4)]
  have log: "log_ok E (org_log org (db w'))" and hashed: "all_hashed (db w')"
    using commits_chain_inv [OF run assms(1)] commits_hashed [OF run assms(1)] assms(2,3)
    by (simp_all add: chain_inv_def)
  have "\<forall>r\<in>set (org_log org (db w')). a_hash r \<noteq> []"
    using hashed by (auto simp: all_hashed_def org_rows_def)
  then have "chain_part (org_log org (db w')) = org_log org (db w')"
    unfolding chain_part_def by (rule dropWhile_all_hashed)
  with log_ok_report [OF log] commits_audits [OF run] show ?thesis by simp
qed

theorem audit_logs_stay_intact_witness:
  "rep_intact (verify_chain ex_E (org_log 10 (db ex_w'))) \<and>
   rep_checked (verify_chain ex_E (org_log 10 (db ex_w'))) = length (org_log 10 (db ex_w')) \<and>
   prefix (audits (db ex_w)) (audits (db ex_w'))"
  by (rule audit_logs_stay_intact [OF ex_hex _ _ ex_served]) (simp_all add: ex_chain)

text \<open>
  C6: A server started with migrations on over the database of an earlier release, whatever it
  holds, migrates it and keeps the promises of that release: from then on, whatever is served
  concurrently, the catalogue evolves from the one before the upgrade by releases and flags alone,
  the schema's constraints hold, and every org's audit log, legacy entries first, verifies.
\<close>

theorem upgraded_deployment_keeps_promises:
  assumes "0 < k" "k < 8" "deployment m = staged exts k d" "applied m = k"
    and "can_extend (sql_host m) exts" "constraints_hold (staged exts k d)"
    and "run parse_f64 m env args fuel = (Listening s, migrated)"
    and "env_or env ''AUTO_MIGRATE'' ''true'' = ''true''"
    and "db w = upgraded k d" "hex_digests E" "served E False w w'"
  shows "migrated = staged (extensions_after k exts) 8 (db w) \<and>
     catalog_step\<^sup>*\<^sup>* (catalog d) (catalog (db w')) \<and> db_ok (db w') \<and>
     rep_intact (verify_chain E (org_log org (db w')))"
proof -
  note commits = served_commits [OF assms(11)]
  have chain: "chain_inv E (db w')"
    using commits_chain_inv [OF commits assms(10)] upgraded_chain_inv [OF assms(2,6)] assms(9) by simp
  then have "log_ok E (org_log org (db w'))" "db_ok (db w')" by (simp_all add: chain_inv_def)
  moreover have "db_ok (db w)" "catalog (db w) = catalog d"
    using staged_integrity(2) [of k exts d] catalog_upgraded [of k d] assms(1,2,6,9) by simp_all
  moreover from this(1) have "catalog_step\<^sup>*\<^sup>* (catalog (db w)) (catalog (db w'))"
    using commits_catalog [OF commits] by simp
  ultimately show ?thesis
    using run_migrates [OF assms(7,3,4) _ assms(5,6)] assms(2,8,9) log_ok_report [of E "org_log org (db w')"]
    by simp
qed

theorem upgraded_deployment_keeps_promises_witness:
  "\<exists>s. run (\<lambda>_. None) ex_machine ex_env [''zed''] 1 =
        (Listening s, staged [''pg_trgm'', ''vector''] 8 (upgraded 6 ex_legacy)) \<and>
     rep_intact (verify_chain ex_E (org_log 10 (db ex_upgraded')))"
proof -
  obtain s migrated where run: "run (\<lambda>_. None) ex_machine ex_env [''zed''] 1 = (Listening s, migrated)"
    using ex_run by blast
  from upgraded_deployment_keeps_promises [OF _ _ ex_machine_facts ex_legacy_ok run _ ex_upgraded_db ex_hex
      ex_upgraded_served, of 10] run
  show ?thesis by (auto simp: ex_env_def env_or_def extensions_after_def with_extensions_def ex_upgraded_db)
qed

text \<open>
  C7: A revoked token is never accepted again, by any replica that has authentication on,
  whatever was served since.
\<close>

theorem revoked_token_stays_dead:
  assumes "db_ok (db w)" "row \<in> set (tokens (db w))" "t_revoked_at row \<noteq> None"
    and "served E False w w'" "\<not> auth_disabled st" "faults w' (calls w') = None"
    and "bearer_token h = Some p" "hash_token E p = t_hash row"
  shows "\<exists>w''. require_token E st h w' = (Inl err_unauthorized, w'')"
proof (rule require_token_denied [OF assms(5,6)])
  note run = served_commits [OF assms(4)]
  from commits_tokens [OF run] obtain pre suf where
    pre: "tokens (db w') = pre @ suf" "list_all2 token_le (tokens (db w)) pre"
    by (auto simp: tokens_extend_def)
  from assms(2) obtain i where i: "i < length (tokens (db w))" "tokens (db w) ! i = row"
    by (auto simp: in_set_conv_nth)
  with pre(2) have "token_le row (pre ! i)" "pre ! i \<in> set pre"
    by (auto simp: list_all2_conv_all_nth)
  then have r': "pre ! i \<in> set (tokens (db w'))" "t_hash (pre ! i) = t_hash row" "t_revoked_at (pre ! i) \<noteq> None"
    using pre(1) assms(3) by (auto simp: token_le_def)
  have ok: "db_ok (db w')" using commits_db_ok [OF run] assms(1) by simp
  fix q assume "q \<in> set (tokens (db w'))" "opt_holds (\<lambda>p. t_hash q = hash_token E p) (bearer_token h)"
  then have "q = pre ! i"
    using r' assms(7,8) db_okD(2) [OF ok] by (auto intro: distinct_map_unique)
  with r' show "\<not> token_live (clock w' (ticks w')) q" by (simp add: token_live_def)
qed

theorem revoked_token_stays_dead_witness:
  "\<exists>w''. require_token ex_E ex_st (Some ''Bearer pub'') (snd (handle ex_E ex_st ex_put ex_revoked)) =
     (Inl err_unauthorized, w'')"
  by (rule revoked_token_stays_dead [OF ex_revoked_facts(1,2) _ ex_revoked_facts(3) ex_on ex_revoked_facts(4)
        ex_pub_bearer]) (simp_all add: hash_token_def ex_token_def)

text \<open>
  C18: A namespace keeps its owner: a slug, once claimed, resolves to the same org row for ever.
\<close>

theorem namespace_keeps_owner:
  assumes "served E False w w'" "org_by_slug s (db w) = Some org"
  shows "org_by_slug s (db w') = Some org"
  using commits_org [OF served_commits [OF assms(1)]] assms(2) by simp

theorem namespace_keeps_owner_witness: "org_by_slug ''acme'' (db ex_w') = Some ex_org"
  by (rule namespace_keeps_owner [OF ex_served]) (simp_all add: ex_lookups)

text \<open>
  C9: The server refines the repository's own model of the advertised latest version: from a
  database that shows a reachable state of it for a package of at most three ordered versions,
  any concurrent service arrives at one that shows a state the model reaches from there, and
  that satisfies \<open>selection_safety\<close>.
\<close>

theorem latest_selection_refined:
  assumes "db_ok (db w)" "served E False w w'"
    and "sorts_versions E newer" "scans_ok E" "three_versions newer ver"
    and "confined ver p (db w')" "qnt_step\<^sup>*\<^sup>* qnt_init q" "shows_state E ver p (db w) q"
  shows "\<exists>q'. qnt_step\<^sup>*\<^sup>* q q' \<and> selection_safety q' \<and> shows_state E ver p (db w') q'"
proof -
  from commits_shown [OF served_commits [OF assms(2)] _ assms(3-5)] assms(1,6,8)
  obtain q' where q': "qnt_step\<^sup>*\<^sup>* q q'" "shows_state E ver p (db w') q'" by auto
  then have "selection_safety q'" using qnt_steps_safe [OF rtranclp_trans [OF assms(7)] qnt_init_safe] by blast
  with q' show ?thesis by blast
qed

theorem latest_selection_refined_witness:
  "\<exists>q'. qnt_step\<^sup>*\<^sup>* ex_selection q' \<and> selection_safety q' \<and> shows_state ex_E ex_ver 30 (db ex_w') q'"
  by (rule latest_selection_refined [OF _ ex_served ex_sorts ex_scans ex_three ex_confined ex_selection_reached ex_shown])
    (simp add: ex_db_ok)

text \<open>
  C8: The server refines the repository's own model of racing publishes: whatever it serves, as
  long as the version raced for only ever gets one of two artifacts, the blobs, the version row,
  the look-ups of it and the number of rows move as the model's steps move them, and the state
  they show satisfies \<open>publication_safety\<close>: one winner, nothing advertised before the commit, and
  a committed artifact stays available.
\<close>

theorem publication_refined:
  assumes "db_ok (db w)" "served E False w w'" "scans_ok E" "two_artifacts art"
    and "only_artifacts art p v (db w')"
    and "race_step\<^sup>*\<^sup>* (race_init 2) q" "shows_race E art p v (shared w) q"
  shows "\<exists>q'. race_step\<^sup>*\<^sup>* q q' \<and> publication_safety q' \<and> shows_race E art p v (shared w') q'"
proof -
  from commits_race_shown [OF served_commits [OF assms(2)] _ assms(3,4)] assms(1,5,7)
  obtain q' where q': "race_step\<^sup>*\<^sup>* q q'" "shows_race E art p v (shared w') q'"
    unfolding shared_simps by blast
  have "publication_safety (race_init 2)" by (rule race_init_safe) (simp add: DIGESTS_def)
  then have "publication_safety q'" using race_steps_safe [OF rtranclp_trans [OF assms(6) q'(1)]] by blast
  with q' show ?thesis by blast
qed

theorem publication_refined_witness:
  "\<exists>q'. race_step\<^sup>*\<^sup>* (race_init 2) q' \<and> publication_safety q' \<and>
     shows_race ex_E ex_art 30 ''1.1.0'' (shared ex_w') q'"
  by (rule publication_refined [OF _ ex_served ex_scans ex_two ex_only _ ex_race_shown])
    (simp_all add: ex_db_ok)



text \<open>
  C10: A publish that answers with success, whatever ran between any two of its actions and
  after it, had found its coordinate free, and the coordinate resolves to the digest of its
  response: of two racing publishes that both succeed, neither overwrites the other.
\<close>

theorem publish_answer_is_final:
  assumes "db_ok (db w)" "among E False (publish_proc E st h s n v form) w (Inr resp) w'"
  shows "catalog (db w) (s, n, v) = None \<and>
     (\<exists>y. catalog (db w') (s, n, v) = Some (pub_sha256 resp, y))"
  by (rule publish_among [OF assms(2) _ assms(1)]) simp

theorem publish_answer_is_final_witness:
  "catalog (db ex_w) (''acme'', ''tool'', ''1.1.0'') = None \<and>
   (\<exists>y. catalog (db ex_w') (''acme'', ''tool'', ''1.1.0'') = Some (pub_sha256 ex_resp, y))"
  by (rule publish_answer_is_final [OF _ ex_among]) (simp add: ex_db_ok)

end
